(* ===== verification/Umr_Prelude.thy ===== *)
theory Umr_Prelude
  imports Main "HOL-Library.Word"
begin

text \<open>
  Shared vocabulary of the development: the C integer types as words, C strings as
  character lists, byte views of 32 and 64 bit integers (little endian, the layout
  of every host the tool runs on), the shift-and-mask idiom of the hardware
  decoders, and the generic lemmas about lists and words that the component
  theories share.
\<close>

unbundle bit_operations_syntax

subsection \<open>Types\<close>

type_synonym u8 = "8 word"
type_synonym u16 = "16 word"
type_synonym u32 = "32 word"
type_synonym u64 = "64 word"

named_theorems umr_defs \<open>definitions that symbolic evaluation unfolds\<close>
named_theorems umr_wf \<open>preservation of the components' invariants\<close>

subsection \<open>Characters and bytes\<close>

definition byte_of_char :: "char \<Rightarrow> u8" where
  "byte_of_char c = of_nat (of_char c)"

definition char_of_byte :: "u8 \<Rightarrow> char" where
  "char_of_byte b = char_of (unat b)"

abbreviation bytes_of_string :: "string \<Rightarrow> u8 list" where
  "bytes_of_string \<equiv> map byte_of_char"

text \<open>A C string read out of a byte array: everything up to the first NUL.\<close>

definition string_of_bytes :: "u8 list \<Rightarrow> string" where
  "string_of_bytes bs = map char_of_byte (takeWhile (\<lambda>b. b \<noteq> 0) bs)"

text \<open>A value that a C \<^verbatim>\<open>char *\<close> can hold contains no NUL character.\<close>

definition cstring :: "string \<Rightarrow> bool" where
  "cstring s \<longleftrightarrow> CHR 0x00 \<notin> set s"

lemma char_of_byte_of_char [simp]: "char_of_byte (byte_of_char c) = c"
proof -
  have "of_char c < (2::nat) ^ LENGTH(8)"
    using nat_of_char_less_256 [of c] by simp
  then have "unat (of_nat (of_char c) :: u8) = of_char c"
    by (simp add: unsigned_of_nat take_bit_nat_eq_self)
  then show ?thesis by (simp add: byte_of_char_def char_of_byte_def)
qed

lemma byte_of_char_of_byte [simp]: "byte_of_char (char_of_byte b) = b"
proof -
  have "unat b < 256" using unsigned_less [of b] by simp
  then have "(of_char (char_of (unat b)) :: nat) = unat b"
    by simp
  then show ?thesis by (simp add: byte_of_char_def char_of_byte_def)
qed

lemma byte_of_char_eq_iff [simp]: "byte_of_char c = byte_of_char d \<longleftrightarrow> c = d"
  by (metis char_of_byte_of_char)

lemma byte_of_NUL [simp]: "byte_of_char (CHR 0x00) = 0"
  by (simp add: byte_of_char_def)

lemma byte_of_char_0_iff [simp]: "byte_of_char c = 0 \<longleftrightarrow> c = CHR 0x00"
  by (metis byte_of_NUL byte_of_char_eq_iff)

lemma cstring_simps [simp]:
  "cstring []"
  "cstring (c # s) \<longleftrightarrow> c \<noteq> CHR 0x00 \<and> cstring s"
  "cstring (s @ t) \<longleftrightarrow> cstring s \<and> cstring t"
  by (auto simp: cstring_def)

lemma cstring_take: "cstring s \<Longrightarrow> cstring (take n s)"
  by (auto simp: cstring_def dest: in_set_takeD)

lemma takeWhile_cstring:
  "cstring s \<Longrightarrow> takeWhile (\<lambda>b. b \<noteq> 0) (bytes_of_string s @ bs) =
     bytes_of_string s @ takeWhile (\<lambda>b. b \<noteq> 0) bs"
  by (induction s) auto

lemma string_of_bytes_padded:
  assumes "cstring s"
  shows "string_of_bytes (bytes_of_string s @ replicate n 0) = s"
proof -
  have "takeWhile (\<lambda>b. b \<noteq> 0) (replicate n (0::u8)) = []" by (cases n) auto
  then show ?thesis
    using assms by (simp add: string_of_bytes_def takeWhile_cstring comp_def)
qed

lemma cstring_string_of_bytes [simp]: "cstring (string_of_bytes bs)"
proof -
  have "char_of_byte b \<noteq> CHR 0x00" if "b \<noteq> 0" for b
    using that by (metis byte_of_NUL byte_of_char_of_byte)
  then show ?thesis
    by (auto simp: cstring_def string_of_bytes_def dest!: set_takeWhileD)
      (metis)
qed

subsection \<open>Little endian integers\<close>

definition le32 :: "u32 \<Rightarrow> u8 list" where
  "le32 v = [ucast v, ucast (drop_bit 8 v), ucast (drop_bit 16 v), ucast (drop_bit 24 v)]"

fun of_le32 :: "u8 list \<Rightarrow> u32" where
  "of_le32 (a # b # c # d # _) =
     ucast a OR push_bit 8 (ucast b) OR push_bit 16 (ucast c) OR push_bit 24 (ucast d)"
| "of_le32 _ = 0"

text \<open>The low and the high half of a 64 bit value, and their recombination.\<close>

definition lo32 :: "u64 \<Rightarrow> u32" where
  "lo32 v = ucast v"

definition hi32 :: "u64 \<Rightarrow> u32" where
  "hi32 v = ucast (drop_bit 32 v)"

definition mk64 :: "u32 \<Rightarrow> u32 \<Rightarrow> u64" where
  "mk64 lo hi = ucast lo OR push_bit 32 (ucast hi)"

definition le64 :: "u64 \<Rightarrow> u8 list" where
  "le64 v = le32 (lo32 v) @ le32 (hi32 v)"

definition of_le64 :: "u8 list \<Rightarrow> u64" where
  "of_le64 bs = mk64 (of_le32 bs) (of_le32 (drop 4 bs))"

lemma length_le32 [simp]: "length (le32 v) = 4"
  by (simp add: le32_def)

lemma length_le64 [simp]: "length (le64 v) = 8"
  by (simp add: le64_def)

lemma of_le32_le32_append [simp]: "of_le32 (le32 v @ bs) = v"
proof (rule bit_word_eqI)
  fix n assume "n < LENGTH(32)"
  then consider "n < 8" | "8 \<le> n" "n < 16" | "16 \<le> n" "n < 24" | "24 \<le> n" "n < 32"
    by fastforce
  then show "bit (of_le32 (le32 v @ bs)) n = bit v n"
    by cases (auto simp: le32_def bit_simps less_diff_conv2)
qed

lemma of_le32_le32 [simp]: "of_le32 (le32 v) = v"
  using of_le32_le32_append [of v "[]"] by simp

lemma le32_of_le32: "length bs = 4 \<Longrightarrow> le32 (of_le32 bs) = bs"
proof -
  assume "length bs = 4"
  then obtain a b c d where bs: "bs = [a, b, c, d]"
    by (auto simp: numeral_eq_Suc length_Suc_conv)
  show ?thesis
    unfolding bs le32_def
    by (simp, intro conjI; rule bit_word_eqI; auto simp: bit_simps dest: bit_imp_le_length)
qed

lemma mk64_lo32_hi32 [simp]: "mk64 (lo32 v) (hi32 v) = v"
proof (rule bit_word_eqI)
  fix n assume "n < LENGTH(64)"
  then show "bit (mk64 (lo32 v) (hi32 v)) n = bit v n"
    by (auto simp: mk64_def lo32_def hi32_def bit_simps not_less)
qed

lemma lo32_mk64 [simp]: "lo32 (mk64 l h) = l"
  by (rule bit_word_eqI) (auto simp: mk64_def lo32_def bit_simps)

lemma hi32_mk64 [simp]: "hi32 (mk64 l h) = h"
  by (rule bit_word_eqI) (auto simp: mk64_def hi32_def bit_simps dest: bit_imp_le_length)

lemma of_le64_le64_append [simp]: "of_le64 (le64 v @ bs) = v"
  by (simp add: of_le64_def le64_def)

subsection \<open>Bit fields\<close>

text \<open>The decoders' idiom \<^verbatim>\<open>(x >> n) & m\<close>.\<close>

definition shr_and :: "u64 \<Rightarrow> nat \<Rightarrow> u64 \<Rightarrow> u64" where
  "shr_and x n m = drop_bit n x AND m"

text \<open>
  The idiom \<^verbatim>\<open>1ULL << n\<close> with an \<^verbatim>\<open>int\<close> shift count: C leaves the
  result undefined unless the count is between 0 and 63; \<open>None\<close> is that case.
\<close>

definition shl64 :: "u64 \<Rightarrow> int \<Rightarrow> u64 option" where
  "shl64 x n = (if 0 \<le> n \<and> n < 64 then Some (push_bit (nat n) x) else None)"

definition shr64 :: "u64 \<Rightarrow> int \<Rightarrow> u64 option" where
  "shr64 x n = (if 0 \<le> n \<and> n < 64 then Some (drop_bit (nat n) x) else None)"

lemma shr_and_mask_bound: "shr_and x n (mask k) \<le> mask k"
  by (simp add: shr_and_def word_and_le1)

lemma bit_shr_and_mask:
  "bit (shr_and x n (mask k)) i \<longleftrightarrow> i < k \<and> bit x (n + i)"
  by (auto simp: shr_and_def bit_simps dest: bit_imp_le_length)

text \<open>A word composed of fields: position, width and value, and what slicing gives back.\<close>

definition pack :: "(nat \<times> nat \<times> u64) list \<Rightarrow> u64" where
  "pack fs = foldr (\<lambda>(n, k, v) w. push_bit n (v AND mask k) OR w) fs 0"

fun fields_apart :: "(nat \<times> nat \<times> u64) list \<Rightarrow> bool" where
  "fields_apart [] = True"
| "fields_apart ((n, k, v) # fs) = (list_all (\<lambda>(m, j, u). n + k \<le> m \<or> m + j \<le> n) fs \<and> fields_apart fs)"

lemma bit_pack:
  "bit (pack fs) i \<longleftrightarrow> i < 64 \<and> (\<exists>(n, k, v) \<in> set fs. n \<le> i \<and> i < n + k \<and> bit v (i - n))"
  by (induction fs) (auto simp: pack_def bit_or_iff bit_push_bit_iff bit_and_iff bit_mask_iff)

lemma fields_apart_same:
  "fields_apart fs \<Longrightarrow> (n, k, v) \<in> set fs \<Longrightarrow> (m, j, u) \<in> set fs \<Longrightarrow> n \<le> i \<Longrightarrow> i < n + k \<Longrightarrow>
   m \<le> i \<Longrightarrow> i < m + j \<Longrightarrow> (n, k, v) = (m, j, u)"
proof (induction fs)
  case (Cons f fs)
  obtain a b c where f: "f = (a, b, c)" by (cases f)
  have apart: "a + b \<le> m' \<or> m' + j' \<le> a" if "(m', j', u') \<in> set fs" for m' j' u'
    using Cons.prems(1) that by (auto simp: f list_all_iff)
  show ?case
  proof (cases "(n, k, v) = f \<or> (m, j, u) = f")
    case True
    then show ?thesis using Cons.prems(2-) apart [of n k v] apart [of m j u] by (auto simp: f)
  next
    case False
    then show ?thesis using Cons by (auto simp: f)
  qed
qed simp

lemma shr_and_pack:
  assumes "fields_apart fs" and "(n, k, v) \<in> set fs" and "n + k \<le> 64"
  shows "shr_and (pack fs) n (mask k) = v AND mask k"
proof (rule bit_word_eqI)
  fix i assume "i < LENGTH(64)"
  have "(\<exists>(m, j, u) \<in> set fs. m \<le> n + i \<and> n + i < m + j \<and> bit u (n + i - m)) \<longleftrightarrow> bit v i" if "i < k"
  proof
    assume "\<exists>(m, j, u) \<in> set fs. m \<le> n + i \<and> n + i < m + j \<and> bit u (n + i - m)"
    then obtain m j u where f: "(m, j, u) \<in> set fs" "m \<le> n + i" "n + i < m + j" "bit u (n + i - m)" by blast
    with fields_apart_same [OF assms(1,2) f(1), of "n + i"] that show "bit v i" by simp
  next
    assume "bit v i"
    then have "case (n, k, v) of (m, j, u) \<Rightarrow> m \<le> n + i \<and> n + i < m + j \<and> bit u (n + i - m)"
      using that by simp
    then show "\<exists>(m, j, u) \<in> set fs. m \<le> n + i \<and> n + i < m + j \<and> bit u (n + i - m)"
      using assms(2) by (rule bexI)
  qed
  then show "bit (shr_and (pack fs) n (mask k)) i = bit (v AND mask k) i"
    using assms(3) by (auto simp: bit_shr_and_mask bit_pack bit_and_iff bit_mask_iff)
qed

lemma le_mask_and: "x \<le> mask k \<Longrightarrow> x AND mask k = (x :: u64)"
  by (metis and.idem mask_eq_iff order_le_less_trans word_le_def)

subsection \<open>Words and naturals\<close>

lemma unat_add_no_wrap:
  fixes a b :: "'a::len word"
  shows "unat a + unat b < 2 ^ LENGTH('a) \<Longrightarrow> unat (a + b) = unat a + unat b"
  by (simp add: unat_word_ariths)

lemma unat_lt_u32: "unat (x :: u32) < 2 ^ 32"
  using unsigned_less [of x, where 'a = nat] by simp

lemma unat_lt_u64: "unat (x :: u64) < 2 ^ 64"
  using unsigned_less [of x, where 'a = nat] by simp

lemma unat_of_nat_u32: "n < 2 ^ 32 \<Longrightarrow> unat (of_nat n :: u32) = n"
  by (simp add: unsigned_of_nat take_bit_nat_eq_self)

lemma ucast_ucast_u8 [simp]: "(ucast (ucast (x :: u8) :: u32) :: u8) = x"
  by (rule bit_word_eqI) (simp add: bit_simps)

lemma ucast_ucast_u32 [simp]: "(ucast (ucast (x :: u32) :: u64) :: u32) = x"
  by (rule bit_word_eqI) (simp add: bit_simps)

subsection \<open>Lists\<close>

text \<open>Overwriting a run of elements in place, as \<^verbatim>\<open>memcpy\<close> into an array does.\<close>

definition overwrite :: "nat \<Rightarrow> 'a list \<Rightarrow> 'a list \<Rightarrow> 'a list" where
  "overwrite off new xs = take off xs @ new @ drop (off + length new) xs"

lemma length_overwrite [simp]:
  "off + length new \<le> length xs \<Longrightarrow> length (overwrite off new xs) = length xs"
  by (simp add: overwrite_def)

lemma take_overwrite:
  "off + length new \<le> length xs \<Longrightarrow>
   take (off + length new) (overwrite off new xs) = take off xs @ new"
  by (simp add: overwrite_def)

lemma take_append_le: "n \<le> length xs \<Longrightarrow> take n (xs @ ys) = take n xs"
  by simp

end
