(* ===== verification/Rumr_Buffer.thy ===== *)
theory Rumr_Buffer
  imports Umr_Prelude "HOL-Library.Monad_Syntax"
begin

text \<open>
  The serialisation buffer of the remote protocol (\<^verbatim>\<open>src/lib/rumr/buffer.c\<close>).
  A buffer is an allocation that grows on demand with a write cursor and a read
  cursor.  The bytes after the eight byte preheader are the list \<open>rb_data\<close>, whose
  length is what was really allocated; \<open>rb_size\<close> is what the code believes.  Every
  cursor is a 32 bit word, so the wrap-around of the code's bounds checks is in the
  model, and a \<^verbatim>\<open>memcpy\<close> that leaves its source or its destination is the
  value \<open>None\<close> of the operation.  An allocator is a parameter: \<open>alloc_ok n\<close> tells
  whether a request for \<open>n\<close> bytes succeeds and \<open>fresh i\<close> is the indeterminate byte
  that \<^verbatim>\<open>realloc\<close> leaves at offset \<open>i\<close> of the grown part.
\<close>

subsection \<open>State and operations\<close>

record rumr_buffer =
  rb_data :: "u8 list"
  rb_size :: u32
  rb_roffset :: u32
  rb_woffset :: u32
  rb_failed :: bool

record alloc_env =
  alloc_ok :: "u32 \<Rightarrow> bool"
  fresh :: "nat \<Rightarrow> u8"

definition RUMR_BUFFER_PREHEADER :: u32 where
  "RUMR_BUFFER_PREHEADER = 8"

definition rumr_buffer_init :: "alloc_env \<Rightarrow> rumr_buffer option" where
  "rumr_buffer_init env =
     (if alloc_ok env (1024 + RUMR_BUFFER_PREHEADER)
      then Some \<lparr>rb_data = replicate 1024 0, rb_size = 1024, rb_roffset = 0,
                 rb_woffset = 0, rb_failed = False\<rparr>
      else None)"

text \<open>\<^verbatim>\<open>realloc\<close> to \<open>n\<close> payload bytes: the common prefix survives.\<close>

definition regrow :: "alloc_env \<Rightarrow> nat \<Rightarrow> u8 list \<Rightarrow> u8 list" where
  "regrow env n bs = take n bs @ map (fresh env) [length bs..<n]"

definition rumr_buffer_add_data ::
    "alloc_env \<Rightarrow> rumr_buffer \<Rightarrow> u8 list \<Rightarrow> u32 \<Rightarrow> rumr_buffer option" where
  "rumr_buffer_add_data env buf bs sz =
     (if rb_failed buf then Some buf
      else
        let (buf', ok) =
          (if rb_woffset buf + sz > rb_size buf then
             (let new_size = rb_size buf + max 1024 sz;
                  request = new_size + RUMR_BUFFER_PREHEADER
              in if alloc_ok env request
                 then (buf\<lparr>rb_data := regrow env (unat request - unat RUMR_BUFFER_PREHEADER) (rb_data buf),
                           rb_size := new_size\<rparr>, True)
                 else (buf\<lparr>rb_failed := True\<rparr>, False))
           else (buf, True))
        in if \<not> ok then Some buf'
           else if unat sz \<le> length bs \<and>
                   unat (rb_woffset buf') + unat sz \<le> length (rb_data buf')
           then Some (buf'\<lparr>rb_data := overwrite (unat (rb_woffset buf')) (take (unat sz) bs) (rb_data buf'),
                           rb_woffset := rb_woffset buf' + sz\<rparr>)
           else None)"

definition rumr_buffer_add_buffer ::
    "alloc_env \<Rightarrow> rumr_buffer \<Rightarrow> rumr_buffer \<Rightarrow> rumr_buffer option" where
  "rumr_buffer_add_buffer env buf srcbuf =
     rumr_buffer_add_data env buf (rb_data srcbuf) (rb_woffset srcbuf)"

definition rumr_buffer_add_uint32 :: "alloc_env \<Rightarrow> rumr_buffer \<Rightarrow> u32 \<Rightarrow> rumr_buffer option" where
  "rumr_buffer_add_uint32 env buf val = rumr_buffer_add_data env buf (le32 val) 4"

definition rumr_buffer_read_data :: "rumr_buffer \<Rightarrow> u32 \<Rightarrow> (u8 list \<times> rumr_buffer) option" where
  "rumr_buffer_read_data buf sz =
     (if rb_roffset buf + sz \<le> rb_woffset buf then
        (if unat (rb_roffset buf) + unat sz \<le> length (rb_data buf)
         then Some (take (unat sz) (drop (unat (rb_roffset buf)) (rb_data buf)),
                    buf\<lparr>rb_roffset := rb_roffset buf + sz\<rparr>)
         else None)
      else Some (replicate (unat sz) 0, buf))"

definition rumr_buffer_read_uint32 :: "rumr_buffer \<Rightarrow> (u32 \<times> rumr_buffer) option" where
  "rumr_buffer_read_uint32 buf =
     do { (bs, buf') \<leftarrow> rumr_buffer_read_data buf 4; Some (of_le32 bs, buf') }"

text \<open>
  \<^verbatim>\<open>rumr_buffer_load_file\<close>: the file is the byte list \<open>contents\<close>, or \<open>None\<close> when
  \<^verbatim>\<open>umr_database_open\<close> does not find it.  The size is truncated to 32 bits, and
  the outer \<open>None\<close> is an \<^verbatim>\<open>fread\<close> past the end of an allocation whose size wrapped.
\<close>

definition rumr_buffer_load_file ::
    "alloc_env \<Rightarrow> u8 list option \<Rightarrow> rumr_buffer option option" where
  "rumr_buffer_load_file env contents =
     (case contents of None \<Rightarrow> Some None
      | Some bs \<Rightarrow>
          (let size = of_nat (length bs) :: u32;
               request = size + RUMR_BUFFER_PREHEADER
           in if \<not> alloc_ok env request then Some None
              else if unat request < unat size then None
              else Some (Some \<lparr>rb_data = take (unat size) bs, rb_size = size,
                               rb_roffset = 0, rb_woffset = size, rb_failed = False\<rparr>)))"

subsection \<open>Invariant and abstraction\<close>

text \<open>
  A well formed buffer owns exactly the bytes it claims and its cursors are ordered.
  What is queued is the part between the cursors.
\<close>

definition rumr_buffer_wf :: "rumr_buffer \<Rightarrow> bool" where
  "rumr_buffer_wf buf \<longleftrightarrow> length (rb_data buf) = unat (rb_size buf) \<and>
     rb_roffset buf \<le> rb_woffset buf \<and> rb_woffset buf \<le> rb_size buf"

definition rumr_written :: "rumr_buffer \<Rightarrow> u8 list" where
  "rumr_written buf = take (unat (rb_woffset buf)) (rb_data buf)"

definition rumr_pending :: "rumr_buffer \<Rightarrow> u8 list" where
  "rumr_pending buf = drop (unat (rb_roffset buf)) (rumr_written buf)"

text \<open>
  \<open>rumr_room n buf\<close>: another \<open>n\<close> bytes, added in pieces of at most 4096 bytes, cannot
  make any size computation of \<open>rumr_buffer_add_data\<close> wrap around.  The allocation is
  never more than 4096 bytes ahead of the write cursor, so the total number of bytes
  is all that has to be bounded.
\<close>

definition rumr_room :: "nat \<Rightarrow> rumr_buffer \<Rightarrow> bool" where
  "rumr_room n buf \<longleftrightarrow> rumr_buffer_wf buf \<and> \<not> rb_failed buf \<and>
     unat (rb_size buf) \<le> unat (rb_woffset buf) + 4096 \<and>
     unat (rb_woffset buf) + n + 8200 < 2 ^ 32"

text \<open>The allocator of a machine with memory to spare.\<close>

definition ample :: "(nat \<Rightarrow> u8) \<Rightarrow> alloc_env" where
  "ample f = \<lparr>alloc_ok = (\<lambda>_. True), fresh = f\<rparr>"

subsection \<open>The contract: a queue of bytes\<close>

text \<open>The two loop shapes of the protocol code, over any buffer type.\<close>

primrec write_all :: "('a \<Rightarrow> 'b \<Rightarrow> 'b option) \<Rightarrow> 'a list \<Rightarrow> 'b \<Rightarrow> 'b option" where
  "write_all w [] b = Some b"
| "write_all w (x # xs) b = Option.bind (w x b) (write_all w xs)"

primrec read_n :: "nat \<Rightarrow> ('b \<Rightarrow> ('a \<times> 'b) option) \<Rightarrow> 'b \<Rightarrow> ('a list \<times> 'b) option" where
  "read_n 0 r b = Some ([], b)"
| "read_n (Suc n) r b =
     Option.bind (r b) (\<lambda>(x, b1). Option.bind (read_n n r b1) (\<lambda>(xs, b2). Some (x # xs, b2)))"

text \<open>
  What the protocol code relies on: bytes added come out in the order they went in.
  \<open>room n b\<close> is the promise that \<open>n\<close> more bytes still fit.  A \<^emph>\<open>writer\<close> emits a
  fixed byte string, a \<^emph>\<open>reader\<close> consumes one and returns a value; both compose.
\<close>

locale byte_queue =
  fixes push :: "'b \<Rightarrow> u8 list \<Rightarrow> 'b option"
    and pull :: "'b \<Rightarrow> nat \<Rightarrow> (u8 list \<times> 'b) option"
    and pending :: "'b \<Rightarrow> u8 list"
    and room :: "nat \<Rightarrow> 'b \<Rightarrow> bool"
  assumes push_law: "room (n + length bs) b \<Longrightarrow> length bs \<le> 4096 \<Longrightarrow>
      \<exists>b'. push b bs = Some b' \<and> room n b' \<and> pending b' = pending b @ bs"
    and pull_law: "room n b \<Longrightarrow> pending b = bs @ rest \<Longrightarrow>
      \<exists>b'. pull b (length bs) = Some (bs, b') \<and> room n b' \<and> pending b' = rest"
begin

definition emits :: "('b \<Rightarrow> 'b option) \<Rightarrow> u8 list \<Rightarrow> bool" where
  "emits w bs \<longleftrightarrow> (\<forall>n b. room (n + length bs) b \<longrightarrow>
     (\<exists>b'. w b = Some b' \<and> room n b' \<and> pending b' = pending b @ bs))"

definition yields :: "('b \<Rightarrow> ('a \<times> 'b) option) \<Rightarrow> u8 list \<Rightarrow> 'a \<Rightarrow> bool" where
  "yields r bs x \<longleftrightarrow> (\<forall>n b rest. room n b \<longrightarrow> pending b = bs @ rest \<longrightarrow>
     (\<exists>b'. r b = Some (x, b') \<and> room n b' \<and> pending b' = rest))"

lemma emits_push: "length bs \<le> 4096 \<Longrightarrow> emits (\<lambda>b. push b bs) bs"
  using push_law by (auto simp: emits_def)

lemma emits_Some: "emits Some []"
  by (simp add: emits_def)

lemma emits_bind:
  assumes "emits v as" and "emits w bs"
  shows "emits (\<lambda>b. Option.bind (v b) w) (as @ bs)"
proof -
  have "\<exists>c. Option.bind (v b) w = Some c \<and> room n c \<and> pending c = pending b @ as @ bs"
    if "room (n + length (as @ bs)) b" for n b
  proof -
    have "room ((n + length bs) + length as) b" using that by (simp add: ac_simps)
    then obtain b1 where "v b = Some b1" "room (n + length bs) b1" "pending b1 = pending b @ as"
      using assms(1) by (auto simp: emits_def)
    then show ?thesis using assms(2) by (fastforce simp: emits_def)
  qed
  then show ?thesis by (simp add: emits_def)
qed

lemma emitsD:
  "emits w bs \<Longrightarrow> room (n + length bs) b \<Longrightarrow>
   \<exists>b'. w b = Some b' \<and> room n b' \<and> pending b' = pending b @ bs"
  by (simp add: emits_def)

lemma yieldsD:
  "yields r bs x \<Longrightarrow> room n b \<Longrightarrow> pending b = bs @ rest \<Longrightarrow>
   \<exists>b'. r b = Some (x, b') \<and> room n b' \<and> pending b' = rest"
  by (simp add: yields_def)

lemma yields_pull: "yields (\<lambda>b. pull b (length bs)) bs bs"
  using pull_law by (auto simp: yields_def)

lemma yields_Some: "yields (\<lambda>b. Some (x, b)) [] x"
  by (simp add: yields_def)

lemma yields_bind:
  assumes "yields r as x" and "yields (q x) bs y"
  shows "yields (\<lambda>b. Option.bind (r b) (\<lambda>(v, b'). q v b')) (as @ bs) y"
proof -
  have "\<exists>c. Option.bind (r b) (\<lambda>(v, b'). q v b') = Some (y, c) \<and> room n c \<and> pending c = rest"
    if "room n b" and "pending b = (as @ bs) @ rest" for n b rest
  proof -
    have "pending b = as @ (bs @ rest)" using that by simp
    with \<open>room n b\<close> obtain b1 where "r b = Some (x, b1)" "room n b1" "pending b1 = bs @ rest"
      using assms(1) unfolding yields_def by blast
    then show ?thesis using assms(2) by (auto simp: yields_def)
  qed
  then show ?thesis by (simp add: yields_def)
qed

text \<open>Loops: a writer over a list, a reader that repeats a fixed number of times.\<close>

lemma emits_write_all:
  "(\<And>x. x \<in> set xs \<Longrightarrow> emits (w x) (e x)) \<Longrightarrow>
   emits (write_all w xs) (concat (map e xs))"
proof (induction xs)
  case Nil
  then show ?case by (simp add: emits_def)
next
  case (Cons x xs)
  then have "emits (\<lambda>b. Option.bind (w x b) (write_all w xs)) (e x @ concat (map e xs))"
    by (intro emits_bind) auto
  then show ?case by (simp add: emits_def)
qed

lemma yields_read_n:
  "(\<And>x. x \<in> set xs \<Longrightarrow> yields r (e x) (f x)) \<Longrightarrow>
   yields (read_n (length xs) r) (concat (map e xs)) (map f xs)"
proof (induction xs)
  case Nil
  then show ?case by (simp add: yields_def)
next
  case (Cons x xs)
  have tl: "yields (read_n (length xs) r) (concat (map e xs)) (map f xs)"
    using Cons by simp
  have "yields (\<lambda>b. Option.bind (read_n (length xs) r b) (\<lambda>(ys, b'). Some (f x # ys, b')))
          (concat (map e xs) @ []) (f x # map f xs)"
    by (rule yields_bind [OF tl]) (simp add: yields_def)
  then have "yields (\<lambda>b. Option.bind (r b) (\<lambda>(v, b1). Option.bind (read_n (length xs) r b1)
               (\<lambda>(ys, b'). Some (v # ys, b')))) (e x @ concat (map e xs)) (f x # map f xs)"
    using Cons.prems [of x] by (intro yields_bind [of r "e x" "f x"]) auto
  then show ?case by (simp add: yields_def)
qed

end

subsection \<open>The buffer keeps the contract\<close>

lemma regrow_length [simp]: "length bs \<le> n \<Longrightarrow> length (regrow env n bs) = n"
  by (simp add: regrow_def)

lemma take_regrow: "k \<le> length bs \<Longrightarrow> length bs \<le> n \<Longrightarrow> take k (regrow env n bs) = take k bs"
  by (simp add: regrow_def)

text \<open>
  With room to spare, adding data succeeds, keeps the buffer well formed and appends
  exactly the bytes given, whether or not the allocation had to grow.
\<close>

lemma rumr_add_data_grows:
  assumes room: "rumr_room (n + unat sz) buf" and sz: "unat sz \<le> 4096"
    and grow: "rb_woffset buf + sz > rb_size buf"
  shows "unat (rb_size buf + max 1024 sz) = unat (rb_size buf) + max 1024 (unat sz)"
    and "unat (rb_size buf + max 1024 sz + RUMR_BUFFER_PREHEADER) =
         unat (rb_size buf) + max 1024 (unat sz) + 8"
proof -
  have m: "unat (max 1024 sz) = max 1024 (unat sz)"
    by (simp add: max_def word_le_nat_alt)
  have b: "unat (rb_size buf) + max 1024 (unat sz) + 8 < 2 ^ 32"
    using room sz by (auto simp: rumr_room_def)
  show e: "unat (rb_size buf + max 1024 sz) = unat (rb_size buf) + max 1024 (unat sz)"
    using b by (subst unat_add_no_wrap) (simp_all add: m)
  show "unat (rb_size buf + max 1024 sz + RUMR_BUFFER_PREHEADER) =
         unat (rb_size buf) + max 1024 (unat sz) + 8"
    unfolding RUMR_BUFFER_PREHEADER_def
    using b by (subst unat_add_no_wrap) (simp_all only: e, simp_all)
qed

text \<open>The common tail of both branches: copy \<open>bs\<close> to the write cursor.\<close>

lemma rumr_room_copy:
  assumes wf: "length (rb_data buf) = unat (rb_size buf)" "rb_roffset buf \<le> rb_woffset buf"
    and nf: "\<not> rb_failed buf"
    and fits: "unat (rb_woffset buf) + length bs \<le> unat (rb_size buf)"
    and slack: "unat (rb_size buf) \<le> unat (rb_woffset buf) + length bs + 4096"
    and small: "unat (rb_woffset buf) + length bs + n + 8200 < 2 ^ 32"
    and buf': "buf' = buf\<lparr>rb_data := overwrite (unat (rb_woffset buf)) bs (rb_data buf),
                          rb_woffset := rb_woffset buf + of_nat (length bs)\<rparr>"
  shows "rumr_room n buf' \<and> rumr_written buf' = rumr_written buf @ bs \<and>
         rumr_pending buf' = rumr_pending buf @ bs"
proof -
  have w: "unat (rb_woffset buf + of_nat (length bs)) = unat (rb_woffset buf) + length bs"
    using small by (subst unat_add_no_wrap) (simp_all add: unat_of_nat_u32)
  have wr: "rumr_written buf' = rumr_written buf @ bs"
    using fits wf by (simp add: rumr_written_def buf' w take_overwrite)
  moreover have "unat (rb_roffset buf) \<le> length (rumr_written buf)"
    using wf fits by (simp add: rumr_written_def word_le_nat_alt)
  then have "rumr_pending buf' = rumr_pending buf @ bs"
    by (simp add: rumr_pending_def wr) (simp add: buf')
  moreover have "rumr_room n buf'"
    using wf nf fits slack small
    by (simp add: rumr_room_def rumr_buffer_wf_def buf' w word_le_nat_alt)
  ultimately show ?thesis by simp
qed

lemma rumr_buffer_add_data_ok:
  assumes alloc: "\<And>k. alloc_ok env k" and room: "rumr_room (n + length bs) buf"
    and len: "length bs \<le> 4096"
  shows "\<exists>buf'. rumr_buffer_add_data env buf bs (of_nat (length bs)) = Some buf' \<and>
           rumr_room n buf' \<and> rumr_written buf' = rumr_written buf @ bs \<and>
           rumr_pending buf' = rumr_pending buf @ bs"
proof -
  define sz :: u32 where "sz = of_nat (length bs)"
  have sz: "unat sz = length bs" using len by (simp add: sz_def unat_of_nat_u32)
  note R = room [unfolded rumr_room_def rumr_buffer_wf_def, simplified word_le_nat_alt]
  have w: "unat (rb_woffset buf + sz) = unat (rb_woffset buf) + length bs"
    using R by (subst unat_add_no_wrap) (simp_all add: sz)
  show ?thesis
  proof (cases "rb_woffset buf + sz > rb_size buf")
    case True
    note G = rumr_add_data_grows [OF room [folded sz] _ True, unfolded sz, OF len]
    define g where "g = buf\<lparr>rb_data := regrow env (unat (rb_size buf) + max 1024 (length bs)) (rb_data buf),
                            rb_size := rb_size buf + max 1024 sz\<rparr>"
    have gw: "rumr_written g = rumr_written buf" and gp: "rumr_pending g = rumr_pending buf"
      using R by (simp_all add: g_def rumr_written_def rumr_pending_def take_regrow)
    have T: "unat (rb_size buf) < unat (rb_woffset buf) + length bs"
      using True w by (simp add: word_less_nat_alt)
    let ?b = "g\<lparr>rb_data := overwrite (unat (rb_woffset g)) bs (rb_data g),
                 rb_woffset := rb_woffset g + of_nat (length bs)\<rparr>"
    have fit: "unat (rb_woffset g) + length bs \<le> length (rb_data g)"
      using R by (simp add: g_def) linarith
    have "rumr_buffer_add_data env buf bs sz = Some ?b"
      using True R alloc fit
      by (simp add: rumr_buffer_add_data_def Let_def G sz RUMR_BUFFER_PREHEADER_def [symmetric]
          g_def [symmetric] sz_def [symmetric])
        (simp add: g_def RUMR_BUFFER_PREHEADER_def)
    moreover have "rumr_room n ?b \<and> rumr_written ?b = rumr_written g @ bs \<and>
         rumr_pending ?b = rumr_pending g @ bs"
      by (rule rumr_room_copy [OF _ _ _ _ _ _ refl])
        (use R T len G fit in \<open>auto simp: g_def word_le_nat_alt\<close>)
    ultimately show ?thesis unfolding sz_def [symmetric] gw gp by blast
  next
    case False
    then have F: "unat (rb_woffset buf) + length bs \<le> unat (rb_size buf)"
      by (simp add: word_less_nat_alt w not_less)
    let ?b = "buf\<lparr>rb_data := overwrite (unat (rb_woffset buf)) bs (rb_data buf),
                   rb_woffset := rb_woffset buf + of_nat (length bs)\<rparr>"
    have "rumr_buffer_add_data env buf bs sz = Some ?b"
      using False R F by (simp add: rumr_buffer_add_data_def sz sz_def [symmetric])
    moreover have "rumr_room n ?b \<and> rumr_written ?b = rumr_written buf @ bs \<and>
         rumr_pending ?b = rumr_pending buf @ bs"
      by (rule rumr_room_copy [OF _ _ _ _ _ _ refl])
        (use R F in \<open>auto simp: word_le_nat_alt\<close>)
    ultimately show ?thesis unfolding sz_def [symmetric] by blast
  qed
qed

lemma rumr_buffer_read_data_ok:
  assumes room: "rumr_room n buf" and p: "rumr_pending buf = bs @ rest"
  shows "\<exists>buf'. rumr_buffer_read_data buf (of_nat (length bs)) = Some (bs, buf') \<and>
           rumr_room n buf' \<and> rumr_pending buf' = rest"
proof -
  note R = room [unfolded rumr_room_def rumr_buffer_wf_def, simplified word_le_nat_alt]
  have lw: "length (rumr_written buf) = unat (rb_woffset buf)"
    using R by (simp add: rumr_written_def)
  have l: "unat (rb_roffset buf) + length bs \<le> unat (rb_woffset buf)"
    using arg_cong [OF p, of length] lw R by (simp add: rumr_pending_def) linarith
  define sz :: u32 where "sz = of_nat (length bs)"
  have sz: "unat sz = length bs"
    unfolding sz_def by (rule unat_of_nat_u32) (use l R in simp)
  have r: "unat (rb_roffset buf + sz) = unat (rb_roffset buf) + length bs"
    using l R by (subst unat_add_no_wrap) (simp_all add: sz)
  have "take (length bs) (drop (unat (rb_roffset buf)) (rb_data buf)) =
        take (length bs) (rumr_pending buf)"
    using l by (simp add: rumr_pending_def rumr_written_def drop_take min_def)
  then have bs: "take (length bs) (drop (unat (rb_roffset buf)) (rb_data buf)) = bs"
    by (simp add: p)
  let ?b = "buf\<lparr>rb_roffset := rb_roffset buf + sz\<rparr>"
  have "rumr_buffer_read_data buf sz = Some (bs, ?b)"
    using l R by (simp add: rumr_buffer_read_data_def word_le_nat_alt r sz bs)
  moreover have "rumr_room n ?b"
    using R l by (simp add: rumr_room_def rumr_buffer_wf_def word_le_nat_alt r)
  moreover have "rumr_pending ?b = rest"
  proof -
    have "rumr_pending ?b = drop (length bs) (rumr_pending buf)"
      by (simp add: rumr_pending_def rumr_written_def r) (simp add: add.commute)
    then show ?thesis by (simp add: p)
  qed
  ultimately show ?thesis unfolding sz_def by blast
qed

definition rumr_push :: "alloc_env \<Rightarrow> rumr_buffer \<Rightarrow> u8 list \<Rightarrow> rumr_buffer option" where
  "rumr_push env buf bs = rumr_buffer_add_data env buf bs (of_nat (length bs))"

definition rumr_pull :: "rumr_buffer \<Rightarrow> nat \<Rightarrow> (u8 list \<times> rumr_buffer) option" where
  "rumr_pull buf n = rumr_buffer_read_data buf (of_nat n)"

interpretation rq: byte_queue "rumr_push (ample f)" rumr_pull rumr_pending rumr_room for f
proof unfold_locales
  fix n b and bs :: "u8 list"
  assume "rumr_room (n + length bs) b" and "length bs \<le> 4096"
  then show "\<exists>b'. rumr_push (ample f) b bs = Some b' \<and> rumr_room n b' \<and>
               rumr_pending b' = rumr_pending b @ bs"
    using rumr_buffer_add_data_ok [of "ample f" n bs b]
    unfolding rumr_push_def by (auto simp: ample_def)
next
  fix n b and bs rest :: "u8 list"
  assume "rumr_room n b" and "rumr_pending b = bs @ rest"
  then show "\<exists>b'. rumr_pull b (length bs) = Some (bs, b') \<and> rumr_room n b' \<and> rumr_pending b' = rest"
    unfolding rumr_pull_def by (rule rumr_buffer_read_data_ok)
qed

lemma rumr_room_init: "k + 8200 < 2 ^ 32 \<Longrightarrow>
  \<exists>b. rumr_buffer_init (ample f) = Some b \<and> rumr_room k b \<and> rumr_pending b = []"
  by (simp add: rumr_buffer_init_def ample_def rumr_room_def rumr_buffer_wf_def
      rumr_pending_def rumr_written_def)

subsection \<open>Reading untrusted bytes\<close>

text \<open>
  A received buffer is well formed but its bytes are arbitrary.  A reader is safe when
  it returns on every such buffer, never faulting, with a result that satisfies a
  postcondition and a buffer that can be read further.
\<close>

definition rumr_readable :: "rumr_buffer \<Rightarrow> bool" where
  "rumr_readable buf \<longleftrightarrow> rumr_buffer_wf buf \<and> unat (rb_woffset buf) + 4096 < 2 ^ 32"

definition safe_reader :: "(rumr_buffer \<Rightarrow> ('a \<times> rumr_buffer) option) \<Rightarrow> ('a \<Rightarrow> bool) \<Rightarrow> bool" where
  "safe_reader r P \<longleftrightarrow>
     (\<forall>b. rumr_readable b \<longrightarrow> (\<exists>x b'. r b = Some (x, b') \<and> P x \<and> rumr_readable b'))"

lemma safe_reader_data:
  assumes "unat sz \<le> 4096"
  shows "safe_reader (\<lambda>b. rumr_buffer_read_data b sz) (\<lambda>bs. length bs = unat sz)"
  unfolding safe_reader_def
proof (intro allI impI)
  fix b assume b: "rumr_readable b"
  note R = b [unfolded rumr_readable_def rumr_buffer_wf_def, simplified word_le_nat_alt]
  have r: "unat (rb_roffset b + sz) = unat (rb_roffset b) + unat sz"
    using R assms by (intro unat_add_no_wrap) auto
  show "\<exists>x b'. rumr_buffer_read_data b sz = Some (x, b') \<and> length x = unat sz \<and> rumr_readable b'"
    using R b by (auto simp: rumr_buffer_read_data_def rumr_readable_def rumr_buffer_wf_def
        word_le_nat_alt r)
qed

lemma safe_reader_Some: "P x \<Longrightarrow> safe_reader (\<lambda>b. Some (x, b)) P"
  by (simp add: safe_reader_def)

lemma safe_reader_bind:
  assumes "safe_reader r P" and "\<And>x. P x \<Longrightarrow> safe_reader (q x) Q"
  shows "safe_reader (\<lambda>b. Option.bind (r b) (\<lambda>(v, b'). q v b')) Q"
  using assms unfolding safe_reader_def by fastforce

lemma safe_reader_if:
  "(c \<Longrightarrow> safe_reader r P) \<Longrightarrow> (\<not> c \<Longrightarrow> safe_reader q P) \<Longrightarrow> safe_reader (\<lambda>b. if c then r b else q b) P"
  by (auto simp: safe_reader_def)

lemma safe_reader_True: "safe_reader r P \<Longrightarrow> safe_reader r (\<lambda>_. True)"
  unfolding safe_reader_def by blast

lemma safe_reader_uint32: "safe_reader rumr_buffer_read_uint32 (\<lambda>_. True)"
  unfolding rumr_buffer_read_uint32_def [abs_def]
  by (rule safe_reader_bind [OF safe_reader_data safe_reader_Some]) simp_all

lemma safe_reader_n:
  "safe_reader r (\<lambda>_. True) \<Longrightarrow> safe_reader (read_n n r) (\<lambda>_. True)"
proof (induction n)
  case 0
  then show ?case by (simp add: safe_reader_def)
next
  case (Suc n)
  then show ?case
    unfolding read_n.simps(2) [abs_def]
    by (intro safe_reader_bind [of r] safe_reader_bind [of "read_n n r"] safe_reader_Some) auto
qed

subsection \<open>Properties\<close>

text \<open>The serialisation buffer is a first-in first-out byte queue: with memory
  available and room left, adding a block succeeds, appends exactly its bytes to what
  is waiting and keeps everything already written, across reallocations.\<close>

theorem rumr_add_data_appends:
  assumes "rumr_room (n + length bs) buf" and "length bs \<le> 4096"
  shows "\<exists>buf'. rumr_buffer_add_data (ample f) buf bs (of_nat (length bs)) = Some buf' \<and>
           rumr_room n buf' \<and> rumr_written buf' = rumr_written buf @ bs \<and>
           rumr_pending buf' = rumr_pending buf @ bs"
  using rumr_buffer_add_data_ok [of "ample f" n bs buf] assms by (simp add: ample_def)

theorem rumr_add_data_appends_witness:
  "\<exists>buf'. rumr_buffer_add_data (ample (\<lambda>_. 7))
      \<lparr>rb_data = [1, 2], rb_size = 2, rb_roffset = 1, rb_woffset = 2, rb_failed = False\<rparr>
      [3, 4, 5] (of_nat (length [3, 4, 5 :: u8])) = Some buf' \<and>
    rumr_pending buf' = [2, 3, 4, 5]"
proof -
  let ?b = "\<lparr>rb_data = [1, 2], rb_size = 2, rb_roffset = 1, rb_woffset = 2, rb_failed = False\<rparr>"
  have "rumr_room (0 + length [3, 4, 5 :: u8]) ?b" and "length [3, 4, 5 :: u8] \<le> 4096"
    by (simp_all add: rumr_room_def rumr_buffer_wf_def)
  from rumr_add_data_appends [OF this, of "\<lambda>_. 7"]
  show ?thesis by (auto simp: rumr_pending_def rumr_written_def)
qed

text \<open>The bounds check of \<open>rumr_buffer_add_data\<close> is done in 32 bit arithmetic.  A
  block so large that the sum of the write cursor and its size wraps around passes the
  check without growing the allocation, and the copy leaves it.\<close>

theorem rumr_add_data_wrap_faults:
  assumes "rumr_buffer_wf buf" and "\<not> rb_failed buf"
    and "2 ^ 32 \<le> unat (rb_woffset buf) + unat sz"
  shows "rumr_buffer_add_data env buf bs sz = None"
proof -
  have "unat (rb_woffset buf + sz) = unat (rb_woffset buf) + unat sz - 2 ^ 32"
  proof -
    have "unat (rb_woffset buf) + unat sz - 2 ^ 32 < 2 ^ 32"
      using unat_lt_u32 [of sz] unat_lt_u32 [of "rb_woffset buf"] by simp
    then show ?thesis
      using assms(3) by (simp add: unat_word_ariths le_mod_geq)
  qed
  then have "\<not> rb_woffset buf + sz > rb_size buf"
    using assms(1) unat_lt_u32 [of sz]
    by (simp add: word_less_nat_alt rumr_buffer_wf_def word_le_nat_alt) linarith
  moreover have "\<not> unat (rb_woffset buf) + unat sz \<le> length (rb_data buf)"
    using assms(1,3) unat_lt_u32 [of "rb_size buf"] by (simp add: rumr_buffer_wf_def)
  ultimately show ?thesis using assms(2) by (simp add: rumr_buffer_add_data_def)
qed

theorem rumr_add_data_wrap_faults_witness:
  "rumr_buffer_add_data (ample (\<lambda>_. 0))
     \<lparr>rb_data = [1, 2], rb_size = 2, rb_roffset = 0, rb_woffset = 1, rb_failed = False\<rparr>
     [] 0xFFFFFFFF = None"
  by (rule rumr_add_data_wrap_faults) (simp_all add: rumr_buffer_wf_def)

end
