(* ===== verification/Umr_Types.thy ===== *)
theory Umr_Types
  imports Umr_Prelude
begin

text \<open>
  The data of the library (\<^verbatim>\<open>src/umr.h\<close>): bit fields, registers, IP blocks, the
  device description and the options the modelled code consults.  A C array with its
  element count is a list; the counts are \<^verbatim>\<open>int\<close> in the source, so the
  well-formedness predicate bounds every list by \<open>2 ^ 31\<close>.  The two enumerations
  are kept as the unsigned numbers that C gives them: the remote protocol stores
  whatever number arrives.  Function pointers for display and the file descriptors
  are left out.
\<close>

subsection \<open>Enumerations\<close>

type_synonym regclass = u32
type_synonym chipfamily = u32

abbreviation (input) REG_MMIO :: regclass where "REG_MMIO \<equiv> 0"
abbreviation (input) REG_DIDT :: regclass where "REG_DIDT \<equiv> 1"
abbreviation (input) REG_SMC :: regclass where "REG_SMC \<equiv> 2"
abbreviation (input) REG_PCIE :: regclass where "REG_PCIE \<equiv> 3"
abbreviation (input) REG_SMN :: regclass where "REG_SMN \<equiv> 4"

abbreviation (input) FAMILY_SI :: chipfamily where "FAMILY_SI \<equiv> 0"
abbreviation (input) FAMILY_CIK :: chipfamily where "FAMILY_CIK \<equiv> 1"
abbreviation (input) FAMILY_VI :: chipfamily where "FAMILY_VI \<equiv> 2"
abbreviation (input) FAMILY_AI :: chipfamily where "FAMILY_AI \<equiv> 3"
abbreviation (input) FAMILY_NV :: chipfamily where "FAMILY_NV \<equiv> 4"
abbreviation (input) FAMILY_GFX11 :: chipfamily where "FAMILY_GFX11 \<equiv> 5"
abbreviation (input) FAMILY_GFX12 :: chipfamily where "FAMILY_GFX12 \<equiv> 6"
abbreviation (input) FAMILY_NPI :: chipfamily where "FAMILY_NPI \<equiv> 7"
abbreviation (input) FAMILY_CONFIGURE :: chipfamily where "FAMILY_CONFIGURE \<equiv> 8"

subsection \<open>Registers and IP blocks\<close>

record umr_bitfield =
  bf_regname :: string
  bf_start :: u8
  bf_stop :: u8

record umr_reg =
  reg_regname :: string
  reg_type :: regclass
  reg_addr :: u64
  reg_bits :: "umr_bitfield list"
  reg_bit64 :: u64
  reg_value :: u64

record umr_discoverable =
  disc_die :: u32
  disc_maj :: u32
  disc_min :: u32
  disc_rev :: u32
  disc_instance :: u32
  disc_logical_inst :: u32

record umr_ip_block =
  ip_ipname :: string
  ip_regs :: "umr_reg list"
  ip_discoverable :: umr_discoverable

subsection \<open>Configuration\<close>

record umr_gfx_config =
  gfx_max_shader_engines :: u32
  gfx_max_tile_pipes :: u32
  gfx_max_cu_per_sh :: u32
  gfx_max_sh_per_se :: u32
  gfx_max_backends_per_se :: u32
  gfx_max_texture_channel_caches :: u32
  gfx_max_gprs :: u32
  gfx_max_gs_threads :: u32
  gfx_max_hw_contexts :: u32
  gfx_sc_prim_fifo_size_frontend :: u32
  gfx_sc_prim_fifo_size_backend :: u32
  gfx_sc_hiz_tile_fifo_size :: u32
  gfx_sc_earlyz_tile_fifo_size :: u32
  gfx_num_tile_pipes :: u32
  gfx_backend_enable_mask :: u32
  gfx_mem_max_burst_length_bytes :: u32
  gfx_mem_row_size_in_kb :: u32
  gfx_shader_engine_tile_size :: u32
  gfx_num_gpus :: u32
  gfx_multi_gpu_tile_size :: u32
  gfx_mc_arb_ramcfg :: u32
  gfx_gb_addr_config :: u32
  gfx_num_rbs :: u32
  gfx_rev_id :: u32
  gfx_cg_flags :: u64
  gfx_pg_flags :: u64
  gfx_family :: u32
  gfx_external_rev_id :: u32

record umr_pci_config =
  pci_device :: u32
  pci_revision :: u32
  pci_subsystem_device :: u32
  pci_subsystem_vendor :: u32

record umr_config =
  cfg_gfx :: umr_gfx_config
  cfg_pci :: umr_pci_config
  cfg_is_apu :: u32
  cfg_vram_size :: u64
  cfg_vis_vram_size :: u64
  cfg_gtt_size :: u64
  cfg_data :: "u32 list"

record umr_bank_grbm =
  grbm_se :: u32
  grbm_sh :: u32
  grbm_instance :: u32

record umr_bank_srbm =
  srbm_me :: u32
  srbm_pipe :: u32
  srbm_queue :: u32
  srbm_vmid :: u32

record umr_shader_enable =
  enable_ps_shader :: bool
  enable_vs_shader :: bool
  enable_gs_shader :: bool
  enable_hs_shader :: bool
  enable_es_shader :: bool
  enable_ls_shader :: bool
  enable_es_ls_swap :: bool
  enable_comp_shader :: bool

record umr_options =
  opt_use_bank :: u32
  opt_grbm :: umr_bank_grbm
  opt_srbm :: umr_bank_srbm
  opt_verbose :: bool
  opt_vm_partition :: int
  opt_use_xgmi :: bool
  opt_no_fold_vm_decode :: bool
  opt_trap_unsorted_db :: bool
  opt_hub_name :: string
  opt_no_follow_ib :: bool
  opt_no_follow_shader :: bool
  opt_disasm_early_term :: bool
  opt_halt_waves :: bool
  opt_ring_name :: string
  opt_skip_gprs :: bool
  opt_shader_enable :: umr_shader_enable

record umr_asic =
  asic_asicname :: string
  asic_did :: u32
  asic_family :: chipfamily
  asic_is_apu :: u32
  asic_vgpr_granularity :: u32
  asic_config :: umr_config
  asic_blocks :: "umr_ip_block list"
  asic_options :: umr_options

subsection \<open>The zero-initialised structures that \<^verbatim>\<open>calloc\<close> returns\<close>

definition zero_gfx_config :: umr_gfx_config where
  "zero_gfx_config = \<lparr>gfx_max_shader_engines = 0, gfx_max_tile_pipes = 0, gfx_max_cu_per_sh = 0,
     gfx_max_sh_per_se = 0, gfx_max_backends_per_se = 0, gfx_max_texture_channel_caches = 0,
     gfx_max_gprs = 0, gfx_max_gs_threads = 0, gfx_max_hw_contexts = 0,
     gfx_sc_prim_fifo_size_frontend = 0, gfx_sc_prim_fifo_size_backend = 0,
     gfx_sc_hiz_tile_fifo_size = 0, gfx_sc_earlyz_tile_fifo_size = 0, gfx_num_tile_pipes = 0,
     gfx_backend_enable_mask = 0, gfx_mem_max_burst_length_bytes = 0, gfx_mem_row_size_in_kb = 0,
     gfx_shader_engine_tile_size = 0, gfx_num_gpus = 0, gfx_multi_gpu_tile_size = 0,
     gfx_mc_arb_ramcfg = 0, gfx_gb_addr_config = 0, gfx_num_rbs = 0, gfx_rev_id = 0,
     gfx_cg_flags = 0, gfx_pg_flags = 0, gfx_family = 0, gfx_external_rev_id = 0\<rparr>"

definition zero_config :: umr_config where
  "zero_config = \<lparr>cfg_gfx = zero_gfx_config,
     cfg_pci = \<lparr>pci_device = 0, pci_revision = 0, pci_subsystem_device = 0, pci_subsystem_vendor = 0\<rparr>,
     cfg_is_apu = 0, cfg_vram_size = 0, cfg_vis_vram_size = 0, cfg_gtt_size = 0,
     cfg_data = replicate 512 0\<rparr>"

definition zero_options :: umr_options where
  "zero_options = \<lparr>opt_use_bank = 0,
     opt_grbm = \<lparr>grbm_se = 0, grbm_sh = 0, grbm_instance = 0\<rparr>,
     opt_srbm = \<lparr>srbm_me = 0, srbm_pipe = 0, srbm_queue = 0, srbm_vmid = 0\<rparr>, opt_verbose = False, opt_vm_partition = 0,
     opt_use_xgmi = False, opt_no_fold_vm_decode = False, opt_trap_unsorted_db = False,
     opt_hub_name = '''', opt_no_follow_ib = False, opt_no_follow_shader = False,
     opt_disasm_early_term = False, opt_halt_waves = False, opt_ring_name = '''', opt_skip_gprs = False,
     opt_shader_enable = \<lparr>enable_ps_shader = False, enable_vs_shader = False, enable_gs_shader = False,
       enable_hs_shader = False, enable_es_shader = False, enable_ls_shader = False,
       enable_es_ls_swap = False, enable_comp_shader = False\<rparr>\<rparr>"

subsection \<open>Well-formed device descriptions\<close>

text \<open>
  What the database loader produces: NUL-free names that fit the fixed width fields
  of the wire format, counts that fit a C \<^verbatim>\<open>int\<close>, and bit fields that lie inside
  a 64 bit register with their start not above their stop.
\<close>

definition umr_bitfield_wf :: "umr_bitfield \<Rightarrow> bool" where
  "umr_bitfield_wf bf \<longleftrightarrow> cstring (bf_regname bf) \<and> length (bf_regname bf) \<le> 128"

definition umr_reg_wf :: "umr_reg \<Rightarrow> bool" where
  "umr_reg_wf r \<longleftrightarrow> cstring (reg_regname r) \<and> length (reg_regname r) \<le> 128 \<and>
     length (reg_bits r) < 2 ^ 31 \<and> list_all umr_bitfield_wf (reg_bits r)"

definition umr_ip_block_wf :: "umr_ip_block \<Rightarrow> bool" where
  "umr_ip_block_wf ip \<longleftrightarrow> cstring (ip_ipname ip) \<and> length (ip_ipname ip) \<le> 64 \<and>
     length (ip_regs ip) < 2 ^ 31 \<and> list_all umr_reg_wf (ip_regs ip)"

definition umr_asic_wf :: "umr_asic \<Rightarrow> bool" where
  "umr_asic_wf a \<longleftrightarrow> cstring (asic_asicname a) \<and> length (asic_asicname a) \<le> 64 \<and>
     length (asic_blocks a) < 2 ^ 31 \<and> list_all umr_ip_block_wf (asic_blocks a) \<and>
     length (cfg_data (asic_config a)) = 512"

end
