(* ===== verification/Scan_Config.thy ===== *)
theory Scan_Config
  imports Umr_Types "HOL-Library.Monad_Syntax"
begin

text \<open>
  Decoding of the kernel's GCA configuration dump (\<^verbatim>\<open>src/lib/scan_config.c\<close>).  Each
  revision of the format extends the one before, so each parser runs its
  predecessor first and continues at the index that one left behind.  The array is
  read through a cursor; an access past its end is \<open>None\<close>.
\<close>

definition cfg_word :: "u32 list \<Rightarrow> nat \<Rightarrow> u32 option" where
  "cfg_word data r = (if r < length data then Some (data ! r) else None)"

definition upd_gfx :: "(umr_gfx_config \<Rightarrow> umr_gfx_config) \<Rightarrow> umr_asic \<Rightarrow> umr_asic" where
  "upd_gfx f asic = asic\<lparr>asic_config := (asic_config asic)\<lparr>cfg_gfx := f (cfg_gfx (asic_config asic))\<rparr>\<rparr>"

subsection \<open>Revision parsers\<close>

definition parse_rev0 :: "umr_asic \<Rightarrow> u32 list \<Rightarrow> (umr_asic \<times> nat) option" where
  "parse_rev0 asic data =
     (if 24 \<le> length data then
        Some (upd_gfx (\<lambda>g. g
          \<lparr>gfx_max_shader_engines := data ! 1, gfx_max_tile_pipes := data ! 2,
           gfx_max_cu_per_sh := data ! 3, gfx_max_sh_per_se := data ! 4,
           gfx_max_backends_per_se := data ! 5, gfx_max_texture_channel_caches := data ! 6,
           gfx_max_gprs := data ! 7, gfx_max_gs_threads := data ! 8,
           gfx_max_hw_contexts := data ! 9, gfx_sc_prim_fifo_size_frontend := data ! 10,
           gfx_sc_prim_fifo_size_backend := data ! 11, gfx_sc_hiz_tile_fifo_size := data ! 12,
           gfx_sc_earlyz_tile_fifo_size := data ! 13, gfx_num_tile_pipes := data ! 14,
           gfx_backend_enable_mask := data ! 15, gfx_mem_max_burst_length_bytes := data ! 16,
           gfx_mem_row_size_in_kb := data ! 17, gfx_shader_engine_tile_size := data ! 18,
           gfx_num_gpus := data ! 19, gfx_multi_gpu_tile_size := data ! 20,
           gfx_mc_arb_ramcfg := data ! 21, gfx_gb_addr_config := data ! 22,
           gfx_num_rbs := data ! 23\<rparr>) asic, 24)
      else None)"

definition parse_rev1 :: "umr_asic \<Rightarrow> u32 list \<Rightarrow> (umr_asic \<times> nat) option" where
  "parse_rev1 asic data = do {
     (a, r) \<leftarrow> parse_rev0 asic data;
     rev_id \<leftarrow> cfg_word data r;
     pg_flags \<leftarrow> cfg_word data (r + 1);
     cg_flags \<leftarrow> cfg_word data (r + 2);
     let a = upd_gfx (\<lambda>g. g\<lparr>gfx_rev_id := rev_id, gfx_pg_flags := ucast pg_flags,
                             gfx_cg_flags := ucast cg_flags\<rparr>) a;
     Some (a\<lparr>asic_config := (asic_config a)\<lparr>cfg_is_apu := asic_is_apu a\<rparr>\<rparr>, r + 3) }"

definition parse_rev2 :: "umr_asic \<Rightarrow> u32 list \<Rightarrow> (umr_asic \<times> nat) option" where
  "parse_rev2 asic data = do {
     (a, r) \<leftarrow> parse_rev1 asic data;
     family \<leftarrow> cfg_word data r;
     external_rev_id \<leftarrow> cfg_word data (r + 1);
     Some (upd_gfx (\<lambda>g. g\<lparr>gfx_family := family, gfx_external_rev_id := external_rev_id\<rparr>) a, r + 2) }"

definition parse_rev3 :: "umr_asic \<Rightarrow> u32 list \<Rightarrow> (umr_asic \<times> nat) option" where
  "parse_rev3 asic data = do {
     (a, r) \<leftarrow> parse_rev2 asic data;
     device \<leftarrow> cfg_word data r;
     revision \<leftarrow> cfg_word data (r + 1);
     subsystem_device \<leftarrow> cfg_word data (r + 2);
     subsystem_vendor \<leftarrow> cfg_word data (r + 3);
     Some (a\<lparr>asic_config := (asic_config a)\<lparr>cfg_pci := \<lparr>pci_device = device, pci_revision = revision,
             pci_subsystem_device = subsystem_device, pci_subsystem_vendor = subsystem_vendor\<rparr>\<rparr>\<rparr>, r + 4) }"

definition parse_rev4 :: "umr_asic \<Rightarrow> u32 list \<Rightarrow> (umr_asic \<times> nat) option" where
  "parse_rev4 asic data = do {
     (a, r) \<leftarrow> parse_rev3 asic data;
     is_apu \<leftarrow> cfg_word data r;
     Some (a\<lparr>asic_config := (asic_config a)\<lparr>cfg_is_apu := is_apu\<rparr>, asic_is_apu := is_apu\<rparr>, r + 1) }"

definition parse_rev5 :: "umr_asic \<Rightarrow> u32 list \<Rightarrow> (umr_asic \<times> nat) option" where
  "parse_rev5 asic data = do {
     (a, r) \<leftarrow> parse_rev4 asic data;
     pg_hi \<leftarrow> cfg_word data r;
     cg_hi \<leftarrow> cfg_word data (r + 1);
     Some (upd_gfx (\<lambda>g. g\<lparr>gfx_pg_flags := gfx_pg_flags g OR push_bit 32 (ucast pg_hi),
                           gfx_cg_flags := gfx_cg_flags g OR push_bit 32 (ucast cg_hi)\<rparr>) a, r + 2) }"

text \<open>The dispatcher; an unknown header only prints a message.\<close>

definition umr_scan_config_gca_data :: "umr_asic \<Rightarrow> umr_asic option" where
  "umr_scan_config_gca_data asic =
     (let data = cfg_data (asic_config asic) in
      do {
        v \<leftarrow> cfg_word data 0;
        if v = 0 then map_option fst (parse_rev0 asic data)
        else if v = 1 then map_option fst (parse_rev1 asic data)
        else if v = 2 then map_option fst (parse_rev2 asic data)
        else if v = 3 then map_option fst (parse_rev3 asic data)
        else if v = 4 then map_option fst (parse_rev4 asic data)
        else if v = 5 then map_option fst (parse_rev5 asic data)
        else Some asic })"

subsection \<open>Choosing the chip family\<close>

text \<open>
  The two places of \<^verbatim>\<open>umr_scan_config\<close> that derive a chip family: from the GFX block
  version when there is no kernel driver, and from the family number of the dump when
  the device was found by IP discovery.
\<close>

definition scan_config_no_kernel_family :: "u32 \<Rightarrow> umr_asic \<Rightarrow> umr_asic" where
  "scan_config_no_kernel_family maj asic =
     (if maj = 6 then upd_gfx (\<lambda>g. g\<lparr>gfx_family := 0\<rparr>) (asic\<lparr>asic_family := FAMILY_CIK\<rparr>)
      else if maj = 7 then upd_gfx (\<lambda>g. g\<lparr>gfx_family := 120\<rparr>) (asic\<lparr>asic_family := FAMILY_SI\<rparr>)
      else if maj = 8 then upd_gfx (\<lambda>g. g\<lparr>gfx_family := 130\<rparr>) (asic\<lparr>asic_family := FAMILY_VI\<rparr>)
      else if maj = 9 then upd_gfx (\<lambda>g. g\<lparr>gfx_family := 141\<rparr>) (asic\<lparr>asic_family := FAMILY_AI\<rparr>)
      else if maj = 10 then upd_gfx (\<lambda>g. g\<lparr>gfx_family := 143\<rparr>) (asic\<lparr>asic_family := FAMILY_NV\<rparr>)
      else if maj = 11 then upd_gfx (\<lambda>g. g\<lparr>gfx_family := 145\<rparr>) (asic\<lparr>asic_family := FAMILY_GFX11\<rparr>)
      else if maj = 12 then asic\<lparr>asic_family := FAMILY_GFX12\<rparr>
      else asic)"

definition scan_config_configure_family :: "umr_asic \<Rightarrow> umr_asic" where
  "scan_config_configure_family asic =
     (if asic_family asic = FAMILY_CONFIGURE then
        (let f = gfx_family (cfg_gfx (asic_config asic)) in
         if f \<ge> 145 then asic\<lparr>asic_family := FAMILY_GFX11\<rparr>
         else if f \<ge> 143 then asic\<lparr>asic_family := FAMILY_NV\<rparr>
         else if f \<ge> 141 then asic\<lparr>asic_family := FAMILY_AI\<rparr>
         else asic\<lparr>asic_family := FAMILY_VI\<rparr>)
      else asic)"

subsection \<open>Totality and frame\<close>

lemma upd_gfx_frame [simp]:
  "asic_blocks (upd_gfx f a) = asic_blocks a"
  "asic_is_apu (upd_gfx f a) = asic_is_apu a"
  "asic_asicname (upd_gfx f a) = asic_asicname a"
  "asic_did (upd_gfx f a) = asic_did a"
  "asic_family (upd_gfx f a) = asic_family a"
  "cfg_gfx (asic_config (upd_gfx f a)) = f (cfg_gfx (asic_config a))"
  "cfg_data (asic_config (upd_gfx f a)) = cfg_data (asic_config a)"
  "cfg_is_apu (asic_config (upd_gfx f a)) = cfg_is_apu (asic_config a)"
  "cfg_pci (asic_config (upd_gfx f a)) = cfg_pci (asic_config a)"
  by (simp_all add: upd_gfx_def)

lemma cfg_word_in [simp]: "r < length data \<Longrightarrow> cfg_word data r = Some (data ! r)"
  by (simp add: cfg_word_def)

lemmas parse_rev_defs = parse_rev0_def parse_rev1_def parse_rev2_def parse_rev3_def
  parse_rev4_def parse_rev5_def

text \<open>
  Each revision stops exactly where the next one starts, so a newer dump carries
  every field of an older one at the same place.
\<close>

lemma parse_rev_cursors:
  assumes "36 \<le> length data"
  shows "\<exists>a. parse_rev0 asic data = Some (a, 24)"
    and "\<exists>a. parse_rev1 asic data = Some (a, 27)"
    and "\<exists>a. parse_rev2 asic data = Some (a, 29)"
    and "\<exists>a. parse_rev3 asic data = Some (a, 33)"
    and "\<exists>a. parse_rev4 asic data = Some (a, 34)"
    and "\<exists>a. parse_rev5 asic data = Some (a, 36)"
  using assms by (simp_all add: parse_rev_defs Let_def)

lemma umr_scan_config_gca_data_total:
  assumes "length (cfg_data (asic_config asic)) = 512"
  shows "\<exists>a. umr_scan_config_gca_data asic = Some a"
  using assms by (auto simp: umr_scan_config_gca_data_def parse_rev_defs Let_def)

lemma umr_scan_config_gca_data_blocks:
  assumes "umr_scan_config_gca_data asic = Some a"
  shows "asic_blocks a = asic_blocks asic"
  using assms
  by (auto simp: umr_scan_config_gca_data_def parse_rev_defs Let_def bind_eq_Some_conv
      split: if_splits)

text \<open>A device that holds a given image of the kernel's configuration file.\<close>

definition gca_demo :: "u32 list \<Rightarrow> umr_asic" where
  "gca_demo d = \<lparr>asic_asicname = ''navi10'', asic_did = 0, asic_family = FAMILY_NV, asic_is_apu = 0,
     asic_vgpr_granularity = 2, asic_config = zero_config\<lparr>cfg_data := d\<rparr>, asic_blocks = [],
     asic_options = zero_options\<rparr>"

text \<open>A device whose configuration dump has revision 5 gets its 64 bit power and
  clock gating flags from the two words the dump stores for each of them, low word
  first, and its APU flag from the dump rather than from the caller; no access leaves
  the 512 word array.\<close>

theorem gca_rev5_flags:
  assumes "length (cfg_data (asic_config asic)) = 512" and "cfg_data (asic_config asic) ! 0 = 5"
  shows "\<exists>a. umr_scan_config_gca_data asic = Some a \<and>
     gfx_pg_flags (cfg_gfx (asic_config a)) =
       mk64 (cfg_data (asic_config asic) ! 25) (cfg_data (asic_config asic) ! 34) \<and>
     gfx_cg_flags (cfg_gfx (asic_config a)) =
       mk64 (cfg_data (asic_config asic) ! 26) (cfg_data (asic_config asic) ! 35) \<and>
     asic_is_apu a = cfg_data (asic_config asic) ! 33 \<and>
     asic_blocks a = asic_blocks asic"
  using assms by (simp add: umr_scan_config_gca_data_def parse_rev_defs Let_def mk64_def)

theorem gca_rev5_flags_witness:
  "\<exists>a. umr_scan_config_gca_data (gca_demo (5 # replicate 511 7)) = Some a \<and>
     gfx_pg_flags (cfg_gfx (asic_config a)) = mk64 7 7 \<and> asic_is_apu a = 7"
proof -
  let ?a = "gca_demo (5 # replicate 511 7)"
  have "length (cfg_data (asic_config ?a)) = 512" and "cfg_data (asic_config ?a) ! 0 = 5"
    by (simp_all add: gca_demo_def)
  from gca_rev5_flags [OF this] show ?thesis by (auto simp: gca_demo_def nth_Cons')
qed

end
