(* ===== verification/Rumr_Serial.thy ===== *)
theory Rumr_Serial
  imports Rumr_Buffer Scan_Config
begin

text \<open>
  The wire format of a device description (\<^verbatim>\<open>src/lib/rumr/rumr_serial_asic.c\<close>): the
  server flattens its \<^verbatim>\<open>umr_asic\<close> into a buffer, the client rebuilds one from it.
  Operations that can leave an array return an option whose \<open>None\<close> is that fault; a
  NULL result of the C function is a second, inner option.  Allocation inside the
  parser is taken to succeed, as the source does not check it.
\<close>

subsection \<open>Serialising\<close>

text \<open>\<^verbatim>\<open>memset\<close> and \<^verbatim>\<open>strcpy\<close> into the 256 byte scratch array.\<close>

definition strcpy_tmpbuf :: "string \<Rightarrow> u8 list option" where
  "strcpy_tmpbuf s =
     (if length s < 256 then Some (bytes_of_string s @ replicate (256 - length s) 0) else None)"

definition add_name :: "alloc_env \<Rightarrow> u32 \<Rightarrow> string \<Rightarrow> rumr_buffer \<Rightarrow> rumr_buffer option" where
  "add_name env n s b = do { t \<leftarrow> strcpy_tmpbuf s; rumr_buffer_add_data env b t n }"

definition add_uint64 :: "alloc_env \<Rightarrow> rumr_buffer \<Rightarrow> u64 \<Rightarrow> rumr_buffer option" where
  "add_uint64 env b v = do {
     b \<leftarrow> rumr_buffer_add_uint32 env b (lo32 v);
     rumr_buffer_add_uint32 env b (hi32 v) }"

definition serialize_bit :: "alloc_env \<Rightarrow> umr_bitfield \<Rightarrow> rumr_buffer \<Rightarrow> rumr_buffer option" where
  "serialize_bit env bf b = do {
     b \<leftarrow> add_name env 128 (bf_regname bf) b;
     b \<leftarrow> rumr_buffer_add_uint32 env b (ucast (bf_start bf));
     rumr_buffer_add_uint32 env b (ucast (bf_stop bf)) }"

definition serialize_reg :: "alloc_env \<Rightarrow> umr_reg \<Rightarrow> rumr_buffer \<Rightarrow> rumr_buffer option" where
  "serialize_reg env r b = do {
     b \<leftarrow> add_name env 128 (reg_regname r) b;
     b \<leftarrow> rumr_buffer_add_uint32 env b (reg_type r);
     b \<leftarrow> add_uint64 env b (reg_addr r);
     b \<leftarrow> rumr_buffer_add_uint32 env b (lo32 (reg_bit64 r));
     b \<leftarrow> rumr_buffer_add_uint32 env b (of_nat (length (reg_bits r)));
     write_all (serialize_bit env) (reg_bits r) b }"

definition serialize_ip :: "alloc_env \<Rightarrow> umr_ip_block \<Rightarrow> rumr_buffer \<Rightarrow> rumr_buffer option" where
  "serialize_ip env ip b = do {
     b \<leftarrow> add_name env 64 (ip_ipname ip) b;
     b \<leftarrow> rumr_buffer_add_uint32 env b (of_nat (length (ip_regs ip)));
     b \<leftarrow> rumr_buffer_add_uint32 env b (disc_die (ip_discoverable ip));
     b \<leftarrow> rumr_buffer_add_uint32 env b (disc_maj (ip_discoverable ip));
     b \<leftarrow> rumr_buffer_add_uint32 env b (disc_min (ip_discoverable ip));
     b \<leftarrow> rumr_buffer_add_uint32 env b (disc_rev (ip_discoverable ip));
     b \<leftarrow> rumr_buffer_add_uint32 env b (disc_instance (ip_discoverable ip));
     b \<leftarrow> rumr_buffer_add_uint32 env b (disc_logical_inst (ip_discoverable ip));
     write_all (serialize_reg env) (ip_regs ip) b }"

definition serialize_header :: "alloc_env \<Rightarrow> umr_asic \<Rightarrow> rumr_buffer \<Rightarrow> rumr_buffer option" where
  "serialize_header env asic b = do {
     b \<leftarrow> add_name env 64 (asic_asicname asic) b;
     b \<leftarrow> rumr_buffer_add_uint32 env b (asic_did asic);
     b \<leftarrow> rumr_buffer_add_uint32 env b (asic_family asic);
     b \<leftarrow> rumr_buffer_add_uint32 env b (asic_vgpr_granularity asic);
     b \<leftarrow> rumr_buffer_add_uint32 env b 2048;
     b \<leftarrow> rumr_buffer_add_data env b (concat (map le32 (cfg_data (asic_config asic)))) 2048;
     b \<leftarrow> add_uint64 env b (cfg_vram_size (asic_config asic));
     b \<leftarrow> add_uint64 env b (cfg_vis_vram_size (asic_config asic));
     b \<leftarrow> add_uint64 env b (cfg_gtt_size (asic_config asic));
     b \<leftarrow> rumr_buffer_add_uint32 env b (asic_is_apu asic);
     rumr_buffer_add_uint32 env b (of_nat (length (asic_blocks asic))) }"

definition rumr_serialize_asic :: "alloc_env \<Rightarrow> umr_asic \<Rightarrow> rumr_buffer option option" where
  "rumr_serialize_asic env asic =
     (case rumr_buffer_init env of None \<Rightarrow> Some None
      | Some b \<Rightarrow> do {
          b \<leftarrow> serialize_header env asic b;
          b \<leftarrow> write_all (serialize_ip env) (asic_blocks asic) b;
          Some (if rb_failed b then None else Some b) })"

subsection \<open>Parsing\<close>

definition read_name :: "u32 \<Rightarrow> rumr_buffer \<Rightarrow> (string \<times> rumr_buffer) option" where
  "read_name n b = do {
     (bs, b) \<leftarrow> rumr_buffer_read_data b n;
     Some (string_of_bytes (bs @ replicate (256 - unat n) 0), b) }"

definition read_uint64 :: "rumr_buffer \<Rightarrow> (u64 \<times> rumr_buffer) option" where
  "read_uint64 b = do {
     (lo, b) \<leftarrow> rumr_buffer_read_uint32 b;
     (hi, b) \<leftarrow> rumr_buffer_read_uint32 b;
     Some (mk64 lo hi, b) }"

text \<open>A count travels as 32 bits and lands in a C \<^verbatim>\<open>int\<close>; a negative one ends the
  loop at once.\<close>

definition loop_count :: "u32 \<Rightarrow> nat" where
  "loop_count v = nat (sint v)"

definition parse_bit :: "rumr_buffer \<Rightarrow> (umr_bitfield \<times> rumr_buffer) option" where
  "parse_bit b = do {
     (name, b) \<leftarrow> read_name 128 b;
     (start, b) \<leftarrow> rumr_buffer_read_uint32 b;
     (stop, b) \<leftarrow> rumr_buffer_read_uint32 b;
     Some (\<lparr>bf_regname = name, bf_start = ucast start, bf_stop = ucast stop\<rparr>, b) }"

definition parse_reg :: "rumr_buffer \<Rightarrow> (umr_reg \<times> rumr_buffer) option" where
  "parse_reg b = do {
     (name, b) \<leftarrow> read_name 128 b;
     (type, b) \<leftarrow> rumr_buffer_read_uint32 b;
     (addr, b) \<leftarrow> read_uint64 b;
     (bit64, b) \<leftarrow> rumr_buffer_read_uint32 b;
     (no_bits, b) \<leftarrow> rumr_buffer_read_uint32 b;
     (bits, b) \<leftarrow> read_n (loop_count no_bits) parse_bit b;
     Some (\<lparr>reg_regname = name, reg_type = type, reg_addr = addr, reg_bits = bits,
            reg_bit64 = ucast bit64, reg_value = 0\<rparr>, b) }"

definition parse_ip :: "rumr_buffer \<Rightarrow> (umr_ip_block \<times> rumr_buffer) option" where
  "parse_ip b = do {
     (name, b) \<leftarrow> read_name 64 b;
     (no_regs, b) \<leftarrow> rumr_buffer_read_uint32 b;
     (die, b) \<leftarrow> rumr_buffer_read_uint32 b;
     (maj, b) \<leftarrow> rumr_buffer_read_uint32 b;
     (min, b) \<leftarrow> rumr_buffer_read_uint32 b;
     (rev, b) \<leftarrow> rumr_buffer_read_uint32 b;
     (inst, b) \<leftarrow> rumr_buffer_read_uint32 b;
     (linst, b) \<leftarrow> rumr_buffer_read_uint32 b;
     (regs, b) \<leftarrow> read_n (loop_count no_regs) parse_reg b;
     Some (\<lparr>ip_ipname = name, ip_regs = regs,
            ip_discoverable = \<lparr>disc_die = die, disc_maj = maj, disc_min = min, disc_rev = rev,
                               disc_instance = inst, disc_logical_inst = linst\<rparr>\<rparr>, b) }"

text \<open>\<open>words_of_bytes n bs\<close> views the first \<open>4 * n\<close> bytes as an array of words.\<close>

primrec words_of_bytes :: "nat \<Rightarrow> u8 list \<Rightarrow> u32 list" where
  "words_of_bytes 0 bs = []"
| "words_of_bytes (Suc n) bs = of_le32 bs # words_of_bytes n (drop 4 bs)"

text \<open>The part of the parser after the configuration dump has been read.\<close>

definition parse_body ::
    "string \<Rightarrow> u32 \<Rightarrow> u32 \<Rightarrow> u32 \<Rightarrow> u8 list \<Rightarrow> rumr_buffer \<Rightarrow> (umr_asic \<times> rumr_buffer) option" where
  "parse_body name did family vgpr cfg b = do {
     (vram, b) \<leftarrow> read_uint64 b;
     (vis_vram, b) \<leftarrow> read_uint64 b;
     (gtt, b) \<leftarrow> read_uint64 b;
     (is_apu, b) \<leftarrow> rumr_buffer_read_uint32 b;
     (no_blocks, b) \<leftarrow> rumr_buffer_read_uint32 b;
     (blocks, b) \<leftarrow> read_n (loop_count no_blocks) parse_ip b;
     Some (\<lparr>asic_asicname = name, asic_did = did, asic_family = family, asic_is_apu = is_apu,
            asic_vgpr_granularity = vgpr,
            asic_config = zero_config\<lparr>cfg_vram_size := vram, cfg_vis_vram_size := vis_vram,
              cfg_gtt_size := gtt,
              cfg_data := words_of_bytes 512 (cfg @ replicate (2048 - length cfg) 0)\<rparr>,
            asic_blocks = blocks, asic_options = zero_options\<rparr>, b) }"

definition parse_stream :: "rumr_buffer \<Rightarrow> (umr_asic option \<times> rumr_buffer) option" where
  "parse_stream b = do {
     (name, b) \<leftarrow> read_name 64 b;
     (did, b) \<leftarrow> rumr_buffer_read_uint32 b;
     (family, b) \<leftarrow> rumr_buffer_read_uint32 b;
     (vgpr, b) \<leftarrow> rumr_buffer_read_uint32 b;
     (v, b) \<leftarrow> rumr_buffer_read_uint32 b;
     if v \<le> 2048 then do {
       (cfg, b) \<leftarrow> rumr_buffer_read_data b v;
       (asic, b) \<leftarrow> parse_body name did family vgpr cfg b;
       Some (Some asic, b) }
     else Some (None, b) }"

definition rumr_parse_serialized_asic :: "rumr_buffer \<Rightarrow> umr_asic option option" where
  "rumr_parse_serialized_asic b = do {
     (r, b) \<leftarrow> parse_stream b;
     case r of None \<Rightarrow> Some None
     | Some asic \<Rightarrow> do { asic \<leftarrow> umr_scan_config_gca_data asic; Some (Some asic) } }"

subsection \<open>The wire format as a byte string\<close>

definition enc_name :: "nat \<Rightarrow> string \<Rightarrow> u8 list" where
  "enc_name n s = bytes_of_string s @ replicate (n - length s) 0"

definition enc_bit :: "umr_bitfield \<Rightarrow> u8 list" where
  "enc_bit bf = enc_name 128 (bf_regname bf) @ le32 (ucast (bf_start bf)) @ le32 (ucast (bf_stop bf))"

definition enc_reg :: "umr_reg \<Rightarrow> u8 list" where
  "enc_reg r = enc_name 128 (reg_regname r) @ le32 (reg_type r) @ le64 (reg_addr r) @
     le32 (lo32 (reg_bit64 r)) @ le32 (of_nat (length (reg_bits r))) @ concat (map enc_bit (reg_bits r))"

definition enc_ip :: "umr_ip_block \<Rightarrow> u8 list" where
  "enc_ip ip = enc_name 64 (ip_ipname ip) @ le32 (of_nat (length (ip_regs ip))) @
     le32 (disc_die (ip_discoverable ip)) @ le32 (disc_maj (ip_discoverable ip)) @
     le32 (disc_min (ip_discoverable ip)) @ le32 (disc_rev (ip_discoverable ip)) @
     le32 (disc_instance (ip_discoverable ip)) @ le32 (disc_logical_inst (ip_discoverable ip)) @
     concat (map enc_reg (ip_regs ip))"

definition enc_header :: "umr_asic \<Rightarrow> u8 list" where
  "enc_header a = enc_name 64 (asic_asicname a) @ le32 (asic_did a) @ le32 (asic_family a) @
     le32 (asic_vgpr_granularity a) @ le32 2048 @ concat (map le32 (cfg_data (asic_config a))) @
     le64 (cfg_vram_size (asic_config a)) @ le64 (cfg_vis_vram_size (asic_config a)) @
     le64 (cfg_gtt_size (asic_config a)) @ le32 (asic_is_apu a) @ le32 (of_nat (length (asic_blocks a)))"

definition enc_asic :: "umr_asic \<Rightarrow> u8 list" where
  "enc_asic a = enc_header a @ concat (map enc_ip (asic_blocks a))"

text \<open>What survives the trip: everything the format carries; the cached register
  value, the upper half of the 64 bit flag and the local options do not.\<close>

definition wire_reg :: "umr_reg \<Rightarrow> umr_reg" where
  "wire_reg r = r\<lparr>reg_bit64 := ucast (lo32 (reg_bit64 r)), reg_value := 0\<rparr>"

definition wire_ip :: "umr_ip_block \<Rightarrow> umr_ip_block" where
  "wire_ip ip = ip\<lparr>ip_regs := map wire_reg (ip_regs ip)\<rparr>"

definition wire_asic :: "umr_asic \<Rightarrow> umr_asic" where
  "wire_asic a = a\<lparr>asic_blocks := map wire_ip (asic_blocks a), asic_options := zero_options,
     asic_config := zero_config\<lparr>cfg_vram_size := cfg_vram_size (asic_config a),
       cfg_vis_vram_size := cfg_vis_vram_size (asic_config a),
       cfg_gtt_size := cfg_gtt_size (asic_config a), cfg_data := cfg_data (asic_config a)\<rparr>\<rparr>"

subsection \<open>The serialiser writes the format\<close>

lemma emits_uint32: "rq.emits (\<lambda>b. rumr_buffer_add_uint32 (ample f) b v) (le32 v)"
proof -
  have "(\<lambda>b. rumr_buffer_add_uint32 (ample f) b v) = (\<lambda>b. rumr_push (ample f) b (le32 v))"
    by (simp add: rumr_buffer_add_uint32_def rumr_push_def fun_eq_iff)
  then show ?thesis using rq.emits_push [of "le32 v" f] by simp
qed

lemma emits_uint64: "rq.emits (\<lambda>b. add_uint64 (ample f) b v) (le64 v)"
  unfolding add_uint64_def le64_def by (intro rq.emits_bind emits_uint32)

lemma add_data_take:
  "unat n \<le> length bs \<Longrightarrow>
   rumr_buffer_add_data env b bs n = rumr_buffer_add_data env b (take (unat n) bs) n"
  by (simp add: rumr_buffer_add_data_def Let_def)

lemma emits_name:
  assumes "length s \<le> unat n" and "unat n \<le> 128"
  shows "rq.emits (add_name (ample f) n s) (enc_name (unat n) s)"
proof -
  define t where "t = bytes_of_string s @ replicate (256 - length s) (0::u8)"
  have lt: "unat n \<le> length t" using assms by (simp add: t_def)
  have tk: "take (unat n) t = enc_name (unat n) s"
    using assms by (simp add: t_def enc_name_def)
  have len: "length (enc_name (unat n) s) = unat n"
    using assms by (simp add: enc_name_def)
  have "add_name (ample f) n s = (\<lambda>b. rumr_push (ample f) b (enc_name (unat n) s))"
  proof
    fix b
    have "add_name (ample f) n s b = rumr_buffer_add_data (ample f) b t n"
      using assms by (simp add: add_name_def strcpy_tmpbuf_def t_def)
    also have "\<dots> = rumr_push (ample f) b (enc_name (unat n) s)"
      unfolding rumr_push_def len by (subst add_data_take [OF lt]) (simp add: tk)
    finally show "add_name (ample f) n s b = rumr_push (ample f) b (enc_name (unat n) s)" .
  qed
  then show ?thesis using rq.emits_push [of "enc_name (unat n) s" f] assms len by simp
qed

lemmas emits_intros = rq.emits_bind emits_uint32 emits_uint64

lemma emits_bit: "umr_bitfield_wf bf \<Longrightarrow> rq.emits (serialize_bit (ample f) bf) (enc_bit bf)"
  unfolding serialize_bit_def [abs_def] enc_bit_def
  by (intro emits_intros emits_name [of _ 128, simplified]) (simp_all add: umr_bitfield_wf_def)

lemma emits_reg: "umr_reg_wf r \<Longrightarrow> rq.emits (serialize_reg (ample f) r) (enc_reg r)"
  unfolding serialize_reg_def [abs_def] enc_reg_def
  by (intro emits_intros rq.emits_write_all emits_bit emits_name [of _ 128, simplified])
    (auto simp: umr_reg_wf_def list_all_iff)

lemma emits_ip: "umr_ip_block_wf ip \<Longrightarrow> rq.emits (serialize_ip (ample f) ip) (enc_ip ip)"
  unfolding serialize_ip_def [abs_def] enc_ip_def
  by (intro emits_intros rq.emits_write_all emits_reg emits_name [of _ 64, simplified])
    (auto simp: umr_ip_block_wf_def list_all_iff)

lemma length_concat_le32 [simp]: "length (concat (map le32 ws)) = 4 * length ws"
  by (induction ws) auto

lemma emits_config:
  assumes "length ws = 512"
  shows "rq.emits (\<lambda>b. rumr_buffer_add_data (ample f) b (concat (map le32 ws)) 2048) (concat (map le32 ws))"
  using rq.emits_push [of "concat (map le32 ws)" f] assms by (simp add: rumr_push_def)

lemma emits_header:
  assumes "umr_asic_wf a"
  shows "rq.emits (serialize_header (ample f) a) (enc_header a)"
  unfolding serialize_header_def [abs_def] enc_header_def
  by (intro emits_intros emits_config emits_name [of _ 64, simplified])
    (use assms in \<open>auto simp: umr_asic_wf_def\<close>)

lemma emits_asic:
  assumes "umr_asic_wf a"
  shows "rq.emits (\<lambda>b. Option.bind (serialize_header (ample f) a b)
            (write_all (serialize_ip (ample f)) (asic_blocks a))) (enc_asic a)"
  unfolding enc_asic_def
  by (intro rq.emits_bind rq.emits_write_all emits_header emits_ip)
    (use assms in \<open>auto simp: umr_asic_wf_def list_all_iff\<close>)

lemma rumr_serialize_asic_emits:
  assumes "umr_asic_wf a" and "length (enc_asic a) + 8200 < 2 ^ 32"
  shows "\<exists>b. rumr_serialize_asic (ample f) a = Some (Some b) \<and> rumr_room 0 b \<and>
           rumr_pending b = enc_asic a"
proof -
  obtain b0 where b0: "rumr_buffer_init (ample f) = Some b0"
    "rumr_room (0 + length (enc_asic a)) b0" "rumr_pending b0 = []"
    using rumr_room_init [OF assms(2), of f] by auto
  from rq.emitsD [OF emits_asic [OF assms(1), of f] b0(2)]
  obtain b where "Option.bind (serialize_header (ample f) a b0)
      (write_all (serialize_ip (ample f)) (asic_blocks a)) = Some b"
    "rumr_room 0 b" "rumr_pending b = enc_asic a"
    using b0(3) by auto
  moreover then have "\<not> rb_failed b" by (simp add: rumr_room_def)
  ultimately show ?thesis
    by (auto simp: rumr_serialize_asic_def b0(1) bind_eq_Some_conv)
qed

subsection \<open>The parser reads it back\<close>

lemma yields_map:
  "rq.yields r as x \<Longrightarrow> y = g x \<Longrightarrow>
   rq.yields (\<lambda>b. Option.bind (r b) (\<lambda>(v, b'). Some (g v, b'))) as y"
  unfolding rq.yields_def by fastforce

lemma yields_uint32: "rq.yields rumr_buffer_read_uint32 (le32 v) v"
proof -
  have "rq.yields (\<lambda>b. Option.bind (rumr_pull b (length (le32 v))) (\<lambda>(bs, b'). Some (of_le32 bs, b')))
          (le32 v) v"
    by (rule yields_map [OF rq.yields_pull]) simp
  then show ?thesis
    by (simp add: rumr_buffer_read_uint32_def [abs_def] rumr_pull_def)
qed

lemma yields_uint64: "rq.yields read_uint64 (le64 v) v"
  unfolding read_uint64_def [abs_def] le64_def
  by (rule rq.yields_bind, rule yields_uint32, rule yields_map, rule yields_uint32) simp

lemma yields_name:
  assumes "cstring s" and "length s \<le> unat n" and "unat n \<le> 128"
  shows "rq.yields (read_name n) (enc_name (unat n) s) s"
proof -
  have len: "length (enc_name (unat n) s) = unat n"
    using assms by (simp add: enc_name_def)
  have "string_of_bytes (enc_name (unat n) s @ replicate (256 - unat n) 0) = s"
    using string_of_bytes_padded [OF assms(1), of "(unat n - length s) + (256 - unat n)"]
    by (simp add: enc_name_def replicate_add)
  then have "rq.yields (\<lambda>b. Option.bind (rumr_pull b (length (enc_name (unat n) s)))
      (\<lambda>(bs, b'). Some (string_of_bytes (bs @ replicate (256 - unat n) 0), b')))
      (enc_name (unat n) s) s"
    by (intro yields_map [OF rq.yields_pull]) simp
  then show ?thesis
    by (simp add: read_name_def [abs_def] rumr_pull_def len)
qed

lemma loop_count_of_nat: "n < 2 ^ 31 \<Longrightarrow> loop_count (of_nat n) = n"
  by (simp add: loop_count_def sint_uint unsigned_of_nat signed_take_bit_eq_if_positive
      bit_take_bit_iff bit_iff_odd take_bit_nat_eq_self take_bit_int_eq_self)

lemmas yields_intros = rq.yields_bind yields_map yields_uint32 yields_uint64

lemma yields_bit:
  assumes "umr_bitfield_wf bf"
  shows "rq.yields parse_bit (enc_bit bf) bf"
proof -
  have name: "rq.yields (read_name 128) (enc_name 128 (bf_regname bf)) (bf_regname bf)"
    using yields_name [of _ 128] assms by (simp add: umr_bitfield_wf_def)
  show ?thesis
    unfolding parse_bit_def [abs_def] enc_bit_def by (rule yields_intros name | simp)+
qed

lemma yields_reg:
  assumes "umr_reg_wf r"
  shows "rq.yields parse_reg (enc_reg r) (wire_reg r)"
proof -
  have name: "rq.yields (read_name 128) (enc_name 128 (reg_regname r)) (reg_regname r)"
    using yields_name [of _ 128] assms by (simp add: umr_reg_wf_def)
  have bits: "rq.yields (read_n (loop_count (of_nat (length (reg_bits r)))) parse_bit)
      (concat (map enc_bit (reg_bits r))) (reg_bits r)"
    using rq.yields_read_n [of "reg_bits r" parse_bit enc_bit id] yields_bit assms
    by (simp add: umr_reg_wf_def list_all_iff loop_count_of_nat)
  show ?thesis
    unfolding parse_reg_def [abs_def] enc_reg_def
    by (rule yields_intros name bits | simp add: wire_reg_def)+
qed

lemma yields_ip:
  assumes "umr_ip_block_wf ip"
  shows "rq.yields parse_ip (enc_ip ip) (wire_ip ip)"
proof -
  have name: "rq.yields (read_name 64) (enc_name 64 (ip_ipname ip)) (ip_ipname ip)"
    using yields_name [of _ 64] assms by (simp add: umr_ip_block_wf_def)
  have regs: "rq.yields (read_n (loop_count (of_nat (length (ip_regs ip)))) parse_reg)
      (concat (map enc_reg (ip_regs ip))) (map wire_reg (ip_regs ip))"
    using rq.yields_read_n [of "ip_regs ip" parse_reg enc_reg wire_reg] yields_reg assms
    by (simp add: umr_ip_block_wf_def list_all_iff loop_count_of_nat)
  show ?thesis
    unfolding parse_ip_def [abs_def] enc_ip_def
    by (rule yields_intros name regs | simp add: wire_ip_def)+
qed

lemma words_of_bytes_concat:
  "words_of_bytes (length ws) (concat (map le32 ws) @ bs) = ws"
  by (induction ws) auto

lemma yields_body:
  assumes "umr_asic_wf a"
  shows "rq.yields (parse_body (asic_asicname a) (asic_did a) (asic_family a)
            (asic_vgpr_granularity a) (concat (map le32 (cfg_data (asic_config a)))))
     (le64 (cfg_vram_size (asic_config a)) @ le64 (cfg_vis_vram_size (asic_config a)) @
      le64 (cfg_gtt_size (asic_config a)) @ le32 (asic_is_apu a) @
      le32 (of_nat (length (asic_blocks a))) @ concat (map enc_ip (asic_blocks a))) (wire_asic a)"
proof -
  have blocks: "rq.yields (read_n (loop_count (of_nat (length (asic_blocks a)))) parse_ip)
      (concat (map enc_ip (asic_blocks a))) (map wire_ip (asic_blocks a))"
    using rq.yields_read_n [of "asic_blocks a" parse_ip enc_ip wire_ip] yields_ip assms
    by (simp add: umr_asic_wf_def list_all_iff loop_count_of_nat)
  have cfg: "words_of_bytes 512 (concat (map le32 (cfg_data (asic_config a))) @ bs) =
      cfg_data (asic_config a)" for bs
    using words_of_bytes_concat [of "cfg_data (asic_config a)"] assms
    by (simp add: umr_asic_wf_def)
  show ?thesis
    unfolding parse_body_def [abs_def]
    by (rule yields_intros blocks | simp add: wire_asic_def cfg)+
qed

lemma yields_if:
  "P \<Longrightarrow> rq.yields r as x \<Longrightarrow> rq.yields (\<lambda>b. if P then r b else q b) as x"
  by simp

lemma yields_stream:
  assumes wf: "umr_asic_wf a"
  shows "rq.yields parse_stream (enc_asic a) (Some (wire_asic a))"
proof -
  let ?cfg = "concat (map le32 (cfg_data (asic_config a)))"
  have name: "rq.yields (read_name 64) (enc_name 64 (asic_asicname a)) (asic_asicname a)"
    using yields_name [of _ 64] wf by (simp add: umr_asic_wf_def)
  have "rq.yields (\<lambda>b. rumr_pull b (length ?cfg)) ?cfg ?cfg" by (rule rq.yields_pull)
  then have cfg: "rq.yields (\<lambda>b. rumr_buffer_read_data b 2048) ?cfg ?cfg"
    using wf by (simp add: rumr_pull_def umr_asic_wf_def)
  show ?thesis
    unfolding parse_stream_def [abs_def] enc_asic_def enc_header_def append_assoc
    by (rule rq.yields_bind name yields_uint32 yields_if cfg yields_map yields_body [OF wf] | simp)+
qed


text \<open>A small device for the witnesses: one block, one register, one bit field.\<close>

definition demo_asic :: umr_asic where
  "demo_asic = \<lparr>asic_asicname = ''raven'', asic_did = 0x15DD, asic_family = FAMILY_AI,
     asic_is_apu = 1, asic_vgpr_granularity = 2,
     asic_config = zero_config\<lparr>cfg_vram_size := 0x100000000\<rparr>,
     asic_blocks = [\<lparr>ip_ipname = ''gfx90'',
       ip_regs = [\<lparr>reg_regname = ''mmSCRATCH_REG0'', reg_type = REG_MMIO, reg_addr = 0x2040,
                   reg_bits = [\<lparr>bf_regname = ''SCRATCH'', bf_start = 0, bf_stop = 31\<rparr>],
                   reg_bit64 = 0, reg_value = 5\<rparr>],
       ip_discoverable = \<lparr>disc_die = 0, disc_maj = 9, disc_min = 0, disc_rev = 0,
                          disc_instance = 0, disc_logical_inst = 0\<rparr>\<rparr>],
     asic_options = zero_options\<rparr>"

lemma demo_asic_wf: "umr_asic_wf demo_asic"
  by (simp add: demo_asic_def umr_asic_wf_def umr_ip_block_wf_def umr_reg_wf_def
      umr_bitfield_wf_def zero_config_def cstring_def)

lemma length_enc_demo: "length (enc_asic demo_asic) = 2536"
  by (simp add: demo_asic_def enc_asic_def enc_header_def enc_ip_def enc_reg_def enc_bit_def
      enc_name_def zero_config_def length_concat sum_list_replicate)


subsection \<open>Parsing untrusted bytes\<close>

lemma safe_reader_name: "unat n \<le> 4096 \<Longrightarrow> safe_reader (read_name n) (\<lambda>_. True)"
  unfolding read_name_def [abs_def]
  by (rule safe_reader_bind [OF safe_reader_data safe_reader_Some]) simp_all

lemma safe_reader_uint64: "safe_reader read_uint64 (\<lambda>_. True)"
  unfolding read_uint64_def [abs_def]
  by (intro safe_reader_bind [OF safe_reader_uint32] safe_reader_Some) simp

lemmas safe_intros = safe_reader_bind [OF safe_reader_uint32] safe_reader_bind [OF safe_reader_uint64]
  safe_reader_bind [OF safe_reader_name] safe_reader_bind [OF safe_reader_n] safe_reader_Some

lemma safe_reader_bit: "safe_reader parse_bit (\<lambda>_. True)"
  unfolding parse_bit_def [abs_def] by (intro safe_intros) simp_all

lemma safe_reader_reg: "safe_reader parse_reg (\<lambda>_. True)"
  unfolding parse_reg_def [abs_def] by (intro safe_intros safe_reader_bit) simp_all

lemma safe_reader_ip: "safe_reader parse_ip (\<lambda>_. True)"
  unfolding parse_ip_def [abs_def] by (intro safe_intros safe_reader_reg) simp_all

lemma length_words_of_bytes [simp]: "length (words_of_bytes n bs) = n"
  by (induction n arbitrary: bs) auto

lemma safe_reader_body:
  "safe_reader (parse_body name did family vgpr cfg) (\<lambda>a. length (cfg_data (asic_config a)) = 512)"
  unfolding parse_body_def [abs_def] by (intro safe_intros safe_reader_ip) simp_all

lemma safe_reader_stream:
  "safe_reader parse_stream (\<lambda>r. \<forall>a. r = Some a \<longrightarrow> length (cfg_data (asic_config a)) = 512)"
  unfolding parse_stream_def [abs_def]
  by (intro safe_intros safe_reader_if safe_reader_bind [OF safe_reader_data]
      safe_reader_bind [OF safe_reader_body]) (simp_all add: word_le_nat_alt)



end
