(* ===== verification/Expr_Match.thy ===== *)
theory Expr_Match
  imports Umr_Prelude
begin

text \<open>
  The two string comparisons of \<^verbatim>\<open>src/lib/find_reg.c\<close>: the case-insensitive order
  \<^verbatim>\<open>istr_cmp\<close> that the register database is sorted by, and the wildcard matcher
  \<^verbatim>\<open>expression_matches\<close> with its single backtracking point.  A character pointer
  is the suffix of the string it points at; its end is the NUL terminator.
\<close>

subsection \<open>Case folding and comparison\<close>

text \<open>\<^verbatim>\<open>toupper\<close> in the C locale.\<close>

definition toupper :: "char \<Rightarrow> char" where
  "toupper c =
     (if of_char c \<ge> (97::nat) \<and> of_char c \<le> (122::nat) then char_of (of_char c - (32::nat)) else c)"

abbreviation upcode :: "char \<Rightarrow> int" where
  "upcode c \<equiv> int (of_char (toupper c))"

fun istr_cmp :: "string \<Rightarrow> string \<Rightarrow> int" where
  "istr_cmp [] [] = 0"
| "istr_cmp [] (b # _) = 0 - upcode b"
| "istr_cmp (a # _) [] = upcode a - 0"
| "istr_cmp (a # as) (b # bs) =
     (if upcode a \<noteq> upcode b then upcode a - upcode b else istr_cmp as bs)"

lemma upcode_eq [simp]: "upcode a = upcode b \<longleftrightarrow> toupper a = toupper b"
  by (simp add: of_char_eq_iff)

lemma toupper_NUL [simp]: "toupper c = CHR 0x00 \<longleftrightarrow> c = CHR 0x00"
proof -
  have "char_of (of_char c - (32::nat)) \<noteq> CHR 0x00" if "(97::nat) \<le> of_char c" "of_char c \<le> (122::nat)"
  proof
    assume "char_of (of_char c - (32::nat)) = CHR 0x00"
    then have "of_char (char_of (of_char c - (32::nat)) :: char) = (0::nat)" by simp
    then show False using that by simp
  qed
  then show ?thesis by (auto simp: toupper_def)
qed

lemma of_char_0_iff: "of_char c = (0::nat) \<longleftrightarrow> c = CHR 0x00"
proof
  assume "of_char c = (0::nat)"
  then have "of_char c = (of_char (CHR 0x00) :: nat)" by simp
  then show "c = CHR 0x00" by (rule of_char_eqI)
qed simp

lemma upcode_pos: "c \<noteq> CHR 0x00 \<Longrightarrow> 0 < upcode c"
  using of_char_0_iff [of "toupper c"] toupper_NUL [of c] by auto

text \<open>The comparison is zero exactly on strings that agree up to case, and its sign is
  that of the lexicographic order of the folded strings.\<close>

fun folded_less :: "string \<Rightarrow> string \<Rightarrow> bool" where
  "folded_less _ [] = False"
| "folded_less [] (b # _) = True"
| "folded_less (a # as) (b # bs) =
     (if toupper a = toupper b then folded_less as bs else upcode a < upcode b)"

lemma istr_cmp_eq_0_iff:
  "cstring s \<Longrightarrow> cstring t \<Longrightarrow> istr_cmp s t = 0 \<longleftrightarrow> map toupper s = map toupper t"
proof (induction s t rule: istr_cmp.induct)
  case (2 b bs)
  then show ?case using upcode_pos [of b] by simp
next
  case (3 a as)
  then show ?case using upcode_pos [of a] by simp
qed simp_all

lemma istr_cmp_neg_iff:
  "cstring s \<Longrightarrow> cstring t \<Longrightarrow> istr_cmp s t < 0 \<longleftrightarrow> folded_less s t"
proof (induction s t rule: istr_cmp.induct)
  case (2 b bs)
  then show ?case using upcode_pos [of b] by simp
next
  case (3 a as)
  then show ?case using upcode_pos [of a] by simp
qed simp_all

lemma folded_less_irrefl [simp]: "\<not> folded_less s s"
  by (induction s) auto

lemma folded_less_trans: "folded_less s t \<Longrightarrow> folded_less t u \<Longrightarrow> folded_less s u"
proof (induction s t arbitrary: u rule: folded_less.induct)
  case (2 b bs)
  then show ?case by (cases u) auto
next
  case (3 a as b bs)
  then show ?case by (cases u) (auto split: if_splits)
qed simp

lemma folded_less_total:
  "folded_less s t \<or> folded_less t s \<or> map toupper s = map toupper t"
proof (induction s t rule: folded_less.induct)
  case (1 s)
  then show ?case by (cases s) auto
next
  case (3 a as b bs)
  then show ?case by (auto simp: not_less le_less)
qed simp

lemma folded_less_cong:
  "map toupper s = map toupper s' \<Longrightarrow> map toupper t = map toupper t' \<Longrightarrow>
   folded_less s t = folded_less s' t'"
proof (induction s t arbitrary: s' t' rule: folded_less.induct)
  case (1 s)
  then show ?case by simp
next
  case (2 b bs)
  then show ?case by (cases t') auto
next
  case (3 a as b bs)
  then show ?case by (cases s'; cases t') auto
qed

subsection \<open>Wildcard matching\<close>

text \<open>The reference: \<open>*\<close> stands for any string, \<open>?\<close> for any one character, other
  characters for themselves in either case.\<close>

fun glob :: "string \<Rightarrow> string \<Rightarrow> bool" where
  "glob [] s = (s = [])"
| "glob (c # p) [] = (c = CHR ''*'' \<and> glob p [])"
| "glob (c # p) (x # s) =
     (if c = CHR ''*'' then glob p (x # s) \<or> glob (c # p) s
      else (c = CHR ''?'' \<or> toupper c = toupper x) \<and> glob p s)"

text \<open>The first loop runs up to the first star: \<open>Inl\<close> is its early return.\<close>

fun match_head :: "string \<Rightarrow> string \<Rightarrow> bool + (string \<times> string)" where
  "match_head [] p = Inr ([], p)"
| "match_head (x # s) [] = Inl False"
| "match_head (x # s) (c # p) =
     (if c = CHR ''*'' then Inr (x # s, c # p)
      else if toupper c \<noteq> toupper x \<and> c \<noteq> CHR ''?'' then Inl False
      else match_head s p)"

text \<open>
  The second loop.  \<open>mp\<close> is the pattern after the last star and \<open>cp\<close> the place to
  resume from; both are NULL until a star is seen, and falling bk to a NULL \<open>mp\<close>
  would be a fault (\<open>None\<close>).  The result is the early return or the pattern left over.
\<close>

lemma length_tl_less: "length xs - Suc 0 < length xs \<longleftrightarrow> xs \<noteq> []"
  by (cases xs) auto

function match_tail :: "string \<Rightarrow> string \<Rightarrow> (string \<times> string) option \<Rightarrow> (bool + string) option" where
  "match_tail [] p bk = Some (Inr p)"
| "match_tail (x # s) p bk =
     (case p of
        c # p' \<Rightarrow>
          if c = CHR ''*'' then
            (if p' = [] then Some (Inl True) else match_tail (x # s) p' (Some (p', s)))
          else if toupper c = toupper x \<or> c = CHR ''?'' then match_tail s p' bk
          else (case bk of None \<Rightarrow> None | Some (mp, cp) \<Rightarrow> match_tail cp mp (Some (mp, tl cp)))
      | [] \<Rightarrow> (case bk of None \<Rightarrow> None | Some (mp, cp) \<Rightarrow> match_tail cp mp (Some (mp, tl cp))))"
  by pat_completeness auto
termination
  by (relation "measures [\<lambda>(s, p, bk). max (length p) (case bk of None \<Rightarrow> 0 | Some (mp, cp) \<Rightarrow> length mp),
        \<lambda>(s, p, bk). (case bk of None \<Rightarrow> 0 | Some (mp, cp) \<Rightarrow> length cp), \<lambda>(s, p, bk). length s]")
    (auto simp: max_def length_tl_less split: option.splits prod.splits)

definition expression_matches :: "string \<Rightarrow> string \<Rightarrow> bool option" where
  "expression_matches str pattern =
     (case match_head str pattern of
        Inl b \<Rightarrow> Some b
      | Inr (s, p) \<Rightarrow>
          (case match_tail s p None of
             None \<Rightarrow> None
           | Some (Inl b) \<Rightarrow> Some b
           | Some (Inr rest) \<Rightarrow> Some (dropWhile (\<lambda>c. c = CHR ''*'') rest = [])))"

subsection \<open>The matcher decides the reference\<close>

abbreviation star_free :: "string \<Rightarrow> bool" where
  "star_free u \<equiv> CHR ''*'' \<notin> set u"

lemma glob_star: "glob (CHR ''*'' # p) s \<longleftrightarrow> (\<exists>k \<le> length s. glob p (drop k s))"
proof (induction s)
  case Nil
  then show ?case by simp
next
  case (Cons x s)
  have "(\<exists>k \<le> length (x # s). glob p (drop k (x # s))) \<longleftrightarrow>
      glob p (x # s) \<or> (\<exists>k \<le> length s. glob p (drop k s))"
  proof
    assume "\<exists>k \<le> length (x # s). glob p (drop k (x # s))"
    then obtain k where "k \<le> length (x # s)" "glob p (drop k (x # s))" by blast
    then show "glob p (x # s) \<or> (\<exists>k \<le> length s. glob p (drop k s))" by (cases k) auto
  next
    assume "glob p (x # s) \<or> (\<exists>k \<le> length s. glob p (drop k s))"
    then show "\<exists>k \<le> length (x # s). glob p (drop k (x # s))"
    proof
      assume "glob p (x # s)"
      then show ?thesis by (intro exI [of _ 0]) simp
    next
      assume "\<exists>k \<le> length s. glob p (drop k s)"
      then obtain k where "k \<le> length s" "glob p (drop k s)" by blast
      then show ?thesis by (intro exI [of _ "Suc k"]) simp
    qed
  qed
  then show ?case using Cons by simp
qed

lemma glob_star_drop: "glob (CHR ''*'' # p) (drop k s) \<Longrightarrow> glob (CHR ''*'' # p) s"
  by (auto simp: glob_star)
    (metis add.commute drop_drop drop_all glob_star le_cases nat_le_linear)

lemma glob_star_free_prefix:
  "star_free u \<Longrightarrow> glob (u @ q) t \<Longrightarrow> length u \<le> length t \<and> glob q (drop (length u) t)"
proof (induction u arbitrary: t)
  case Nil
  then show ?case by simp
next
  case (Cons c u)
  then show ?case by (cases t) auto
qed

lemma glob_all_stars: "glob p [] \<longleftrightarrow> dropWhile (\<lambda>c. c = CHR ''*'') p = []"
  by (induction p) auto

text \<open>
  Between two stars the matcher keeps this invariant: the pattern since the last star is
  the part \<open>u\<close> already matched followed by what is left, and \<open>u\<close> covers exactly the
  string between one before the resume point and the current place.
\<close>

definition match_inv :: "string \<Rightarrow> string \<Rightarrow> string \<Rightarrow> string \<Rightarrow> bool" where
  "match_inv s p mp cp \<longleftrightarrow>
     (\<exists>u. star_free u \<and> mp = u @ p \<and> length s + length u = Suc (length cp) \<and>
        (\<exists>x. s = drop (length u) (x # cp))) \<or>
     (s = [] \<and> cp = [] \<and> p = mp)"

definition tail_result :: "(bool + string) option \<Rightarrow> bool option" where
  "tail_result r = (case r of None \<Rightarrow> None | Some (Inl b) \<Rightarrow> Some b
     | Some (Inr rest) \<Rightarrow> Some (dropWhile (\<lambda>c. c = CHR ''*'') rest = []))"

text \<open>A later resume point cannot succeed where the current star could not.\<close>

lemma match_inv_star:
  assumes "match_inv s (CHR ''*'' # q) mp cp" and "s \<noteq> []" and "glob (CHR ''*'' # mp) cp"
  shows "glob (CHR ''*'' # q) s"
proof -
  from assms(1,2) obtain u x where u: "star_free u" "mp = u @ CHR ''*'' # q"
      "s = drop (length u) (x # cp)"
    unfolding match_inv_def by blast
  from assms(3) obtain k where "k \<le> length cp" "glob mp (drop k cp)"
    by (auto simp: glob_star)
  with u have g: "glob (CHR ''*'' # q) (drop (length u) (drop k cp))"
    using glob_star_free_prefix by blast
  have "drop (length u) (drop k cp) = drop (Suc k) s"
    by (simp add: u(3) add.commute)
  with g show ?thesis by (metis glob_star_drop)
qed

lemma match_inv_end:
  assumes "match_inv [] p mp cp" and "glob (CHR ''*'' # mp) cp"
  shows "glob p []"
  using assms(1) unfolding match_inv_def
proof
  assume "\<exists>u. star_free u \<and> mp = u @ p \<and> length [] + length u = Suc (length cp) \<and>
     (\<exists>x. [] = drop (length u) (x # cp))"
  then obtain u where u: "star_free u" "mp = u @ p" "length u = Suc (length cp)" by auto
  from assms(2) obtain k where "glob mp (drop k cp)" by (auto simp: glob_star)
  with u have "length u \<le> length (drop k cp)" using glob_star_free_prefix by blast
  with u(3) show ?thesis by simp
next
  assume "[] = [] \<and> cp = [] \<and> p = mp"
  then show ?thesis using assms(2) by (simp add: glob_star)
qed

lemma glob_resume: "glob mp cp \<or> glob (CHR ''*'' # mp) (tl cp) \<longleftrightarrow> glob (CHR ''*'' # mp) cp"
  by (cases cp) auto

lemma match_inv_resume: "match_inv cp mp mp (tl cp)"
proof (cases cp)
  case Nil
  then show ?thesis by (simp add: match_inv_def)
next
  case (Cons y cp')
  then have "\<exists>x. cp = drop (length []) (x # tl cp)" by simp
  then show ?thesis unfolding match_inv_def using Cons by force
qed

lemma match_inv_advance:
  assumes "match_inv (x # s) (c # p) mp cp" and "c \<noteq> CHR ''*''"
  shows "match_inv s p mp cp"
proof -
  from assms(1) obtain u y where u: "star_free u" "mp = u @ c # p"
      "length (x # s) + length u = Suc (length cp)" "x # s = drop (length u) (y # cp)"
    unfolding match_inv_def by blast
  have "s = drop (length (u @ [c])) (y # cp)"
    using u(4) by (metis drop_Suc length_append_singleton list.sel(3) tl_drop)
  then show ?thesis
    unfolding match_inv_def using u assms(2) by (intro disjI1 exI [of _ "u @ [c]"]) auto
qed

lemma match_tail_correct:
  "match_inv s p mp cp \<Longrightarrow>
   tail_result (match_tail s p (Some (mp, cp))) = Some (glob p s \<or> glob (CHR ''*'' # mp) cp)"
proof (induction s p "Some (mp, cp)" arbitrary: mp cp rule: match_tail.induct)
  case (1 p)
  then show ?case using match_inv_end [OF 1] glob_all_stars [of p] by (auto simp: tail_result_def)
next
  case (2 x s p)
  show ?case
  proof (cases p)
    case Nil
    then show ?thesis
      using "2.hyps"(1) [OF Nil refl refl match_inv_resume] glob_resume by auto
  next
    case (Cons c q)
    consider "c = CHR ''*''" "q = []" | "c = CHR ''*''" "q \<noteq> []"
      | "c \<noteq> CHR ''*''" "toupper c = toupper x \<or> c = CHR ''?''"
      | "c \<noteq> CHR ''*''" "\<not> (toupper c = toupper x \<or> c = CHR ''?'')" by blast
    then show ?thesis
    proof cases
      case 1
      have "glob (c # q) (x # s)"
        using 1 by (auto simp: glob_star simp del: glob.simps(3) intro!: exI [of _ "Suc (length s)"])
      then show ?thesis using 1 Cons by (simp add: tail_result_def)
    next
      case 2
      have "match_inv (x # s) q q s"
        unfolding match_inv_def by (intro disjI1 exI [of _ "[]"]) auto
      from "2.hyps"(2) [OF Cons 2 this]
      show ?thesis using match_inv_star [OF "2.prems" [unfolded Cons 2]] Cons 2 by auto
    next
      case 3
      from "2.hyps"(3) [OF Cons 3 match_inv_advance [OF "2.prems" [unfolded Cons] 3(1)]]
      show ?thesis using Cons 3 by auto
    next
      case 4
      from "2.hyps"(4) [OF Cons 4 refl refl match_inv_resume]
      show ?thesis using glob_resume [of mp cp] Cons 4 by auto
    qed
  qed
qed

lemma match_head_Inl: "match_head s p = Inl b \<Longrightarrow> \<not> b \<and> \<not> glob p s"
  by (induction s p rule: match_head.induct) (auto split: if_splits)

lemma match_head_Inr:
  "match_head s p = Inr (s', p') \<Longrightarrow>
   (glob p s = glob p' s') \<and> (s' = [] \<or> (\<exists>q. p' = CHR ''*'' # q))"
  by (induction s p rule: match_head.induct) (auto split: if_splits)

lemma match_tail_start:
  assumes "s = [] \<or> (\<exists>q. p = CHR ''*'' # q)"
  shows "tail_result (match_tail s p None) = Some (glob p s)"
proof (cases s)
  case Nil
  then show ?thesis by (simp add: tail_result_def glob_all_stars)
next
  case (Cons x t)
  then obtain q where p: "p = CHR ''*'' # q" using assms by auto
  show ?thesis
  proof (cases "q = []")
    case True
    then have "glob p s"
      using p by (auto simp: glob_star simp del: glob.simps(3) intro!: exI [of _ "length s"])
    then show ?thesis using p True Cons by (simp add: tail_result_def)
  next
    case False
    have "match_inv (x # t) q q t"
      unfolding match_inv_def by (intro disjI1 exI [of _ "[]"]) auto
    from match_tail_correct [OF this] show ?thesis using p False Cons by simp
  qed
qed

lemma expression_matches_glob: "expression_matches str pattern = Some (glob pattern str)"
proof (cases "match_head str pattern")
  case (Inl b)
  then show ?thesis using match_head_Inl by (auto simp: expression_matches_def)
next
  case (Inr sp)
  obtain s p where sp: "sp = (s, p)" by (cases sp)
  with Inr match_head_Inr [of str pattern s p]
  have "tail_result (match_tail s p None) = Some (glob pattern str)"
    using match_tail_start [of s p] by auto
  then show ?thesis
    by (simp add: expression_matches_def Inr sp tail_result_def split: option.splits sum.splits)
qed

text \<open>C3: The wildcard matcher of register names decides the usual meaning of \<open>*\<close> and
  \<open>?\<close> up to letter case, on every string and pattern: it terminates, it never falls back
  through a NULL pointer, and keeping only the last star as a resume point loses no
  match.\<close>

theorem expression_matches_correct:
  "expression_matches str pattern = Some (glob pattern str)"
  by (rule expression_matches_glob)

end
