(* ===== verification/Lower_Bound.thy ===== *)
theory Lower_Bound
  imports Umr_Prelude
begin

text \<open>
  The binary search loop that \<^verbatim>\<open>src/lib/find_reg.c\<close> writes out twice, once over the
  register names of an IP block and once over the MMIO lookup table, and the contract
  its two clients rely on: over a table sorted by a strict weak order it finds the
  first entry equivalent to the key, or that there is none.
\<close>

text \<open>
  \<^verbatim>\<open>while (bot < top) { mid = (bot + top) >> 1; if (below mid) bot = mid + 1; else top = mid; }\<close>
\<close>

function lower_bound :: "(nat \<Rightarrow> bool) \<Rightarrow> nat \<Rightarrow> nat \<Rightarrow> nat" where
  "lower_bound below lo hi =
     (if lo < hi then
        (let mid = (lo + hi) div 2 in
         if below mid then lower_bound below (mid + 1) hi else lower_bound below lo mid)
      else lo)"
  by pat_completeness auto
termination
  by (relation "measure (\<lambda>(below, lo, hi). hi - lo)") auto

declare lower_bound.simps [simp del]

lemma lower_bound_split:
  assumes "lo \<le> hi" and "\<And>i j. i \<le> j \<Longrightarrow> j < hi \<Longrightarrow> below j \<Longrightarrow> below i"
  shows "lo \<le> lower_bound below lo hi \<and> lower_bound below lo hi \<le> hi \<and>
    (\<forall>i. lo \<le> i \<and> i < lower_bound below lo hi \<longrightarrow> below i) \<and>
    (\<forall>i. lower_bound below lo hi \<le> i \<and> i < hi \<longrightarrow> \<not> below i)"
  using assms
proof (induction below lo hi rule: lower_bound.induct)
  case (1 below lo hi)
  show ?case
  proof (cases "lo < hi")
    case False
    then have "lower_bound below lo hi = lo" by (simp add: lower_bound.simps [of below lo hi])
    then show ?thesis using "1.prems" False by auto
  next
    case lt: True
    define mid where "mid = (lo + hi) div 2"
    have mid: "lo \<le> mid" "mid < hi" using lt by (auto simp: mid_def)
    show ?thesis
    proof (cases "below mid")
      case True
      have e: "lower_bound below lo hi = lower_bound below (mid + 1) hi"
        using lt True by (simp add: lower_bound.simps [of below lo hi] mid_def Let_def)
      have "mid + 1 \<le> lower_bound below (mid + 1) hi \<and> lower_bound below (mid + 1) hi \<le> hi \<and>
        (\<forall>i. mid + 1 \<le> i \<and> i < lower_bound below (mid + 1) hi \<longrightarrow> below i) \<and>
        (\<forall>i. lower_bound below (mid + 1) hi \<le> i \<and> i < hi \<longrightarrow> \<not> below i)"
        using "1.IH"(1) [OF lt mid_def True] mid "1.prems"(2) by auto
      moreover have "below i" if "i < mid + 1" for i
        using "1.prems"(2) [of i mid] that mid True by simp
      ultimately show ?thesis unfolding e using mid by (meson not_less order.trans trans_le_add1)
    next
      case False
      have e: "lower_bound below lo hi = lower_bound below lo mid"
        using lt False by (simp add: lower_bound.simps [of below lo hi] mid_def Let_def)
      have "lo \<le> lower_bound below lo mid \<and> lower_bound below lo mid \<le> mid \<and>
        (\<forall>i. lo \<le> i \<and> i < lower_bound below lo mid \<longrightarrow> below i) \<and>
        (\<forall>i. lower_bound below lo mid \<le> i \<and> i < mid \<longrightarrow> \<not> below i)"
        using "1.IH"(2) [OF lt mid_def False] mid "1.prems"(2) by auto
      moreover have "\<not> below i" if "mid \<le> i" "i < hi" for i
        using "1.prems"(2) [of mid i] that False by blast
      ultimately show ?thesis unfolding e using mid by (meson not_less order.trans less_imp_le)
    qed
  qed
qed

subsection \<open>Search in a sorted table\<close>

text \<open>\<open>search_table below same n\<close>: the loop followed by the equality test that both
  clients make.\<close>

definition search_table :: "(nat \<Rightarrow> bool) \<Rightarrow> (nat \<Rightarrow> bool) \<Rightarrow> nat \<Rightarrow> nat option" where
  "search_table below same n =
     (let lo = lower_bound below 0 n in if lo < n \<and> same lo then Some lo else None)"

lemma lower_bound_cong:
  "(\<And>i. i < hi \<Longrightarrow> below i = below' i) \<Longrightarrow> lower_bound below lo hi = lower_bound below' lo hi"
proof (induction below lo hi rule: lower_bound.induct)
  case (1 below lo hi)
  show ?case
  proof (cases "lo < hi")
    case True
    then have mid: "(lo + hi) div 2 < hi" by simp
    have "lower_bound below ((lo + hi) div 2 + 1) hi = lower_bound below' ((lo + hi) div 2 + 1) hi"
        if "below ((lo + hi) div 2)"
      using "1.IH"(1) [OF True refl that] "1.prems" by blast
    moreover have "lower_bound below lo ((lo + hi) div 2) = lower_bound below' lo ((lo + hi) div 2)"
        if "\<not> below ((lo + hi) div 2)"
      using "1.IH"(2) [OF True refl that] "1.prems" mid by simp
    ultimately show ?thesis
      using True "1.prems" [OF mid]
      by (simp add: lower_bound.simps [of below lo hi] lower_bound.simps [of below' lo hi] Let_def)
  qed (simp add: lower_bound.simps [of _ lo hi])
qed

lemma search_table_cong:
  assumes "\<And>i. i < n \<Longrightarrow> below i = below' i" and "\<And>i. i < n \<Longrightarrow> same i = same' i"
  shows "search_table below same n = search_table below' same' n"
  using lower_bound_cong [of n below below' 0] assms by (auto simp: search_table_def Let_def)

text \<open>A strict weak order on the keys that matter (those satisfying \<open>ok\<close>), and the
  equivalence the client tests.\<close>

locale weak_order =
  fixes less :: "'k \<Rightarrow> 'k \<Rightarrow> bool" and equiv :: "'k \<Rightarrow> 'k \<Rightarrow> bool" and ok :: "'k \<Rightarrow> bool"
  assumes less_irrefl: "ok a \<Longrightarrow> \<not> less a a"
    and less_trans: "ok a \<Longrightarrow> ok b \<Longrightarrow> ok c \<Longrightarrow> less a b \<Longrightarrow> less b c \<Longrightarrow> less a c"
    and equiv_iff: "ok a \<Longrightarrow> ok b \<Longrightarrow> equiv a b \<longleftrightarrow> \<not> less a b \<and> \<not> less b a"
    and equiv_less: "ok a \<Longrightarrow> ok b \<Longrightarrow> ok c \<Longrightarrow> equiv a b \<Longrightarrow> less b c \<Longrightarrow> less a c"
begin

definition sorted_keys :: "'k list \<Rightarrow> bool" where
  "sorted_keys ks \<longleftrightarrow> list_all ok ks \<and> sorted_wrt (\<lambda>a b. \<not> less b a) ks"

lemma sorted_keys_nth:
  "sorted_keys ks \<Longrightarrow> i \<le> j \<Longrightarrow> j < length ks \<Longrightarrow> \<not> less (ks ! j) (ks ! i)"
  by (cases "i = j") (auto simp: sorted_keys_def list_all_length sorted_wrt_iff_nth_less less_irrefl)

lemma below_downward:
  assumes "sorted_keys ks" and "ok k" and "i \<le> j" and "j < length ks" and "less (ks ! j) k"
  shows "less (ks ! i) k"
proof -
  have o: "ok (ks ! i)" "ok (ks ! j)"
    using assms by (auto simp: sorted_keys_def list_all_length)
  have n: "\<not> less (ks ! j) (ks ! i)" using sorted_keys_nth assms by blast
  show ?thesis
  proof (cases "less (ks ! i) (ks ! j)")
    case True
    then show ?thesis using less_trans [OF o assms(2)] assms(5) by blast
  next
    case False
    then have "equiv (ks ! i) (ks ! j)" using n o equiv_iff by blast
    then show ?thesis using equiv_less [OF o assms(2)] assms(5) by blast
  qed
qed

lemma search_table_first:
  assumes s: "sorted_keys ks" and k: "ok k"
  shows "search_table (\<lambda>i. less (ks ! i) k) (\<lambda>i. equiv (ks ! i) k) (length ks) = Some r \<longleftrightarrow>
    r < length ks \<and> equiv (ks ! r) k \<and> (\<forall>i < r. \<not> equiv (ks ! i) k)"
proof -
  define lb where "lb = lower_bound (\<lambda>i. less (ks ! i) k) 0 (length ks)"
  note L = lower_bound_split [of 0 "length ks" "\<lambda>i. less (ks ! i) k", folded lb_def]
  have lb: "lb \<le> length ks" "\<And>i. i < lb \<Longrightarrow> less (ks ! i) k"
      "\<And>i. lb \<le> i \<Longrightarrow> i < length ks \<Longrightarrow> \<not> less (ks ! i) k"
    using L below_downward [OF s k] by blast+
  have okn: "ok (ks ! i)" if "i < length ks" for i
    using s that by (auto simp: sorted_keys_def list_all_length)
  have E: "\<not> equiv (ks ! i) k" if "i < lb" for i
    using that lb equiv_iff [OF okn k] by auto
  have F: "lb = r" if "r < length ks" "equiv (ks ! r) k" "\<forall>i < r. \<not> equiv (ks ! i) k"
  proof (rule ccontr)
    assume "lb \<noteq> r"
    with E that have "lb < r" by (metis linorder_neqE_nat)
    have "\<not> less (ks ! lb) k" using lb(3) [of lb] \<open>lb < r\<close> that(1) by simp
    moreover have "\<not> equiv (ks ! lb) k" using that(3) \<open>lb < r\<close> by blast
    ultimately have "less k (ks ! lb)" using equiv_iff okn k \<open>lb < r\<close> that(1) by auto
    then have "less (ks ! r) (ks ! lb)"
      using equiv_less [OF okn k okn] that \<open>lb < r\<close> by simp
    then show False using sorted_keys_nth [OF s, of lb r] \<open>lb < r\<close> that(1) by simp
  qed
  show ?thesis
    unfolding search_table_def lb_def [symmetric] Let_def using E F by auto
qed

lemma search_table_None:
  assumes s: "sorted_keys ks" and k: "ok k"
  shows "search_table (\<lambda>i. less (ks ! i) k) (\<lambda>i. equiv (ks ! i) k) (length ks) = None \<longleftrightarrow>
    (\<forall>i < length ks. \<not> equiv (ks ! i) k)"
proof
  assume none: "search_table (\<lambda>i. less (ks ! i) k) (\<lambda>i. equiv (ks ! i) k) (length ks) = None"
  show "\<forall>i < length ks. \<not> equiv (ks ! i) k"
  proof (rule ccontr)
    assume "\<not> (\<forall>i < length ks. \<not> equiv (ks ! i) k)"
    then obtain i where i: "i < length ks \<and> equiv (ks ! i) k" by blast
    define r where "r = (LEAST i. i < length ks \<and> equiv (ks ! i) k)"
    have "r < length ks \<and> equiv (ks ! r) k \<and> (\<forall>i < r. \<not> equiv (ks ! i) k)"
      unfolding r_def using LeastI [of "\<lambda>i. i < length ks \<and> equiv (ks ! i) k", OF i]
      by (metis (mono_tags, lifting) not_less_Least order.strict_trans)
    then show False using search_table_first [OF s k, of r] none by simp
  qed
next
  assume "\<forall>i < length ks. \<not> equiv (ks ! i) k"
  then show "search_table (\<lambda>i. less (ks ! i) k) (\<lambda>i. equiv (ks ! i) k) (length ks) = None"
    by (simp add: search_table_def Let_def)
qed

end

end
