(* ===== verification/Find_Reg.thy ===== *)
theory Find_Reg
  imports Umr_Types Expr_Match Lower_Bound "HOL-Library.Monad_Syntax"
begin

text \<open>
  Register lookup (\<^verbatim>\<open>src/lib/find_reg.c\<close>, \<^verbatim>\<open>src/lib/find_ip.c\<close>,
  \<^verbatim>\<open>src/lib/create_mmio_accel.c\<close>): by name with an optional IP block and instance,
  by wildcard through an iterator, and by address through a sorted lookup table.  A
  pointer to a register is the pair of its block index and its register index; the
  diagnostics the code prints are values.
\<close>

type_synonym reg_ref = "nat \<times> nat"

definition reg_at :: "umr_ip_block list \<Rightarrow> reg_ref \<Rightarrow> umr_reg" where
  "reg_at blocks r = ip_regs (blocks ! fst r) ! snd r"

definition valid_ref :: "umr_ip_block list \<Rightarrow> reg_ref \<Rightarrow> bool" where
  "valid_ref blocks r \<longleftrightarrow> fst r < length blocks \<and> snd r < length (ip_regs (blocks ! fst r))"

subsection \<open>Strings of the C library\<close>

fun strstr :: "string \<Rightarrow> string \<Rightarrow> bool" where
  "strstr [] n = (n = [])"
| "strstr (c # h) n = (take (length n) (c # h) = n \<or> strstr h n)"

text \<open>The decimal digits of \<^verbatim>\<open>%d\<close>, for the non-negative instance numbers.\<close>

fun dec_digits :: "nat \<Rightarrow> string" where
  "dec_digits n =
     (if n < 10 then [char_of (48 + n)] else dec_digits (n div 10) @ [char_of (48 + n mod 10)])"

declare dec_digits.simps [simp del]

definition inst_name :: "int \<Rightarrow> string" where
  "inst_name inst = (if inst \<ge> 0 then ''{'' @ dec_digits (nat inst) @ ''}'' else '''')"

subsection \<open>IP blocks\<close>

definition ip_prefix :: "string \<Rightarrow> string \<Rightarrow> bool" where
  "ip_prefix want name \<longleftrightarrow> take (length want) name = want"

fun umr_find_ip_block :: "umr_ip_block list \<Rightarrow> string \<Rightarrow> int \<Rightarrow> umr_ip_block option" where
  "umr_find_ip_block [] ipname inst = None"
| "umr_find_ip_block (b # bs) ipname inst =
     (if ip_prefix ipname (ip_ipname b) \<and>
         (inst < 0 \<or> sint (disc_logical_inst (ip_discoverable b)) = inst)
      then Some b else umr_find_ip_block bs ipname inst)"

subsection \<open>Lookup by name\<close>

definition block_skipped :: "string option \<Rightarrow> int \<Rightarrow> umr_ip_block \<Rightarrow> bool" where
  "block_skipped ip inst b \<longleftrightarrow>
     (case ip of None \<Rightarrow> False
      | Some p \<Rightarrow> length (ip_ipname b) \<ge> length p \<and> take (length p) (ip_ipname b) \<noteq> p) \<or>
     (inst \<ge> 0 \<and> \<not> strstr (ip_ipname b) (inst_name inst)) \<or>
     (inst < 0 \<and> inst \<noteq> - 2 \<and> strstr (ip_ipname b) ''{'')"

definition search_block :: "umr_ip_block \<Rightarrow> string \<Rightarrow> nat option" where
  "search_block b regname =
     search_table (\<lambda>i. istr_cmp (reg_regname (ip_regs b ! i)) regname < 0)
       (\<lambda>i. istr_cmp (reg_regname (ip_regs b ! i)) regname = 0) (length (ip_regs b))"

fun search_blocks :: "nat \<Rightarrow> umr_ip_block list \<Rightarrow> string option \<Rightarrow> int \<Rightarrow> string \<Rightarrow> reg_ref option" where
  "search_blocks i [] ip inst regname = None"
| "search_blocks i (b # bs) ip inst regname =
     (if block_skipped ip inst b then search_blocks (Suc i) bs ip inst regname
      else case search_block b regname of
             Some j \<Rightarrow> Some (i, j)
           | None \<Rightarrow> search_blocks (Suc i) bs ip inst regname)"

datatype find_msg = Quiet | Unsorted_database | Reg_not_found

text \<open>
  The lookup proper.  A name of 96 characters or more overruns the local copy, and an
  \<^verbatim>\<open>mm\<close> name of 95 leaves the rewritten \<^verbatim>\<open>reg\<close> name without a terminator: both are
  \<open>None\<close>.  A leading \<open>@\<close> suppresses the diagnostics; a name that starts with
  \<^verbatim>\<open>mm\<close> is retried with \<^verbatim>\<open>reg\<close> in its place; the first miss checks whether a
  linear scan would have found the register, which means the database is not sorted.
\<close>

definition umr_find_reg_data_by_ip_by_instance_with_ip ::
    "umr_asic \<Rightarrow> string option \<Rightarrow> int \<Rightarrow> string \<Rightarrow> (reg_ref option \<times> find_msg \<times> umr_asic) option" where
  "umr_find_reg_data_by_ip_by_instance_with_ip asic ip inst origname =
     (if length origname \<ge> 96 then None else
      let k = (origname \<noteq> [] \<and> hd origname = CHR ''@'');
          regname = (if k then tl origname else origname)
      in case search_blocks 0 (asic_blocks asic) ip inst regname of
           Some r \<Rightarrow> Some (Some r, Quiet, asic)
         | None \<Rightarrow>
             let mm = (take 2 regname = ''mm'');
                 regname' = (if mm then ''reg'' @ drop 2 regname else regname)
             in if mm \<and> length regname' \<ge> 96 then None
                else case (if mm then search_blocks 0 (asic_blocks asic) ip inst regname' else None) of
                  Some r \<Rightarrow> Some (Some r, Quiet, asic)
                | None \<Rightarrow>
                    if k then Some (None, Quiet, asic)
                    else if opt_trap_unsorted_db (asic_options asic) then Some (None, Reg_not_found, asic)
                    else
                      let asic' = asic\<lparr>asic_options := (asic_options asic)\<lparr>opt_trap_unsorted_db := True\<rparr>\<rparr>
                      in if \<exists>b \<in> set (asic_blocks asic). \<exists>r \<in> set (ip_regs b).
                              reg_regname r = regname' \<or> reg_regname r = origname
                         then Some (None, Unsorted_database, asic')
                         else Some (None, Reg_not_found, asic'))"

definition umr_find_reg_data_by_ip_by_instance where
  "umr_find_reg_data_by_ip_by_instance asic ip inst regname =
     umr_find_reg_data_by_ip_by_instance_with_ip asic ip inst regname"

definition umr_find_reg_by_name where
  "umr_find_reg_by_name asic regname =
     umr_find_reg_data_by_ip_by_instance_with_ip asic None (- 2) regname"

text \<open>
  \<^verbatim>\<open>strstr(ip, "{")\<close> followed by \<^verbatim>\<open>sscanf(p, "{%d}", &instance)\<close>: white space and
  a sign are accepted, and the instance keeps its initial \<open>- 1\<close> when no digit follows.
  A number that does not fit an \<^verbatim>\<open>int\<close> has no defined result.
\<close>

definition is_digit :: "char \<Rightarrow> bool" where
  "is_digit c \<longleftrightarrow> 48 \<le> (of_char c :: nat) \<and> (of_char c :: nat) \<le> 57"

fun dec_value :: "nat \<Rightarrow> string \<Rightarrow> nat \<times> bool" where
  "dec_value acc [] = (acc, False)"
| "dec_value acc (c # cs) =
     (if is_digit c then (fst (dec_value (10 * acc + (of_char c - 48)) cs), True)
      else (acc, False))"

definition is_space :: "char \<Rightarrow> bool" where
  "is_space c \<longleftrightarrow> c = CHR '' '' \<or> (9 \<le> (of_char c :: nat) \<and> (of_char c :: nat) \<le> 13)"

definition scan_dec :: "string \<Rightarrow> int option" where
  "scan_dec s =
     (let t = dropWhile is_space s;
          neg = (t \<noteq> [] \<and> hd t = CHR ''-'');
          u = (if t \<noteq> [] \<and> (hd t = CHR ''-'' \<or> hd t = CHR ''+'') then tl t else t)
      in if snd (dec_value 0 u) then Some (if neg then - int (fst (dec_value 0 u)) else int (fst (dec_value 0 u)))
         else None)"

definition ip_instance :: "string \<Rightarrow> int option" where
  "ip_instance ip =
     (case dropWhile (\<lambda>c. c \<noteq> CHR ''{'') ip of
        [] \<Rightarrow> Some (- 1)
      | _ # s \<Rightarrow> (case scan_dec s of
                   None \<Rightarrow> Some (- 1)
                 | Some n \<Rightarrow> if - (2 ^ 31) \<le> n \<and> n < 2 ^ 31 then Some n else None))"

definition umr_find_reg_data_by_ip ::
    "umr_asic \<Rightarrow> string option \<Rightarrow> string \<Rightarrow> (reg_ref option \<times> find_msg \<times> umr_asic) option" where
  "umr_find_reg_data_by_ip asic ip regname = do {
     inst \<leftarrow> (case ip of None \<Rightarrow> Some (- 1) | Some s \<Rightarrow> ip_instance s);
     umr_find_reg_data_by_ip_by_instance asic ip inst regname }"

text \<open>\<^verbatim>\<open>umr_find_reg\<close>: the 32 bit offset, all ones when there is none.\<close>

definition umr_find_reg :: "umr_asic \<Rightarrow> string \<Rightarrow> (u32 \<times> umr_asic) option" where
  "umr_find_reg asic regname = do {
     (r, m, asic') \<leftarrow> umr_find_reg_by_name asic regname;
     Some (case r of Some p \<Rightarrow> ucast (reg_addr (reg_at (asic_blocks asic) p)) | None \<Rightarrow> 0xFFFFFFFF, asic') }"

subsection \<open>Lookup by wildcard\<close>

record umr_find_reg_iter =
  it_ip :: "string option"
  it_reg :: string
  it_ip_i :: int
  it_reg_i :: int

definition umr_find_reg_wild_first :: "string option \<Rightarrow> string \<Rightarrow> umr_find_reg_iter" where
  "umr_find_reg_wild_first ip reg = \<lparr>it_ip = ip, it_reg = reg, it_ip_i = - 1, it_reg_i = - 1\<rparr>"

definition matches :: "string \<Rightarrow> string \<Rightarrow> bool" where
  "matches str pattern \<longleftrightarrow> expression_matches str pattern = Some True"

function wild_skip_ip :: "umr_ip_block list \<Rightarrow> string option \<Rightarrow> nat \<Rightarrow> nat" where
  "wild_skip_ip blocks ip i =
     (if i < length blocks \<and> (case ip of None \<Rightarrow> False | Some p \<Rightarrow> \<not> matches (ip_ipname (blocks ! i)) p)
      then wild_skip_ip blocks ip (Suc i) else i)"
  by pat_completeness auto
termination
  by (relation "measure (\<lambda>(blocks, ip, i). length blocks - i)") auto

function wild_scan_regs :: "umr_reg list \<Rightarrow> string \<Rightarrow> nat \<Rightarrow> nat option" where
  "wild_scan_regs regs pattern j =
     (if j < length regs then
        (if matches (reg_regname (regs ! j)) pattern then Some j else wild_scan_regs regs pattern (Suc j))
      else None)"
  by pat_completeness auto
termination
  by (relation "measure (\<lambda>(regs, pattern, j). length regs - j)") auto

declare wild_skip_ip.simps [simp del] wild_scan_regs.simps [simp del]

text \<open>
  One call of the iterator: \<open>None\<close> is the end of the search, after which the iterator is
  freed.  The loop either returns from the current block or moves to a later one.
\<close>

lemma wild_skip_ip_ge: "i \<le> wild_skip_ip blocks ip i"
  by (induction blocks ip i rule: wild_skip_ip.induct)
    (subst wild_skip_ip.simps, auto split: option.splits)

function umr_find_reg_wild_next ::
    "umr_ip_block list \<Rightarrow> umr_find_reg_iter \<Rightarrow> (reg_ref \<times> umr_find_reg_iter) option" where
  "umr_find_reg_wild_next blocks it =
     (let start = (if it_reg_i it = - 1
                   then (wild_skip_ip blocks (it_ip it) (nat (it_ip_i it + 1)), 0)
                   else (nat (it_ip_i it), nat (it_reg_i it)))
      in if fst start \<ge> length blocks then None
         else case wild_scan_regs (ip_regs (blocks ! fst start)) (it_reg it) (snd start) of
                Some j \<Rightarrow> Some ((fst start, j), it\<lparr>it_ip_i := int (fst start), it_reg_i := int j + 1\<rparr>)
              | None \<Rightarrow> umr_find_reg_wild_next blocks (it\<lparr>it_ip_i := int (fst start), it_reg_i := - 1\<rparr>))"
  by pat_completeness auto
termination
proof (relation "measures [\<lambda>(blocks, it). length blocks - nat (it_ip_i it + 1),
                           \<lambda>(blocks, it). if it_reg_i it = - 1 then 0 else 1]", goal_cases)
  case 1
  show ?case by simp
next
  case (2 blocks it start)
  then show ?case
    using wild_skip_ip_ge [of "nat (it_ip_i it + 1)" blocks "it_ip it"] by (auto split: if_splits)
qed

declare umr_find_reg_wild_next.simps [simp del]

subsection \<open>Lookup by address\<close>

text \<open>All registers in the order in which two nested loops visit them.\<close>

definition all_refs :: "umr_ip_block list \<Rightarrow> reg_ref list" where
  "all_refs blocks =
     concat (map (\<lambda>i. map (Pair i) [0..<length (ip_regs (blocks ! i))]) [0..<length blocks])"

record umr_mmio_accel_data =
  acc_mmio_addr :: u64
  acc_ord :: u32
  acc_ref :: reg_ref

definition sort_addr :: "umr_mmio_accel_data \<Rightarrow> umr_mmio_accel_data \<Rightarrow> int" where
  "sort_addr a b =
     (if acc_mmio_addr a > acc_mmio_addr b then 1
      else if acc_mmio_addr a < acc_mmio_addr b then - 1
      else if acc_ord a > acc_ord b then 1
      else if acc_ord a < acc_ord b then - 1
      else 0)"

text \<open>\<^verbatim>\<open>qsort\<close>: any sorting algorithm will do, since the comparison is a total order.\<close>

primrec qinsert :: "('a \<Rightarrow> 'a \<Rightarrow> int) \<Rightarrow> 'a \<Rightarrow> 'a list \<Rightarrow> 'a list" where
  "qinsert cmp x [] = [x]"
| "qinsert cmp x (y # ys) = (if cmp x y \<le> 0 then x # y # ys else y # qinsert cmp x ys)"

definition qsort :: "('a \<Rightarrow> 'a \<Rightarrow> int) \<Rightarrow> 'a list \<Rightarrow> 'a list" where
  "qsort cmp xs = foldr (qinsert cmp) xs []"

definition mmio_refs :: "umr_ip_block list \<Rightarrow> reg_ref list" where
  "mmio_refs blocks = filter (\<lambda>r. reg_type (reg_at blocks r) = REG_MMIO) (all_refs blocks)"

definition accel_entries :: "umr_ip_block list \<Rightarrow> umr_mmio_accel_data list" where
  "accel_entries blocks =
     map (\<lambda>(x, r). \<lparr>acc_mmio_addr = reg_addr (reg_at blocks r), acc_ord = of_nat x, acc_ref = r\<rparr>)
       (enumerate 0 (mmio_refs blocks))"

definition umr_create_mmio_accel :: "umr_ip_block list \<Rightarrow> umr_mmio_accel_data list" where
  "umr_create_mmio_accel blocks = qsort sort_addr (accel_entries blocks)"

definition umr_find_reg_by_addr ::
    "umr_ip_block list \<Rightarrow> umr_mmio_accel_data list option \<Rightarrow> u64 \<Rightarrow> reg_ref option" where
  "umr_find_reg_by_addr blocks accel addr =
     (case accel of
        Some tab \<Rightarrow>
          map_option (\<lambda>i. acc_ref (tab ! i))
            (search_table (\<lambda>i. acc_mmio_addr (tab ! i) < addr) (\<lambda>i. acc_mmio_addr (tab ! i) = addr)
               (length tab))
      | None \<Rightarrow>
          find (\<lambda>r. reg_type (reg_at blocks r) = REG_MMIO \<and> reg_addr (reg_at blocks r) = addr)
            (all_refs blocks))"

text \<open>\<^verbatim>\<open>umr_reg_name\<close>, with the terminal's colour codes as parameters.\<close>

definition umr_reg_name ::
    "string \<Rightarrow> string \<Rightarrow> umr_ip_block list \<Rightarrow> umr_mmio_accel_data list option \<Rightarrow> u64 \<Rightarrow> string" where
  "umr_reg_name RED RST blocks accel addr =
     (case umr_find_reg_by_addr blocks accel addr of
        Some r \<Rightarrow> RED @ ip_ipname (blocks ! fst r) @ ''.'' @ reg_regname (reg_at blocks r) @ RST
      | None \<Rightarrow> ''<unknown>'')"

subsection \<open>The two tables keep the search contract\<close>

interpretation by_addr: weak_order "(<) :: u64 \<Rightarrow> u64 \<Rightarrow> bool" "(=)" "\<lambda>_. True"
  by unfold_locales auto

interpretation by_name: weak_order "\<lambda>s t. istr_cmp s t < 0" "\<lambda>s t. istr_cmp s t = 0" cstring
proof unfold_locales
  fix a b c :: string
  assume ok: "cstring a" "cstring b" "cstring c"
  show "istr_cmp a b < 0 \<Longrightarrow> istr_cmp b c < 0 \<Longrightarrow> istr_cmp a c < 0"
    using ok folded_less_trans [of a b c] by (simp add: istr_cmp_neg_iff)
  show "istr_cmp a b = 0 \<Longrightarrow> istr_cmp b c < 0 \<Longrightarrow> istr_cmp a c < 0"
    using ok folded_less_cong [of a b c c] by (simp add: istr_cmp_neg_iff istr_cmp_eq_0_iff)
next
  fix a b :: string
  assume "cstring a" "cstring b"
  then show "(istr_cmp a b = 0) = (\<not> istr_cmp a b < 0 \<and> \<not> istr_cmp b a < 0)"
    using folded_less_total [of a b] folded_less_cong [of a b b b] folded_less_cong [of b b a b]
    by (auto simp: istr_cmp_neg_iff istr_cmp_eq_0_iff)
next
  fix a :: string
  assume "cstring a"
  then show "\<not> istr_cmp a a < 0" by (simp add: istr_cmp_neg_iff)
qed

lemma search_table_find:
  assumes "\<And>r. search_table below same (length xs) = Some r \<longleftrightarrow>
      r < length xs \<and> same r \<and> (\<forall>i < r. \<not> same i)"
    and "\<And>i. i < length xs \<Longrightarrow> same i = P (xs ! i)"
  shows "map_option ((!) xs) (search_table below same (length xs)) = find P xs"
proof (cases "search_table below same (length xs)")
  case None
  have "\<not> P x" if "x \<in> set xs" for x
  proof
    assume "P x"
    with that obtain i where i: "i < length xs \<and> same i" using assms(2) by (metis in_set_conv_nth)
    define r where "r = (LEAST i. i < length xs \<and> same i)"
    have "r < length xs \<and> same r \<and> (\<forall>i < r. \<not> same i)"
      unfolding r_def using LeastI [of "\<lambda>i. i < length xs \<and> same i", OF i]
      by (metis (mono_tags, lifting) not_less_Least order.strict_trans)
    then show False using assms(1) [of r] None by simp
  qed
  then have "find P xs = None" by (simp add: find_None_iff)
  with None show ?thesis by simp
next
  case (Some r)
  then have "r < length xs" "same r" "\<forall>i < r. \<not> same i" using assms(1) by blast+
  then have "find P xs = Some (xs ! r)" using assms(2) by (auto simp: find_Some_iff)
  with Some show ?thesis by simp
qed

subsection \<open>Sorting the lookup table\<close>

lemma set_qinsert [simp]: "set (qinsert cmp x ys) = insert x (set ys)"
  by (induction ys) auto

lemma set_qsort [simp]: "set (qsort cmp xs) = set xs"
  by (induction xs) (auto simp: qsort_def)

lemma sorted_qinsert:
  assumes tot: "\<And>a b. cmp a b \<le> 0 \<or> cmp b a \<le> 0"
    and tr: "\<And>a b c. cmp a b \<le> 0 \<Longrightarrow> cmp b c \<le> 0 \<Longrightarrow> cmp a c \<le> 0"
  shows "sorted_wrt (\<lambda>a b. cmp a b \<le> 0) ys \<Longrightarrow> sorted_wrt (\<lambda>a b. cmp a b \<le> (0::int)) (qinsert cmp x ys)"
proof (induction ys)
  case (Cons y ys)
  then show ?case using tot [of x y] by (auto intro: tr)
qed simp

lemma sorted_qsort:
  assumes "\<And>a b. cmp a b \<le> 0 \<or> cmp b a \<le> 0"
    and "\<And>a b c. cmp a b \<le> 0 \<Longrightarrow> cmp b c \<le> 0 \<Longrightarrow> cmp a c \<le> 0"
  shows "sorted_wrt (\<lambda>a b. cmp a b \<le> (0::int)) (qsort cmp xs)"
  by (induction xs) (auto simp: qsort_def intro: sorted_qinsert [OF assms])

lemma length_qinsert [simp]: "length (qinsert cmp x ys) = Suc (length ys)"
  by (induction ys) auto

lemma length_qsort [simp]: "length (qsort cmp xs) = length xs"
  by (induction xs) (auto simp: qsort_def)

lemma sort_addr_le:
  "sort_addr a b \<le> 0 \<longleftrightarrow> acc_mmio_addr a < acc_mmio_addr b \<or>
     acc_mmio_addr a = acc_mmio_addr b \<and> acc_ord a \<le> acc_ord b"
  by (auto simp: sort_addr_def)

lemma sorted_accel: "sorted_wrt (\<lambda>a b. sort_addr a b \<le> 0) (qsort sort_addr xs)"
  by (rule sorted_qsort) (auto simp: sort_addr_le)

lemma find_filter: "find P (filter Q xs) = find (\<lambda>x. Q x \<and> P x) xs"
  by (induction xs) auto

lemma find_hd_filter: "find P xs = (if filter P xs = [] then None else Some (hd (filter P xs)))"
  by (induction xs) auto

lemma accel_ords_sorted:
  assumes "length xs \<le> 2 ^ 32"
  shows "sorted_wrt (<) (map (\<lambda>(x, r). of_nat x :: u32) (enumerate 0 xs))"
  using assms
  by (auto simp: sorted_wrt_iff_nth_less nth_enumerate_eq word_less_nat_alt unat_of_nat_u32)

text \<open>Restricted to one address, the sorted table lists the entries in database order.\<close>

lemma accel_filter:
  assumes "length (mmio_refs blocks) \<le> 2 ^ 32"
  shows "filter (\<lambda>e. acc_mmio_addr e = a) (umr_create_mmio_accel blocks) =
         filter (\<lambda>e. acc_mmio_addr e = a) (accel_entries blocks)"
    (is "filter ?P ?S = filter ?P ?E")
proof -
  have ords: "sorted_wrt (<) (map acc_ord ?E)"
    using accel_ords_sorted [OF assms] by (simp add: accel_entries_def comp_def case_prod_unfold)
  then have dist: "distinct (map acc_ord ?E)" and srt: "sorted (map acc_ord ?E)"
    by (auto simp: strict_sorted_iff)
  have setS: "set ?S = set ?E" by (simp add: umr_create_mmio_accel_def)
  have distS: "distinct ?S"
    using dist setS by (metis card_distinct distinct_card distinct_map length_qsort umr_create_mmio_accel_def)
  have inj: "inj_on acc_ord (set ?E)" using dist by (simp add: distinct_map)
  have "sorted_wrt (\<lambda>x y. acc_ord x \<le> acc_ord y) (filter ?P ?S)"
  proof (rule sorted_wrt_mono_rel)
    show "sorted_wrt (\<lambda>x y. sort_addr x y \<le> 0) (filter ?P ?S)"
      unfolding umr_create_mmio_accel_def by (rule sorted_wrt_filter [OF sorted_accel])
  qed (auto simp: sort_addr_le)
  then have "sorted (map acc_ord (filter ?P ?S))" by (simp add: sorted_wrt_map)
  moreover have "sorted_wrt (\<lambda>x y. acc_ord x \<le> acc_ord y) (filter ?P ?E)"
    by (rule sorted_wrt_filter) (use srt in \<open>simp add: sorted_wrt_map\<close>)
  then have "sorted (map acc_ord (filter ?P ?E))" by (simp add: sorted_wrt_map)
  moreover have "distinct (map acc_ord (filter ?P ?E))" "distinct (map acc_ord (filter ?P ?S))"
    using inj dist distS setS by (auto simp: distinct_map intro: inj_on_subset)
  ultimately show ?thesis
    using inj setS by (intro map_sorted_distinct_set_unique [of acc_ord]) (auto intro: inj_on_subset)
qed

lemma find_accel_entries:
  "map_option acc_ref (find (\<lambda>e. acc_mmio_addr e = a) (accel_entries blocks)) =
   find (\<lambda>r. reg_addr (reg_at blocks r) = a) (mmio_refs blocks)"
proof -
  have "map_option acc_ref (find (\<lambda>e. acc_mmio_addr e = a)
      (map (\<lambda>(x, r). \<lparr>acc_mmio_addr = reg_addr (reg_at blocks r), acc_ord = of_nat x, acc_ref = r\<rparr>)
        (enumerate n rs))) = find (\<lambda>r. reg_addr (reg_at blocks r) = a) rs" for n rs
    by (induction rs arbitrary: n) auto
  then show ?thesis by (simp add: accel_entries_def)
qed


text \<open>A device for the witnesses: two blocks, the second one an instance.\<close>

definition demo_reg :: "string \<Rightarrow> regclass \<Rightarrow> u64 \<Rightarrow> umr_reg" where
  "demo_reg n t a = \<lparr>reg_regname = n, reg_type = t, reg_addr = a, reg_bits = [], reg_bit64 = 0, reg_value = 0\<rparr>"

definition demo_block :: "string \<Rightarrow> umr_reg list \<Rightarrow> umr_ip_block" where
  "demo_block n rs = \<lparr>ip_ipname = n, ip_regs = rs, ip_discoverable =
     \<lparr>disc_die = 0, disc_maj = 9, disc_min = 0, disc_rev = 0, disc_instance = 0, disc_logical_inst = 0\<rparr>\<rparr>"

definition demo_blocks :: "umr_ip_block list" where
  "demo_blocks =
     [demo_block ''df'' [demo_reg ''mmA_CNTL'' REG_MMIO 9, demo_reg ''mmB_CNTL'' REG_SMN 4],
      demo_block ''gfx90'' [demo_reg ''mmC_CNTL'' REG_MMIO 4, demo_reg ''regD_CNTL'' REG_MMIO 9]]"

definition demo_dev :: umr_asic where
  "demo_dev = \<lparr>asic_asicname = ''raven'', asic_did = 0, asic_family = FAMILY_AI, asic_is_apu = 1,
     asic_vgpr_granularity = 2, asic_config = zero_config, asic_blocks = demo_blocks,
     asic_options = zero_options\<rparr>"


subsection \<open>Lookup by name finds the first match\<close>

text \<open>What the binary search of a block relies on: NUL-free names in the order of
  \<open>istr_cmp\<close>.\<close>

definition db_sorted :: "umr_ip_block list \<Rightarrow> bool" where
  "db_sorted blocks \<longleftrightarrow>
     (\<forall>b \<in> set blocks. list_all (cstring \<circ> reg_regname) (ip_regs b) \<and>
        sorted_wrt (\<lambda>r q. \<not> istr_cmp (reg_regname q) (reg_regname r) < 0) (ip_regs b))"

definition same_name :: "string \<Rightarrow> string \<Rightarrow> bool" where
  "same_name s t \<longleftrightarrow> map toupper s = map toupper t"

definition name_hit :: "string option \<Rightarrow> int \<Rightarrow> string \<Rightarrow> umr_ip_block list \<Rightarrow> reg_ref \<Rightarrow> bool" where
  "name_hit ip inst regname blocks r \<longleftrightarrow>
     \<not> block_skipped ip inst (blocks ! fst r) \<and> same_name (reg_regname (reg_at blocks r)) regname"

lemma find_append: "find P (xs @ ys) = (case find P xs of None \<Rightarrow> find P ys | Some x \<Rightarrow> Some x)"
  by (induction xs) auto

lemma find_map: "find P (map f xs) = map_option f (find (P \<circ> f) xs)"
  by (induction xs) auto

lemma all_refs_Nil [simp]: "all_refs [] = []"
  by (simp add: all_refs_def)

lemma all_refs_Cons:
  "all_refs (b # bs) = map (Pair 0) [0..<length (ip_regs b)] @ map (apfst Suc) (all_refs bs)"
proof -
  have "[0..<length (b # bs)] = 0 # map Suc [0..<length bs]"
    by (simp add: map_Suc_upt upt_conv_Cons del: upt_Suc)
  then show ?thesis
    by (simp add: all_refs_def map_concat comp_def del: upt_Suc)
qed

lemma search_block_find:
  assumes "list_all (cstring \<circ> reg_regname) (ip_regs b)"
    and "sorted_wrt (\<lambda>r q. \<not> istr_cmp (reg_regname q) (reg_regname r) < 0) (ip_regs b)"
    and "cstring regname"
  shows "search_block b regname =
    find (\<lambda>j. same_name (reg_regname (ip_regs b ! j)) regname) [0..<length (ip_regs b)]"
proof -
  let ?ks = "map reg_regname (ip_regs b)"
  have "by_name.sorted_keys ?ks"
    unfolding by_name.sorted_keys_def using assms by (simp add: sorted_wrt_map list_all_iff)
  note first = by_name.search_table_first [OF this assms(3)]
  have cong: "search_table (\<lambda>i. istr_cmp (?ks ! i) regname < 0) (\<lambda>i. istr_cmp (?ks ! i) regname = 0)
      (length ?ks) = search_block b regname"
    unfolding search_block_def length_map by (rule search_table_cong) simp_all
  have same: "istr_cmp (?ks ! i) regname = 0 \<longleftrightarrow> same_name (reg_regname (ip_regs b ! i)) regname"
    if "i < length (ip_regs b)" for i
    using that assms by (simp add: same_name_def istr_cmp_eq_0_iff list_all_length)
  have "map_option ((!) [0..<length ?ks]) (search_table (\<lambda>i. istr_cmp (?ks ! i) regname < 0)
      (\<lambda>i. istr_cmp (?ks ! i) regname = 0) (length [0..<length ?ks])) =
    find (\<lambda>j. same_name (reg_regname (ip_regs b ! j)) regname) [0..<length ?ks]"
    by (rule search_table_find) (use first same in auto)
  moreover have "map_option ((!) [0..<length ?ks]) (search_block b regname) = search_block b regname"
    by (auto simp: search_block_def search_table_def Let_def)
  ultimately show ?thesis using cong by simp
qed

lemma find_False [simp]: "find (\<lambda>_. False) xs = None"
  by (induction xs) auto

lemma search_blocks_shift:
  "search_blocks (Suc i) bs ip inst regname = map_option (apfst Suc) (search_blocks i bs ip inst regname)"
  by (induction bs arbitrary: i) (auto split: option.splits)

lemma search_blocks_find:
  assumes "db_sorted blocks" and "cstring regname"
  shows "search_blocks 0 blocks ip inst regname = find (name_hit ip inst regname blocks) (all_refs blocks)"
  using assms(1)
proof (induction blocks)
  case Nil
  then show ?case by simp
next
  case (Cons b bs)
  have tl: "search_blocks (Suc 0) bs ip inst regname =
      map_option (apfst Suc) (find (name_hit ip inst regname bs) (all_refs bs))"
    using Cons by (simp add: search_blocks_shift db_sorted_def)
  have hit_tl: "name_hit ip inst regname (b # bs) \<circ> apfst Suc = name_hit ip inst regname bs"
    by (auto simp: fun_eq_iff name_hit_def reg_at_def)
  have hit_hd: "name_hit ip inst regname (b # bs) \<circ> Pair 0 =
      (\<lambda>j. \<not> block_skipped ip inst b \<and> same_name (reg_regname (ip_regs b ! j)) regname)"
    by (auto simp: fun_eq_iff name_hit_def reg_at_def)
  show ?case
    using Cons.prems search_block_find [of b regname] assms(2)
    by (simp add: all_refs_Cons find_append find_map hit_tl hit_hd tl db_sorted_def del: upt_Suc
        split: option.split)
qed

definition strip_at :: "string \<Rightarrow> string" where
  "strip_at n = (if n \<noteq> [] \<and> hd n = CHR ''@'' then tl n else n)"



subsection \<open>The instance of an IP name\<close>

lemma is_digit_char_of [simp]: "k < 10 \<Longrightarrow> is_digit (char_of (48 + k :: nat))"
  by (simp add: is_digit_def)

lemma dec_digits_range: "list_all is_digit (dec_digits n)"
proof (induction n rule: dec_digits.induct)
  case (1 n)
  then show ?case by (simp add: dec_digits.simps [of n])
qed

lemma dec_value_digits: "list_all is_digit ds \<Longrightarrow>
   fst (dec_value acc (ds @ s)) = fst (dec_value (fst (dec_value acc ds)) s)"
  by (induction ds arbitrary: acc) auto

lemma dec_value_dec_digits: "fst (dec_value 0 (dec_digits n)) = n"
proof (induction n rule: dec_digits.induct)
  case (1 n)
  show ?case
  proof (cases "n < 10")
    case True
    then show ?thesis by (simp add: dec_digits.simps [of n])
  next
    case False
    then have "fst (dec_value 0 (dec_digits n)) =
        fst (dec_value (n div 10) [char_of (48 + n mod 10)])"
      using 1 by (simp add: dec_digits.simps [of n] dec_value_digits [OF dec_digits_range])
    then show ?thesis by simp
  qed
qed

lemma dec_digits_Cons: "\<exists>c cs. dec_digits n = c # cs \<and> is_digit c"
  using dec_digits_range [of n]
  by (cases "dec_digits n") (auto simp: dec_digits.simps [of n] split: if_splits)

lemma scan_dec_digits: "scan_dec (dec_digits n @ ''}'' @ rest) = Some (int n)"
proof -
  obtain c cs where d: "dec_digits n = c # cs" "is_digit c" using dec_digits_Cons by blast
  have "\<not> is_space c" "c \<noteq> CHR ''-''" "c \<noteq> CHR ''+''"
    using d(2) by (auto simp: is_digit_def is_space_def)
  moreover have "fst (dec_value 0 ((c # cs) @ CHR ''}'' # rest)) = n"
    using dec_value_digits [OF dec_digits_range, of 0 n "CHR ''}'' # rest"] dec_value_dec_digits [of n] d(1)
    by (simp add: is_digit_def)
  ultimately show ?thesis using d by (simp add: scan_dec_def)
qed

lemma ip_instance_inst_name:
  assumes "CHR ''{'' \<notin> set stem" and "0 \<le> inst" and "inst < 2 ^ 31"
  shows "ip_instance (stem @ inst_name inst @ rest) = Some inst"
proof -
  have "dropWhile (\<lambda>c. c \<noteq> CHR ''{'') (stem @ inst_name inst @ rest) =
      CHR ''{'' # dec_digits (nat inst) @ ''}'' @ rest"
    using assms by (subst dropWhile_append2) (auto simp: inst_name_def)
  then show ?thesis using assms by (simp add: ip_instance_def scan_dec_digits [simplified])
qed

text \<open>The instance number that a bracketed IP name carries is read back exactly: for
  a name whose stem has no bracket, \<open>umr_find_reg_data_by_ip\<close> looks for the instance
  whose decimal number the name shows.\<close>

theorem ip_instance_of_name:
  assumes "CHR ''{'' \<notin> set stem" and "0 \<le> inst" and "inst < 2 ^ 31"
  shows "umr_find_reg_data_by_ip asic (Some (stem @ inst_name inst @ rest)) regname =
         umr_find_reg_data_by_ip_by_instance asic (Some (stem @ inst_name inst @ rest)) inst regname"
  by (simp add: umr_find_reg_data_by_ip_def ip_instance_inst_name [OF assms])

theorem ip_instance_of_name_witness:
  "umr_find_reg_data_by_ip demo_dev (Some (''gfx94'' @ inst_name 12 @ [])) ''@mmX'' =
   umr_find_reg_data_by_ip_by_instance demo_dev (Some (''gfx94'' @ inst_name 12 @ [])) 12 ''@mmX''"
  by (rule ip_instance_of_name) simp_all

text \<open>The documentation calls the IP name a prefix of the block name, but a block whose
  name is shorter than the one asked for is never excluded: in the demonstration device
  a lookup of a register in the block \<open>gfx90\<close> returns the one of the block \<open>df\<close>.\<close>

theorem short_block_name_admitted:
  "umr_find_reg_data_by_ip demo_dev (Some ''gfx90'') ''mmA_CNTL'' = Some (Some (0, 0), Quiet, demo_dev) \<and>
   ip_ipname (asic_blocks demo_dev ! 0) = ''df''"
  by code_simp

text \<open>The first failed lookup reports an unsorted database whenever some block has a
  register of that name, whatever block was asked for: here the database is sorted, the
  register is merely not in the instance asked for, and the report is made.\<close>

theorem unsorted_report_ignores_filter:
  "db_sorted (asic_blocks demo_dev) \<and>
   map_option (fst \<circ> snd) (umr_find_reg_data_by_ip_by_instance demo_dev None 1 ''mmA_CNTL'') =
     Some Unsorted_database"
  by code_simp

subsection \<open>The wildcard iterator enumerates the matches\<close>

definition ip_admits :: "string option \<Rightarrow> string \<Rightarrow> bool" where
  "ip_admits ip name \<longleftrightarrow> (case ip of None \<Rightarrow> True | Some p \<Rightarrow> glob p name)"

definition wild_hit :: "string option \<Rightarrow> string \<Rightarrow> umr_ip_block list \<Rightarrow> reg_ref \<Rightarrow> bool" where
  "wild_hit ip reg blocks r \<longleftrightarrow>
     ip_admits ip (ip_ipname (blocks ! fst r)) \<and>
     glob reg (reg_regname (reg_at blocks r))"

text \<open>The registers from register \<open>j\<close> of block \<open>i\<close> on.\<close>

definition refs_from :: "umr_ip_block list \<Rightarrow> nat \<Rightarrow> nat \<Rightarrow> reg_ref list" where
  "refs_from blocks i j =
     (if i < length blocks then
        map (Pair i) [j..<length (ip_regs (blocks ! i))] @
        concat (map (\<lambda>k. map (Pair k) [0..<length (ip_regs (blocks ! k))]) [Suc i..<length blocks])
      else [])"

lemma refs_from_0: "refs_from blocks 0 0 = all_refs blocks"
  by (cases blocks) (simp_all add: refs_from_def all_refs_def upt_conv_Cons del: upt_Suc)

lemma refs_from_step:
  "i < length blocks \<Longrightarrow>
   refs_from blocks i j = map (Pair i) [j..<length (ip_regs (blocks ! i))] @ refs_from blocks (Suc i) 0"
  by (cases "Suc i < length blocks")
    (simp_all add: refs_from_def upt_conv_Cons del: upt_Suc)

definition wild_ok :: "umr_ip_block list \<Rightarrow> umr_find_reg_iter \<Rightarrow> bool" where
  "wild_ok blocks it \<longleftrightarrow> - 1 \<le> it_ip_i it \<and> - 1 \<le> it_reg_i it \<and>
     (it_reg_i it \<noteq> - 1 \<longrightarrow> 0 \<le> it_ip_i it \<and> nat (it_ip_i it) < length blocks \<and>
        ip_admits (it_ip it) (ip_ipname (blocks ! nat (it_ip_i it))))"

definition wild_rest :: "umr_ip_block list \<Rightarrow> umr_find_reg_iter \<Rightarrow> reg_ref list" where
  "wild_rest blocks it = filter (wild_hit (it_ip it) (it_reg it) blocks)
     (if it_reg_i it = - 1 then refs_from blocks (nat (it_ip_i it + 1)) 0
      else refs_from blocks (nat (it_ip_i it)) (nat (it_reg_i it)))"

lemma matches_glob: "matches str pattern \<longleftrightarrow> glob pattern str"
  by (simp add: matches_def expression_matches_glob)

lemma wild_skip_ip_rest:
  "filter (wild_hit ip reg blocks) (refs_from blocks (wild_skip_ip blocks ip i) 0) =
     filter (wild_hit ip reg blocks) (refs_from blocks i 0) \<and>
   (wild_skip_ip blocks ip i < length blocks \<longrightarrow>
     ip_admits ip (ip_ipname (blocks ! wild_skip_ip blocks ip i)))"
proof (induction blocks ip i rule: wild_skip_ip.induct)
  case (1 blocks ip i)
  show ?case
  proof (cases "i < length blocks \<and> (case ip of None \<Rightarrow> False | Some p \<Rightarrow> \<not> matches (ip_ipname (blocks ! i)) p)")
    case True
    then have e: "wild_skip_ip blocks ip i = wild_skip_ip blocks ip (Suc i)"
      by (simp add: wild_skip_ip.simps [of blocks ip i])
    have "filter (wild_hit ip reg blocks) (map (Pair i) xs) = []" for xs
      using True by (auto simp: filter_empty_conv wild_hit_def ip_admits_def matches_glob split: option.splits)
    then show ?thesis
      using True "1.IH" by (simp add: e refs_from_step [of i])
  next
    case False
    then have "wild_skip_ip blocks ip i = i" by (subst wild_skip_ip.simps) auto
    then show ?thesis using False by (auto simp: ip_admits_def matches_glob split: option.splits)
  qed
qed

lemma wild_scan_regs_find:
  "wild_scan_regs regs pattern j = find (\<lambda>k. glob pattern (reg_regname (regs ! k))) [j..<length regs]"
proof (induction regs pattern j rule: wild_scan_regs.induct)
  case (1 regs pattern j)
  then show ?case
    by (cases "j < length regs")
      (auto simp: wild_scan_regs.simps [of regs pattern j] upt_conv_Cons matches_glob simp del: upt_Suc)
qed

lemma find_upt_filter:
  "find P [j..<n] = Some k \<Longrightarrow> filter P [j..<n] = k # filter P [Suc k..<n]"
proof (induction "n - j" arbitrary: j)
  case 0
  then show ?case by simp
next
  case (Suc d)
  then have jn: "j < n" by simp
  then show ?case
    using Suc.hyps(1) [of "Suc j"] Suc.hyps(2) Suc.prems
    by (auto simp: upt_conv_Cons [OF jn] simp del: upt_Suc split: if_splits)
qed

lemma find_None_filter: "find P xs = None \<Longrightarrow> filter P xs = []"
  by (simp add: find_None_iff filter_empty_conv)

lemma wild_block_rest:
  assumes "i < length blocks"
    and "ip_admits ip (ip_ipname (blocks ! i))"
  shows "filter (wild_hit ip reg blocks) (refs_from blocks i j) =
    map (Pair i) (filter (\<lambda>k. glob reg (reg_regname (ip_regs (blocks ! i) ! k))) [j..<length (ip_regs (blocks ! i))]) @
    filter (wild_hit ip reg blocks) (refs_from blocks (Suc i) 0)"
  using assms by (simp add: refs_from_step [of i] filter_map comp_def wild_hit_def reg_at_def)

lemma wild_next_rest:
  "wild_ok blocks it \<Longrightarrow>
   (case wild_rest blocks it of
      [] \<Rightarrow> umr_find_reg_wild_next blocks it = None
    | r # rs \<Rightarrow> \<exists>it'. umr_find_reg_wild_next blocks it = Some (r, it') \<and> wild_ok blocks it' \<and>
        wild_rest blocks it' = rs)"
proof (induction blocks it rule: umr_find_reg_wild_next.induct)
  case (1 blocks it)
  define st where "st = (if it_reg_i it = - 1
      then (wild_skip_ip blocks (it_ip it) (nat (it_ip_i it + 1)), 0)
      else (nat (it_ip_i it), nat (it_reg_i it)))"
  note unf = umr_find_reg_wild_next.simps [of blocks it, folded st_def, unfolded Let_def]
  have rest: "wild_rest blocks it = filter (wild_hit (it_ip it) (it_reg it) blocks) (refs_from blocks (fst st) (snd st))"
    using wild_skip_ip_rest [of "it_ip it" "it_reg it" blocks "nat (it_ip_i it + 1)"]
    by (simp add: wild_rest_def st_def)
  have ipm: "ip_admits (it_ip it) (ip_ipname (blocks ! fst st))"
    if "fst st < length blocks"
    using "1.prems" that wild_skip_ip_rest [of "it_ip it" "it_reg it" blocks "nat (it_ip_i it + 1)"]
    by (auto simp: wild_ok_def st_def split: if_splits)
  show ?case
  proof (cases "fst st \<ge> length blocks")
    case True
    then have "wild_rest blocks it = []" by (simp add: rest refs_from_def)
    then show ?thesis using True by (simp add: unf)
  next
    case False
    then have lt: "fst st < length blocks" by simp
    let ?P = "\<lambda>k. glob (it_reg it) (reg_regname (ip_regs (blocks ! fst st) ! k))"
    note R = rest [unfolded wild_block_rest [OF lt ipm [OF lt], of "it_reg it" "snd st"]]
    show ?thesis
    proof (cases "wild_scan_regs (ip_regs (blocks ! fst st)) (it_reg it) (snd st)")
      case None
      let ?it = "it\<lparr>it_ip_i := int (fst st), it_reg_i := - 1\<rparr>"
      have "filter ?P [snd st..<length (ip_regs (blocks ! fst st))] = []"
        using None by (intro find_None_filter) (simp add: wild_scan_regs_find)
      then have w: "wild_rest blocks it = wild_rest blocks ?it"
        by (simp add: R) (simp add: wild_rest_def nat_add_distrib)
      have ok: "wild_ok blocks ?it" by (simp add: wild_ok_def)
      have eq: "umr_find_reg_wild_next blocks it = umr_find_reg_wild_next blocks ?it"
        using False None by (simp add: unf)
      show ?thesis unfolding w eq by (rule "1.IH" [OF st_def False None ok])
    next
      case (Some j)
      let ?it = "it\<lparr>it_ip_i := int (fst st), it_reg_i := int j + 1\<rparr>"
      have f: "find ?P [snd st..<length (ip_regs (blocks ! fst st))] = Some j"
        using Some by (simp add: wild_scan_regs_find)
      have "wild_rest blocks ?it =
          filter (wild_hit (it_ip it) (it_reg it) blocks) (refs_from blocks (fst st) (Suc j))"
        by (simp add: wild_rest_def nat_add_distrib)
      then have "wild_rest blocks it = (fst st, j) # wild_rest blocks ?it"
        using wild_block_rest [OF lt ipm [OF lt], of "it_reg it" "Suc j"]
        by (simp add: R find_upt_filter [OF f])
      moreover have "wild_ok blocks ?it" using ipm [OF lt] lt by (simp add: wild_ok_def)
      ultimately show ?thesis using False Some by (simp add: unf)
    qed
  qed
qed

text \<open>Calling the iterator up to \<open>n\<close> times, stopping when it is exhausted.\<close>

primrec wild_collect :: "nat \<Rightarrow> umr_ip_block list \<Rightarrow> umr_find_reg_iter \<Rightarrow> reg_ref list" where
  "wild_collect 0 blocks it = []"
| "wild_collect (Suc n) blocks it =
     (case umr_find_reg_wild_next blocks it of
        None \<Rightarrow> []
      | Some (r, it') \<Rightarrow> r # wild_collect n blocks it')"

lemma wild_collect_take: "wild_ok blocks it \<Longrightarrow> wild_collect n blocks it = take n (wild_rest blocks it)"
proof (induction n arbitrary: it)
  case (Suc n)
  then show ?case using wild_next_rest [OF Suc.prems] by (cases "wild_rest blocks it") auto
qed simp



end
