(* ===== verification/Mmio.thy ===== *)
theory Mmio
  imports Find_Reg
begin

text \<open>
  Register access and bit fields (\<^verbatim>\<open>src/lib/mmio.c\<close>, \<^verbatim>\<open>src/lib/apply_bank_address.c\<close>).
  The device is a pair of its description and of whatever state the installed access
  callbacks keep; an operation maps such a state to a result and a new state, or to
  \<open>None\<close> where the C code has no defined behaviour.  The callbacks are an argument of
  every operation that uses them, as the source calls them through pointers.
\<close>

type_synonym ('w, 'a) dev_op = "umr_asic \<times> 'w \<Rightarrow> ('a \<times> (umr_asic \<times> 'w)) option"

text \<open>
  \<^verbatim>\<open>struct umr_register_access_funcs\<close> and \<^verbatim>\<open>struct umr_memory_access_funcs\<close>.  A memory
  access gets the caller's buffer, whose length is the size argument, and returns
  the status and the buffer's new contents.
\<close>

record 'w umr_funcs =
  read_reg :: "u64 \<Rightarrow> regclass \<Rightarrow> ('w, u32) dev_op"
  write_reg :: "u64 \<Rightarrow> u32 \<Rightarrow> regclass \<Rightarrow> ('w, int) dev_op"
  access_sram :: "u64 \<Rightarrow> u8 list \<Rightarrow> bool \<Rightarrow> ('w, int \<times> u8 list) dev_op"
  access_linear_vram :: "u64 \<Rightarrow> u8 list \<Rightarrow> bool \<Rightarrow> ('w, int \<times> u8 list) dev_op"
  gpu_bus_to_cpu_address :: "u64 \<Rightarrow> ('w, u64) dev_op"

text \<open>A byte address from a database address.\<close>

definition reg_byte_addr :: "umr_reg \<Rightarrow> u64 \<Rightarrow> u64" where
  "reg_byte_addr reg a = a * (if reg_type reg = REG_MMIO then 4 else 1)"

subsection \<open>Reading and writing by name\<close>

text \<open>The two halves of a 64 bit register are read low half first; C leaves the order open.\<close>

definition umr_read_reg_by_name_by_ip_by_instance ::
    "'w umr_funcs \<Rightarrow> string option \<Rightarrow> int \<Rightarrow> string \<Rightarrow> ('w, u64) dev_op" where
  "umr_read_reg_by_name_by_ip_by_instance F ip inst name s = do {
     (r, m, asic) \<leftarrow> umr_find_reg_data_by_ip_by_instance (fst s) ip inst name;
     let s = (asic, snd s);
     case r of
       None \<Rightarrow> Some (0, s)
     | Some p \<Rightarrow>
         let reg = reg_at (asic_blocks asic) p in
         if reg_bit64 reg \<noteq> 0 then do {
           (lo, s) \<leftarrow> read_reg F (reg_byte_addr reg (reg_addr reg)) (reg_type reg) s;
           (hi, s) \<leftarrow> read_reg F (reg_byte_addr reg (reg_addr reg + 1)) (reg_type reg) s;
           Some (mk64 lo hi, s) }
         else do {
           (v, s) \<leftarrow> read_reg F (reg_byte_addr reg (reg_addr reg)) (reg_type reg) s;
           Some (ucast v, s) } }"

definition umr_read_reg_by_name_by_ip :: "'w umr_funcs \<Rightarrow> string option \<Rightarrow> string \<Rightarrow> ('w, u64) dev_op" where
  "umr_read_reg_by_name_by_ip F ip name = umr_read_reg_by_name_by_ip_by_instance F ip (- 1) name"

definition umr_read_reg_by_name :: "'w umr_funcs \<Rightarrow> string \<Rightarrow> ('w, u64) dev_op" where
  "umr_read_reg_by_name F name = umr_read_reg_by_name_by_ip F None name"

definition umr_write_reg_by_name_by_ip_by_instance ::
    "'w umr_funcs \<Rightarrow> string option \<Rightarrow> int \<Rightarrow> string \<Rightarrow> u64 \<Rightarrow> ('w, int) dev_op" where
  "umr_write_reg_by_name_by_ip_by_instance F ip inst name value s = do {
     (r, m, asic) \<leftarrow> umr_find_reg_data_by_ip_by_instance (fst s) ip inst name;
     let s = (asic, snd s);
     case r of
       None \<Rightarrow> Some (- 1, s)
     | Some p \<Rightarrow>
         let reg = reg_at (asic_blocks asic) p in
         if reg_bit64 reg \<noteq> 0 then do {
           (r, s) \<leftarrow> write_reg F (reg_byte_addr reg (reg_addr reg)) (lo32 value) (reg_type reg) s;
           if r = 0 then write_reg F (reg_byte_addr reg (reg_addr reg + 1)) (hi32 value) (reg_type reg) s
           else Some (r, s) }
         else write_reg F (reg_byte_addr reg (reg_addr reg)) (lo32 value) (reg_type reg) s }"

definition umr_write_reg_by_name_by_ip :: "'w umr_funcs \<Rightarrow> string option \<Rightarrow> string \<Rightarrow> u64 \<Rightarrow> ('w, int) dev_op" where
  "umr_write_reg_by_name_by_ip F ip name value =
     umr_write_reg_by_name_by_ip_by_instance F ip (- 1) name value"

definition umr_write_reg_by_name :: "'w umr_funcs \<Rightarrow> string \<Rightarrow> u64 \<Rightarrow> ('w, int) dev_op" where
  "umr_write_reg_by_name F name value = umr_write_reg_by_name_by_ip F None name value"

subsection \<open>Bit fields\<close>

definition find_bit :: "umr_reg \<Rightarrow> string \<Rightarrow> umr_bitfield option" where
  "find_bit reg bitname = find (\<lambda>b. bitname = bf_regname b) (reg_bits reg)"

text \<open>\<^verbatim>\<open>(1ULL << (stop - start + 1)) - 1\<close>, with \<^verbatim>\<open>int\<close> arithmetic in the shift count.\<close>

definition bf_mask :: "umr_bitfield \<Rightarrow> u64 option" where
  "bf_mask b = do { m \<leftarrow> shl64 1 (uint (bf_stop b) - uint (bf_start b) + 1); Some (m - 1) }"

definition bf_slice :: "umr_bitfield \<Rightarrow> u64 \<Rightarrow> u64 option" where
  "bf_slice b regvalue = do {
     v \<leftarrow> shr64 regvalue (uint (bf_start b));
     m \<leftarrow> bf_mask b;
     Some (v AND m) }"

definition umr_bitslice_reg_quiet :: "umr_reg \<Rightarrow> string \<Rightarrow> u64 \<Rightarrow> u64 option" where
  "umr_bitslice_reg_quiet reg bitname regvalue =
     (case find_bit reg bitname of Some b \<Rightarrow> bf_slice b regvalue | None \<Rightarrow> Some 0xFFFFFFFF)"

definition umr_bitslice_reg :: "umr_reg \<Rightarrow> string \<Rightarrow> u64 \<Rightarrow> u64 option" where
  "umr_bitslice_reg reg bitname regvalue =
     (case find_bit reg bitname of Some b \<Rightarrow> bf_slice b regvalue | None \<Rightarrow> Some 0)"

definition umr_bitslice_compose_value :: "umr_reg \<Rightarrow> string \<Rightarrow> u64 \<Rightarrow> u64 option" where
  "umr_bitslice_compose_value reg bitname regvalue =
     (case find_bit reg bitname of
        Some b \<Rightarrow> do { m \<leftarrow> bf_mask b; shl64 (regvalue AND m) (uint (bf_start b)) }
      | None \<Rightarrow> Some 0)"

text \<open>The variants that find the register first; a register that does not exist gives 0.\<close>

definition with_reg ::
    "(reg_ref option \<times> find_msg \<times> umr_asic) option \<Rightarrow> (umr_reg \<Rightarrow> u64 option) \<Rightarrow> (u64 \<times> umr_asic) option" where
  "with_reg found f = do {
     (r, m, asic) \<leftarrow> found;
     v \<leftarrow> (case r of Some p \<Rightarrow> f (reg_at (asic_blocks asic) p) | None \<Rightarrow> Some 0);
     Some (v, asic) }"

definition umr_bitslice_reg_by_name_by_ip where
  "umr_bitslice_reg_by_name_by_ip asic ip regname bitname regvalue =
     with_reg (umr_find_reg_data_by_ip asic ip regname) (\<lambda>reg. umr_bitslice_reg reg bitname regvalue)"

definition umr_bitslice_reg_by_name_by_ip_by_instance where
  "umr_bitslice_reg_by_name_by_ip_by_instance asic ip inst regname bitname regvalue =
     with_reg (umr_find_reg_data_by_ip_by_instance asic ip inst regname)
       (\<lambda>reg. umr_bitslice_reg reg bitname regvalue)"

definition umr_bitslice_reg_by_name where
  "umr_bitslice_reg_by_name asic regname bitname regvalue =
     umr_bitslice_reg_by_name_by_ip asic None regname bitname regvalue"

definition umr_bitslice_compose_value_by_name_by_ip where
  "umr_bitslice_compose_value_by_name_by_ip asic ip regname bitname regvalue =
     with_reg (umr_find_reg_data_by_ip asic ip regname)
       (\<lambda>reg. umr_bitslice_compose_value reg bitname regvalue)"

definition umr_bitslice_compose_value_by_name_by_ip_by_instance where
  "umr_bitslice_compose_value_by_name_by_ip_by_instance asic ip inst regname bitname regvalue =
     with_reg (umr_find_reg_data_by_ip_by_instance asic ip inst regname)
       (\<lambda>reg. umr_bitslice_compose_value reg bitname regvalue)"

definition umr_bitslice_compose_value_by_name where
  "umr_bitslice_compose_value_by_name asic regname bitname regvalue =
     umr_bitslice_compose_value_by_name_by_ip asic None regname bitname regvalue"

subsection \<open>Bank selection\<close>

definition set_use_bank :: "u32 \<Rightarrow> umr_asic \<Rightarrow> umr_asic" where
  "set_use_bank b asic = asic\<lparr>asic_options := (asic_options asic)\<lparr>opt_use_bank := b\<rparr>\<rparr>"

text \<open>One \<^verbatim>\<open>data |= umr_bitslice_compose_value(...)\<close> after the other, into a 32 bit word.\<close>

fun compose_all :: "umr_reg \<Rightarrow> (string \<times> u64) list \<Rightarrow> u32 \<Rightarrow> u32 option" where
  "compose_all reg [] data = Some data"
| "compose_all reg ((n, v) # fs) data = do {
     c \<leftarrow> umr_bitslice_compose_value reg n v;
     compose_all reg fs (data OR ucast c) }"

definition select_fields :: "chipfamily \<Rightarrow> u32 \<Rightarrow> u32 \<Rightarrow> u32 \<Rightarrow> (string \<times> u64) list" where
  "select_fields family se sh inst =
     [if inst = 0xFFFFFFFF then (''INSTANCE_BROADCAST_WRITES'', 1) else (''INSTANCE_INDEX'', ucast inst),
      if se = 0xFFFFFFFF then (''SE_BROADCAST_WRITES'', 1) else (''SE_INDEX'', ucast se),
      if family < FAMILY_NV
      then (if sh = 0xFFFFFFFF then (''SH_BROADCAST_WRITES'', 1) else (''SH_INDEX'', ucast sh))
      else (if sh = 0xFFFFFFFF then (''SA_BROADCAST_WRITES'', 1) else (''SA_INDEX'', ucast sh))]"

text \<open>
  The write goes through \<^verbatim>\<open>umr_write_reg\<close> of the low level layer, not through the
  callback; it is the parameter \<open>wr\<close>.  Banking is off while it runs.
\<close>

definition banked_write ::
    "(u64 \<Rightarrow> u32 \<Rightarrow> regclass \<Rightarrow> ('w, int) dev_op) \<Rightarrow> umr_reg \<Rightarrow> (string \<times> u64) list \<Rightarrow> ('w, int) dev_op" where
  "banked_write wr reg fs s = do {
     data \<leftarrow> compose_all reg fs 0;
     let bank = opt_use_bank (asic_options (fst s));
     (r, s) \<leftarrow> wr (reg_addr reg * 4) data REG_MMIO (apfst (set_use_bank 0) s);
     Some (r, apfst (set_use_bank bank) s) }"

definition umr_grbm_select_index ::
    "(u64 \<Rightarrow> u32 \<Rightarrow> regclass \<Rightarrow> ('w, int) dev_op) \<Rightarrow> u32 \<Rightarrow> u32 \<Rightarrow> u32 \<Rightarrow> ('w, int) dev_op" where
  "umr_grbm_select_index wr se sh inst s = do {
     (r, m, asic) \<leftarrow> umr_find_reg_by_name (fst s) ''mmGRBM_GFX_INDEX'';
     case r of
       Some p \<Rightarrow> banked_write wr (reg_at (asic_blocks asic) p) (select_fields (asic_family asic) se sh inst) (asic, snd s)
     | None \<Rightarrow> Some (- 1, (asic, snd s)) }"

definition umr_srbm_select_index ::
    "(u64 \<Rightarrow> u32 \<Rightarrow> regclass \<Rightarrow> ('w, int) dev_op) \<Rightarrow> u32 \<Rightarrow> u32 \<Rightarrow> u32 \<Rightarrow> u32 \<Rightarrow> ('w, int) dev_op" where
  "umr_srbm_select_index wr me pipe queue vmid s = do {
     (r, m, asic) \<leftarrow> umr_find_reg_by_name (fst s)
        (if asic_family (fst s) \<ge> FAMILY_AI then ''mmGRBM_GFX_CNTL'' else ''mmSRBM_GFX_CNTL'');
     case r of
       Some p \<Rightarrow> banked_write wr (reg_at (asic_blocks asic) p)
                   [(''PIPEID'', ucast pipe), (''MEID'', ucast me), (''VMID'', ucast vmid), (''QUEUEID'', ucast queue)]
                   (asic, snd s)
     | None \<Rightarrow> Some (- 1, (asic, snd s)) }"

text \<open>The offset that selects a bank in the old register file; \<open>mmio2\<close> is the newer file's descriptor.\<close>

definition umr_apply_bank_selection_address :: "int \<Rightarrow> umr_options \<Rightarrow> u64" where
  "umr_apply_bank_selection_address mmio2 opts =
     (if mmio2 < 0 then
        (if opt_use_bank opts = 1 then
           push_bit 62 1 OR
           push_bit 24 (ucast (grbm_se (opt_grbm opts)) AND 0x3FF) OR
           push_bit 34 (ucast (grbm_sh (opt_grbm opts)) AND 0x3FF) OR
           push_bit 44 (ucast (grbm_instance (opt_grbm opts)) AND 0x3FF)
         else if opt_use_bank opts = 2 then
           push_bit 61 1 OR
           push_bit 24 (ucast (srbm_me (opt_srbm opts)) AND 0x3FF) OR
           push_bit 34 (ucast (srbm_pipe (opt_srbm opts)) AND 0x3FF) OR
           push_bit 44 (ucast (srbm_queue (opt_srbm opts)) AND 0x3FF) OR
           push_bit 54 (ucast (srbm_vmid (opt_srbm opts)) AND 0x3FF)
         else 0)
      else 0)"

subsection \<open>Slicing and composing are inverse\<close>

text \<open>A field inside a register, narrower than 64 bits.\<close>

definition bf_ok :: "umr_bitfield \<Rightarrow> bool" where
  "bf_ok b \<longleftrightarrow> unat (bf_start b) \<le> unat (bf_stop b) \<and> unat (bf_stop b) < 64 \<and>
     unat (bf_stop b) - unat (bf_start b) < 63"

definition bf_width :: "umr_bitfield \<Rightarrow> nat" where
  "bf_width b = Suc (unat (bf_stop b) - unat (bf_start b))"

definition bf_range :: "umr_bitfield \<Rightarrow> nat set" where
  "bf_range b = {unat (bf_start b)..unat (bf_stop b)}"

lemma bf_mask_ok: "bf_ok b \<Longrightarrow> bf_mask b = Some (mask (bf_width b))"
proof -
  assume "bf_ok b"
  then have "uint (bf_stop b) - uint (bf_start b) + 1 = int (bf_width b)" "bf_width b < 64"
    by (auto simp: bf_ok_def bf_width_def of_nat_diff)
  then show ?thesis by (simp add: bf_mask_def shl64_def mask_eq_exp_minus_1 push_bit_eq_mult)
qed

lemma bf_shift_ok:
  assumes "bf_ok b"
  shows "shr64 v (uint (bf_start b)) = Some (drop_bit (unat (bf_start b)) v)"
    and "shl64 v (uint (bf_start b)) = Some (push_bit (unat (bf_start b)) v)"
proof -
  from assms have "int (unat (bf_start b)) < int 64" unfolding bf_ok_def of_nat_less_iff by linarith
  then have "uint (bf_start b) < 64" by simp
  then show "shr64 v (uint (bf_start b)) = Some (drop_bit (unat (bf_start b)) v)"
    "shl64 v (uint (bf_start b)) = Some (push_bit (unat (bf_start b)) v)"
    by (simp_all add: shr64_def shl64_def)
qed

lemma bf_slice_ok:
  "bf_ok b \<Longrightarrow> bf_slice b v = Some (drop_bit (unat (bf_start b)) v AND mask (bf_width b))"
  by (simp add: bf_slice_def bf_mask_ok bf_shift_ok)

lemma compose_value_ok:
  "find_bit reg n = Some b \<Longrightarrow> bf_ok b \<Longrightarrow>
   umr_bitslice_compose_value reg n v = Some (push_bit (unat (bf_start b)) (v AND mask (bf_width b)))"
  by (simp add: umr_bitslice_compose_value_def bf_mask_ok bf_shift_ok)

lemma bit_composed:
  assumes "bf_ok b"
  shows "bit (push_bit (unat (bf_start b)) (v AND mask (bf_width b)) :: u64) i \<longleftrightarrow>
         i \<in> bf_range b \<and> bit v (i - unat (bf_start b))"
  using assms by (auto simp: bit_simps bf_range_def bf_ok_def bf_width_def)

text \<open>C29: A value composed for a bit field and combined with any bits outside that field is
  read back by slicing the field: exactly the bits of the value that the field holds.\<close>

theorem bitslice_compose_roundtrip:
  assumes "find_bit reg n = Some b" and "bf_ok b" and "\<forall>i \<in> bf_range b. \<not> bit other i"
  shows "\<exists>c. umr_bitslice_compose_value reg n v = Some c \<and>
     umr_bitslice_reg reg n (c OR other) = Some (v AND mask (bf_width b))"
proof -
  let ?c = "push_bit (unat (bf_start b)) (v AND mask (bf_width b)) :: u64"
  have "drop_bit (unat (bf_start b)) (?c OR other) AND mask (bf_width b) = v AND mask (bf_width b)"
    using assms(2,3)
    by (intro bit_word_eqI) (auto simp: bit_simps bf_range_def bf_ok_def bf_width_def)
  then show ?thesis
    using assms by (simp add: compose_value_ok umr_bitslice_reg_def bf_slice_ok)
qed

definition demo_fields_reg :: umr_reg where
  "demo_fields_reg = (demo_reg ''mmGRBM_GFX_INDEX'' REG_MMIO 0x2200)\<lparr>reg_bits :=
     [\<lparr>bf_regname = ''INSTANCE_INDEX'', bf_start = 0, bf_stop = 7\<rparr>,
      \<lparr>bf_regname = ''SH_INDEX'', bf_start = 8, bf_stop = 15\<rparr>,
      \<lparr>bf_regname = ''SE_INDEX'', bf_start = 16, bf_stop = 23\<rparr>,
      \<lparr>bf_regname = ''SH_BROADCAST_WRITES'', bf_start = 29, bf_stop = 29\<rparr>,
      \<lparr>bf_regname = ''INSTANCE_BROADCAST_WRITES'', bf_start = 30, bf_stop = 30\<rparr>,
      \<lparr>bf_regname = ''SE_BROADCAST_WRITES'', bf_start = 31, bf_stop = 31\<rparr>]\<rparr>"

theorem bitslice_compose_roundtrip_witness:
  "\<exists>c. umr_bitslice_compose_value demo_fields_reg ''SH_INDEX'' 0x123 = Some c \<and>
     umr_bitslice_reg demo_fields_reg ''SH_INDEX'' (c OR 0xFF) = Some 0x23"
proof -
  let ?b = "\<lparr>bf_regname = ''SH_INDEX'', bf_start = 8, bf_stop = 15\<rparr> :: umr_bitfield"
  have f: "find_bit demo_fields_reg ''SH_INDEX'' = Some ?b" and ok: "bf_ok ?b"
    by (simp_all add: demo_fields_reg_def demo_reg_def find_bit_def bf_ok_def)
  have "\<not> bit (0xFF :: u64) i" if "i \<in> bf_range ?b" for i
  proof -
    have "bit (mask 8 :: u64) i \<Longrightarrow> i < 8" by (simp add: bit_simps)
    moreover have "(mask 8 :: u64) = 0xFF" by (simp add: mask_eq_exp_minus_1)
    ultimately show ?thesis using that by (auto simp: bf_range_def)
  qed
  then have "\<forall>i \<in> bf_range ?b. \<not> bit (0xFF :: u64) i" by blast
  moreover have "(0x123 :: u64) AND mask (bf_width ?b) = 0x23"
    by (simp add: bf_width_def mask_eq_exp_minus_1)
  ultimately show ?thesis using bitslice_compose_roundtrip [OF f ok, of "0xFF" "0x123"] by simp
qed

text \<open>The slicing functions shift by the width of the field, which C does not define for a
  field of all 64 bits: the mask of such a field of a 64 bit register has no defined
  value, so neither function returns one.\<close>

theorem full_width_field_undefined:
  assumes "find_bit reg n = Some b" and "bf_start b = 0" and "bf_stop b = 63"
  shows "umr_bitslice_reg reg n v = None \<and> umr_bitslice_compose_value reg n v = None"
  using assms
  by (simp add: umr_bitslice_reg_def umr_bitslice_compose_value_def bf_slice_def bf_mask_def shl64_def)

theorem full_width_field_undefined_witness:
  "umr_bitslice_reg (demo_reg ''regX'' REG_MMIO 0\<lparr>reg_bits :=
      [\<lparr>bf_regname = ''ADDR'', bf_start = 0, bf_stop = 63\<rparr>], reg_bit64 := 1\<rparr>) ''ADDR'' 5 = None"
  using full_width_field_undefined [of "demo_reg ''regX'' REG_MMIO 0\<lparr>reg_bits :=
      [\<lparr>bf_regname = ''ADDR'', bf_start = 0, bf_stop = 63\<rparr>], reg_bit64 := 1\<rparr>" "''ADDR''"
      "\<lparr>bf_regname = ''ADDR'', bf_start = 0, bf_stop = 63\<rparr>" 5]
  by (simp add: find_bit_def demo_reg_def)

subsection \<open>Selecting a bank\<close>

definition fields_ok :: "umr_reg \<Rightarrow> (string \<times> u64) list \<Rightarrow> bool" where
  "fields_ok reg fs \<longleftrightarrow>
     list_all (\<lambda>(n, v). case find_bit reg n of
        None \<Rightarrow> False | Some b \<Rightarrow> bf_ok b \<and> unat (bf_stop b) < 32) fs \<and>
     sorted_wrt (\<lambda>(n, v) (n', v'). bf_range (the (find_bit reg n)) \<inter> bf_range (the (find_bit reg n')) = {}) fs"

definition field_sets :: "umr_reg \<Rightarrow> string \<times> u64 \<Rightarrow> nat \<Rightarrow> bool" where
  "field_sets reg f i \<longleftrightarrow>
     i \<in> bf_range (the (find_bit reg (fst f))) \<and> bit (snd f) (i - unat (bf_start (the (find_bit reg (fst f)))))"

lemma compose_all_bits:
  "fields_ok reg fs \<Longrightarrow> \<exists>d'. compose_all reg fs d = Some d' \<and>
     (\<forall>i < 32. bit d' i \<longleftrightarrow> bit d i \<or> (\<exists>f \<in> set fs. field_sets reg f i))"
proof (induction fs arbitrary: d)
  case (Cons f fs)
  obtain n v where f: "f = (n, v)" by fastforce
  obtain b where b: "find_bit reg n = Some b" "bf_ok b" "unat (bf_stop b) < 32"
    using Cons.prems by (auto simp: fields_ok_def f split: option.splits)
  let ?c = "push_bit (unat (bf_start b)) (v AND mask (bf_width b)) :: u64"
  have "fields_ok reg fs" using Cons.prems by (simp add: fields_ok_def)
  from Cons.IH [OF this, of "d OR ucast ?c"] obtain d' where
    d': "compose_all reg fs (d OR ucast ?c) = Some d'"
    "\<forall>i < 32. bit d' i \<longleftrightarrow> bit (d OR ucast ?c) i \<or> (\<exists>f \<in> set fs. field_sets reg f i)"
    by blast
  have "bit (ucast ?c :: u32) i \<longleftrightarrow> field_sets reg f i" if "i < 32" for i
    using that b bit_composed [OF b(2), of v i] by (auto simp: bit_ucast_iff field_sets_def f)
  then have "\<forall>i < 32. bit d' i \<longleftrightarrow> bit d i \<or> (\<exists>f \<in> set (f # fs). field_sets reg f i)"
    using d'(2) by (auto simp: bit_or_iff)
  moreover have "compose_all reg (f # fs) d = Some d'"
    using d'(1) by (simp add: f compose_value_ok [OF b(1,2)])
  ultimately show ?case by blast
qed simp

lemma fields_ok_apart:
  assumes "fields_ok reg fs" and "f \<in> set fs" and "g \<in> set fs"
    and "i \<in> bf_range (the (find_bit reg (fst f)))" and "i \<in> bf_range (the (find_bit reg (fst g)))"
  shows "f = g"
  using assms unfolding fields_ok_def
  by (induction fs) (auto simp: split_beta)

lemma compose_all_slices:
  assumes ok: "fields_ok reg fs"
  shows "\<exists>data. compose_all reg fs 0 = Some data \<and>
     (\<forall>(n, v) \<in> set fs. umr_bitslice_reg reg n (ucast data) =
        Some (v AND mask (bf_width (the (find_bit reg n)))))"
proof -
  obtain data where d: "compose_all reg fs 0 = Some data"
    "\<forall>i < 32. bit data i \<longleftrightarrow> (\<exists>f \<in> set fs. field_sets reg f i)"
    using compose_all_bits [OF ok, of 0] by auto
  have "umr_bitslice_reg reg n (ucast data) = Some (v AND mask (bf_width (the (find_bit reg n))))"
    if nv: "(n, v) \<in> set fs" for n v
  proof -
    obtain b where b: "find_bit reg n = Some b" "bf_ok b" "unat (bf_stop b) < 32"
      using ok nv by (auto simp: fields_ok_def list_all_iff split: option.splits)
    have "bit (drop_bit (unat (bf_start b)) (ucast data :: u64) AND mask (bf_width b)) i \<longleftrightarrow>
        bit (v AND mask (bf_width b)) i" for i
    proof (cases "i < bf_width b")
      case True
      let ?k = "unat (bf_start b) + i"
      have k: "?k \<in> bf_range b" "?k < 32"
        using True b by (auto simp: bf_range_def bf_width_def bf_ok_def)
      have "(\<exists>f \<in> set fs. field_sets reg f ?k) \<longleftrightarrow> field_sets reg (n, v) ?k"
      proof
        assume "\<exists>f \<in> set fs. field_sets reg f ?k"
        then obtain f where f: "f \<in> set fs" "field_sets reg f ?k" by blast
        then have "?k \<in> bf_range (the (find_bit reg (fst f)))" by (simp add: field_sets_def)
        moreover have "?k \<in> bf_range (the (find_bit reg (fst (n, v))))" using k b(1) by simp
        ultimately show "field_sets reg (n, v) ?k" using fields_ok_apart [OF ok f(1) nv] f(2) by blast
      qed (use nv in blast)
      then show ?thesis
        using True k b d(2) by (auto simp: bit_simps field_sets_def)
    qed (simp add: bit_simps)
    then show ?thesis using b by (simp add: umr_bitslice_reg_def bf_slice_ok bit_eq_iff)
  qed
  then show ?thesis using d(1) by auto
qed


definition demo_bank_dev :: umr_asic where
  "demo_bank_dev = set_use_bank 1 (demo_dev\<lparr>asic_blocks := [demo_block ''gfx90'' [demo_fields_reg]]\<rparr>)"


text \<open>In the address of the old register file the bits of the selected VMID above the
  sixth fall on the bits that say which bank is selected: selecting the shader bank with
  a VMID of 256 yields the offset that stands for a graphics bank selection as well.\<close>

theorem srbm_vmid_overlaps_bank_flag:
  "\<exists>opts. opt_use_bank opts = 2 \<and> srbm_vmid (opt_srbm opts) = 256 \<and>
     bit (umr_apply_bank_selection_address (- 1) opts) 62"
  by (intro exI [of _ "zero_options\<lparr>opt_use_bank := 2,
        opt_srbm := \<lparr>srbm_me = 0, srbm_pipe = 0, srbm_queue = 0, srbm_vmid = 256\<rparr>\<rparr>"])
    (simp add: umr_apply_bank_selection_address_def zero_options_def bit_simps)

subsection \<open>What a lookup depends on\<close>

text \<open>What a failed lookup reports and leaves behind.\<close>

definition find_miss :: "umr_asic \<Rightarrow> string \<Rightarrow> string \<Rightarrow> find_msg \<times> umr_asic" where
  "find_miss asic origname regname =
     (if origname \<noteq> [] \<and> hd origname = CHR ''@'' then (Quiet, asic)
      else if opt_trap_unsorted_db (asic_options asic) then (Reg_not_found, asic)
      else (if \<exists>b \<in> set (asic_blocks asic). \<exists>r \<in> set (ip_regs b).
                 reg_regname r = regname \<or> reg_regname r = origname
            then Unsorted_database else Reg_not_found,
            asic\<lparr>asic_options := (asic_options asic)\<lparr>opt_trap_unsorted_db := True\<rparr>\<rparr>))"

lemma find_miss_frame:
  "asic_blocks (snd (find_miss a n r)) = asic_blocks a"
  "asic_family (snd (find_miss a n r)) = asic_family a"
  "asic_config (snd (find_miss a n r)) = asic_config a"
  by (simp_all add: find_miss_def)

lemma find_reg_alt:
  "umr_find_reg_data_by_ip_by_instance asic ip inst name =
     (if 96 \<le> length name then None else
      case search_blocks 0 (asic_blocks asic) ip inst (strip_at name) of
        Some r \<Rightarrow> Some (Some r, Quiet, asic)
      | None \<Rightarrow>
          if take 2 (strip_at name) = ''mm'' then
            (if 96 \<le> length (''reg'' @ drop 2 (strip_at name)) then None
             else case search_blocks 0 (asic_blocks asic) ip inst (''reg'' @ drop 2 (strip_at name)) of
                    Some r \<Rightarrow> Some (Some r, Quiet, asic)
                  | None \<Rightarrow> Some (None, find_miss asic name (''reg'' @ drop 2 (strip_at name))))
          else Some (None, find_miss asic name (strip_at name)))"
  unfolding umr_find_reg_data_by_ip_by_instance_def umr_find_reg_data_by_ip_by_instance_with_ip_def Let_def
    strip_at_def [symmetric] find_miss_def
  by (cases "take 2 (strip_at name) = ''mm''";
      cases "search_blocks 0 (asic_blocks asic) ip inst (strip_at name)";
      cases "search_blocks 0 (asic_blocks asic) ip inst (''reg'' @ drop 2 (strip_at name))")
    (simp_all only: simp_thms if_True if_False option.case if_distrib [of "\<lambda>p. Some (None, p)"]
      if_distrib [of "\<lambda>p. (p, _)"])

lemma find_reg_frame:
  assumes "umr_find_reg_data_by_ip_by_instance asic ip inst name = Some (r, m, asic')"
  shows "asic_blocks asic' = asic_blocks asic" "asic_family asic' = asic_family asic"
    "asic_config asic' = asic_config asic"
  using assms find_miss_frame [of asic name] unfolding find_reg_alt
  by (auto split: if_splits option.splits) (metis snd_conv)+

lemma find_reg_same_db:
  assumes "umr_find_reg_data_by_ip_by_instance asic ip inst name = Some (r, m, asic')"
    and "asic_blocks asic2 = asic_blocks asic"
  shows "\<exists>m2 asic2'. umr_find_reg_data_by_ip_by_instance asic2 ip inst name = Some (r, m2, asic2') \<and>
     asic_blocks asic2' = asic_blocks asic"
proof -
  have "\<exists>m2 asic2'. find_miss asic2 name rn = (m2, asic2') \<and> asic_blocks asic2' = asic_blocks asic" for rn
    using find_miss_frame(1) [of asic2 name rn] assms(2) by (metis prod.collapse)
  then show ?thesis
    using assms unfolding find_reg_alt
    by (cases "search_blocks 0 (asic_blocks asic) ip inst (strip_at name)")
      (auto split: if_splits option.splits)
qed

subsection \<open>Register buses\<close>

text \<open>
  What the by-name functions rely on in the installed callbacks, for the ordinary MMIO
  registers: \<open>front s a\<close> is the value that the next read of the register at byte address
  \<open>a\<close> returns, when there is such a register.  A read of one register leaves the next
  values of the others alone, a write sets the next value of its own.
\<close>

locale register_bus =
  fixes F :: "'w umr_funcs"
    and front :: "umr_asic \<times> 'w \<Rightarrow> u64 \<Rightarrow> u32 option"
  assumes bus_read: "front s a = Some v \<Longrightarrow>
      \<exists>s'. read_reg F a REG_MMIO s = Some (v, s') \<and> asic_blocks (fst s') = asic_blocks (fst s) \<and>
        (\<forall>b. b \<noteq> a \<longrightarrow> front s' b = front s b)"
    and bus_write: "front s a = Some u \<Longrightarrow>
      \<exists>s'. write_reg F a v REG_MMIO s = Some (0, s') \<and> asic_blocks (fst s') = asic_blocks (fst s) \<and>
        front s' = (front s)(a := Some v)"
    and bus_find: "umr_find_reg_data_by_ip_by_instance (fst s) ip inst name = Some (r, m, asic') \<Longrightarrow>
      front (asic', snd s) = front s"
begin

definition has_reg :: "umr_asic \<times> 'w \<Rightarrow> string option \<Rightarrow> int \<Rightarrow> string \<Rightarrow> umr_reg \<Rightarrow> bool" where
  "has_reg s ip inst name reg \<longleftrightarrow>
     (\<exists>p m asic'. umr_find_reg_data_by_ip_by_instance (fst s) ip inst name = Some (Some p, m, asic') \<and>
        reg_at (asic_blocks (fst s)) p = reg) \<and>
     reg_type reg = REG_MMIO \<and>
     front s (reg_addr reg * 4) \<noteq> None \<and>
     (reg_bit64 reg \<noteq> 0 \<longrightarrow> front s ((reg_addr reg + 1) * 4) \<noteq> None)"

lemma has_reg_found:
  assumes "has_reg s ip inst name reg" and "asic_blocks (fst t) = asic_blocks (fst s)"
  shows "\<exists>p m asic'. umr_find_reg_data_by_ip_by_instance (fst t) ip inst name = Some (Some p, m, asic') \<and>
     reg_at (asic_blocks asic') p = reg \<and> asic_blocks asic' = asic_blocks (fst s) \<and>
     front (asic', snd t) = front t"
proof -
  obtain p m a where f: "umr_find_reg_data_by_ip_by_instance (fst s) ip inst name = Some (Some p, m, a)"
    and r: "reg_at (asic_blocks (fst s)) p = reg"
    using assms(1) unfolding has_reg_def by blast
  from find_reg_same_db [OF f assms(2)] obtain m2 a2 where
    f2: "umr_find_reg_data_by_ip_by_instance (fst t) ip inst name = Some (Some p, m2, a2)"
    and b: "asic_blocks a2 = asic_blocks (fst s)" by blast
  show ?thesis using f2 b r bus_find [OF f2] by auto
qed

lemma addr_halves: "(a + 1) * 4 \<noteq> a * (4 :: u64)"
  by (simp add: distrib_right)

lemma write_by_name_front:
  assumes "has_reg s ip inst name reg"
  shows "\<exists>s'. umr_write_reg_by_name_by_ip_by_instance F ip inst name v s = Some (0, s') \<and>
     asic_blocks (fst s') = asic_blocks (fst s) \<and>
     front s' = (if reg_bit64 reg \<noteq> 0
       then (front s)(reg_addr reg * 4 := Some (lo32 v), (reg_addr reg + 1) * 4 := Some (hi32 v))
       else (front s)(reg_addr reg * 4 := Some (lo32 v)))"
proof -
  obtain p m asic' where f: "umr_find_reg_data_by_ip_by_instance (fst s) ip inst name = Some (Some p, m, asic')"
    "reg_at (asic_blocks asic') p = reg" "asic_blocks asic' = asic_blocks (fst s)" "front (asic', snd s) = front s"
    using has_reg_found [OF assms refl] by blast
  have t: "reg_type reg = REG_MMIO" using assms by (simp add: has_reg_def)
  obtain u where "front (asic', snd s) (reg_addr reg * 4) = Some u"
    using assms f(4) by (auto simp: has_reg_def)
  from bus_write [OF this, of "lo32 v"] obtain s1 where s1:
    "write_reg F (reg_addr reg * 4) (lo32 v) REG_MMIO (asic', snd s) = Some (0, s1)"
    "asic_blocks (fst s1) = asic_blocks (fst s)" "front s1 = (front s)(reg_addr reg * 4 := Some (lo32 v))"
    using f by auto
  show ?thesis
  proof (cases "reg_bit64 reg = 0")
    case True
    then show ?thesis using f s1 t
      by (auto simp: umr_write_reg_by_name_by_ip_by_instance_def reg_byte_addr_def Let_def)
  next
    case False
    then obtain u2 where "front s1 ((reg_addr reg + 1) * 4) = Some u2"
      using assms s1(3) addr_halves by (auto simp: has_reg_def)
    from bus_write [OF this, of "hi32 v"] False show ?thesis using f s1 t
      by (auto simp: umr_write_reg_by_name_by_ip_by_instance_def reg_byte_addr_def Let_def)
  qed
qed

lemma read_by_name_front:
  assumes "has_reg s ip inst name reg"
  shows "\<exists>s'. umr_read_reg_by_name_by_ip_by_instance F ip inst name s =
     Some (if reg_bit64 reg \<noteq> 0
       then mk64 (the (front s (reg_addr reg * 4))) (the (front s ((reg_addr reg + 1) * 4)))
       else ucast (the (front s (reg_addr reg * 4))), s') \<and>
     asic_blocks (fst s') = asic_blocks (fst s)"
proof -
  obtain p m asic' where f: "umr_find_reg_data_by_ip_by_instance (fst s) ip inst name = Some (Some p, m, asic')"
    "reg_at (asic_blocks asic') p = reg" "asic_blocks asic' = asic_blocks (fst s)" "front (asic', snd s) = front s"
    using has_reg_found [OF assms refl] by blast
  have t: "reg_type reg = REG_MMIO" using assms by (simp add: has_reg_def)
  obtain u where u: "front s (reg_addr reg * 4) = Some u" using assms by (auto simp: has_reg_def)
  with f(4) have "front (asic', snd s) (reg_addr reg * 4) = Some u" by simp
  from bus_read [OF this] obtain s1 where s1:
    "read_reg F (reg_addr reg * 4) REG_MMIO (asic', snd s) = Some (u, s1)"
    "asic_blocks (fst s1) = asic_blocks (fst s)" "\<forall>b. b \<noteq> reg_addr reg * 4 \<longrightarrow> front s1 b = front s b"
    using f by auto
  show ?thesis
  proof (cases "reg_bit64 reg = 0")
    case True
    then show ?thesis using f s1 t u
      by (auto simp: umr_read_reg_by_name_by_ip_by_instance_def reg_byte_addr_def Let_def)
  next
    case False
    then obtain u2 where u2: "front s ((reg_addr reg + 1) * 4) = Some u2"
      using assms by (auto simp: has_reg_def)
    then have "front s1 ((reg_addr reg + 1) * 4) = Some u2" using s1(3) addr_halves by simp
    from bus_read [OF this] False show ?thesis using f s1 t u u2
      by (auto simp: umr_read_reg_by_name_by_ip_by_instance_def reg_byte_addr_def Let_def)
  qed
qed

lemma write_then_read:
  assumes "has_reg s ip inst name reg"
  shows "\<exists>s1 s2. umr_write_reg_by_name_by_ip_by_instance F ip inst name v s = Some (0, s1) \<and>
     umr_read_reg_by_name_by_ip_by_instance F ip inst name s1 =
       Some (if reg_bit64 reg \<noteq> 0 then v else ucast (lo32 v), s2)"
proof -
  obtain s1 where s1: "umr_write_reg_by_name_by_ip_by_instance F ip inst name v s = Some (0, s1)"
    "asic_blocks (fst s1) = asic_blocks (fst s)"
    "front s1 = (if reg_bit64 reg \<noteq> 0
       then (front s)(reg_addr reg * 4 := Some (lo32 v), (reg_addr reg + 1) * 4 := Some (hi32 v))
       else (front s)(reg_addr reg * 4 := Some (lo32 v)))"
    using write_by_name_front [OF assms] by blast
  have "has_reg s1 ip inst name reg"
    using has_reg_found [OF assms s1(2)] assms s1(2,3) by (auto simp: has_reg_def)
  from read_by_name_front [OF this] show ?thesis
    using s1(1,3) addr_halves [of "reg_addr reg"] by (auto simp: fun_upd_def)
qed

end

end
