(* ===== verification/Vm_Decode.thy ===== *)
theory Vm_Decode
  imports Mmio
begin

text \<open>
  Page directory and page table entries (\<^verbatim>\<open>src/lib/read_vram.c\<close>): the two decoders, which
  depend on the version of the GFX block, and the arithmetic on the size of an address
  space.  The masks that are only printed are kept out of the decoders.
\<close>

subsection \<open>Entries\<close>

record pde_fields =
  pde_frag_size :: u64
  pde_pte_base_addr :: u64
  pde_valid :: u64
  pde_system :: u64
  pde_coherent :: u64
  pde_pte :: u64
  pde_further :: u64
  pde_tfs_addr :: u64
  pde_llc_noalloc :: u64
  pde_mtype :: u64
  pde_pa_rsvd :: u64
  pde_mall_reuse :: u64

record pte_fields =
  pte_valid :: u64
  pte_system :: u64
  pte_coherent :: u64
  pte_tmz :: u64
  pte_execute :: u64
  pte_read :: u64
  pte_write :: u64
  pte_fragment :: u64
  pte_page_base_addr :: u64
  pte_prt :: u64
  pte_pde :: u64
  pte_further :: u64
  pte_mtype :: u64
  pte_gcr :: u64
  pte_llc_noalloc :: u64
  pte_software :: u64
  pte_pa_rsvd :: u64
  pte_dcc :: u64
  pte_pte :: u64

definition zero_pde :: pde_fields where
  "zero_pde = \<lparr>pde_frag_size = 0, pde_pte_base_addr = 0, pde_valid = 0, pde_system = 0, pde_coherent = 0,
     pde_pte = 0, pde_further = 0, pde_tfs_addr = 0, pde_llc_noalloc = 0, pde_mtype = 0, pde_pa_rsvd = 0,
     pde_mall_reuse = 0\<rparr>"

definition zero_pte :: pte_fields where
  "zero_pte = \<lparr>pte_valid = 0, pte_system = 0, pte_coherent = 0, pte_tmz = 0, pte_execute = 0, pte_read = 0,
     pte_write = 0, pte_fragment = 0, pte_page_base_addr = 0, pte_prt = 0, pte_pde = 0, pte_further = 0,
     pte_mtype = 0, pte_gcr = 0, pte_llc_noalloc = 0, pte_software = 0, pte_pa_rsvd = 0, pte_dcc = 0,
     pte_pte = 0\<rparr>"

text \<open>The GFX block of the partition in use: \<^verbatim>\<open>discoverable.maj\<close> and \<^verbatim>\<open>discoverable.min\<close>.\<close>

definition gfx_ip :: "umr_asic \<Rightarrow> umr_ip_block option" where
  "gfx_ip asic = umr_find_ip_block (asic_blocks asic) ''gfx'' (opt_vm_partition (asic_options asic))"

abbreviation ip_maj :: "umr_ip_block \<Rightarrow> int" where
  "ip_maj ip \<equiv> sint (disc_maj (ip_discoverable ip))"

abbreviation ip_min :: "umr_ip_block \<Rightarrow> int" where
  "ip_min ip \<equiv> sint (disc_min (ip_discoverable ip))"

definition pde_common :: "u64 \<Rightarrow> pde_fields" where
  "pde_common e = zero_pde\<lparr>pde_frag_size := shr_and e 59 0x1F, pde_pte_base_addr := e AND 0xFFFFFFFFFFC0,
     pde_valid := e AND 1, pde_system := shr_and e 1 1, pde_coherent := shr_and e 2 1,
     pde_pte := shr_and e 54 1, pde_further := shr_and e 56 1\<rparr>"

definition decode_pde_gfx :: "int \<Rightarrow> int \<Rightarrow> u64 \<Rightarrow> pde_fields" where
  "decode_pde_gfx maj mnr e =
     (if maj = 9 \<or> maj = 10 then
        (if maj = 10 \<and> mnr \<ge> 3 then (pde_common e)\<lparr>pde_llc_noalloc := shr_and e 58 1\<rparr> else pde_common e)
      else if maj = 11 then
        (pde_common e)\<lparr>pde_mtype := shr_and e 48 7, pde_tfs_addr := shr_and e 57 1,
          pde_llc_noalloc := shr_and e 58 1\<rparr>
      else if maj = 12 then
        zero_pde\<lparr>pde_frag_size := shr_and e 58 0x1F, pde_pte_base_addr := e AND 0xFFFFFFFFFFC0,
          pde_valid := e AND 1, pde_system := shr_and e 1 1, pde_coherent := shr_and e 2 1,
          pde_pa_rsvd := shr_and e 48 0xF, pde_mall_reuse := shr_and e 54 3, pde_tfs_addr := shr_and e 56 1,
          pde_pte := shr_and e 63 1\<rparr>
      else zero_pde)"

definition decode_pde_entry :: "umr_asic \<Rightarrow> u64 \<Rightarrow> pde_fields" where
  "decode_pde_entry asic e =
     (case gfx_ip asic of
        None \<Rightarrow> zero_pde
      | Some ip \<Rightarrow> decode_pde_gfx (ip_maj ip) (ip_min ip) e)"

definition pte_common :: "u64 \<Rightarrow> pte_fields" where
  "pte_common e = zero_pte\<lparr>pte_valid := e AND 1, pte_system := shr_and e 1 1, pte_coherent := shr_and e 2 1,
     pte_tmz := shr_and e 3 1, pte_execute := shr_and e 4 1, pte_read := shr_and e 5 1,
     pte_write := shr_and e 6 1, pte_fragment := shr_and e 7 0x1F\<rparr>"

definition pte_flags_gfx :: "int \<Rightarrow> int \<Rightarrow> u64 \<Rightarrow> pte_fields" where
  "pte_flags_gfx maj mnr e =
     (if maj = 9 then
        (pte_common e)\<lparr>pte_prt := shr_and e 51 1, pte_pde := shr_and e 54 1, pte_further := shr_and e 56 1,
          pte_mtype := shr_and e 57 3\<rparr>
      else if maj = 10 then
        (pte_common e)\<lparr>pte_mtype := shr_and e 48 3, pte_prt := shr_and e 51 1, pte_pde := shr_and e 54 1,
          pte_further := shr_and e 56 1, pte_gcr := shr_and e 57 1,
          pte_llc_noalloc := (if mnr \<ge> 3 then shr_and e 58 1 else 0)\<rparr>
      else if maj = 11 then
        (pte_common e)\<lparr>pte_mtype := shr_and e 48 3, pte_prt := shr_and e 51 1, pte_software := shr_and e 52 3,
          pte_pde := shr_and e 54 1, pte_further := shr_and e 56 1, pte_gcr := shr_and e 57 1,
          pte_llc_noalloc := shr_and e 58 1\<rparr>
      else if maj = 12 then
        (pte_common e)\<lparr>pte_pa_rsvd := shr_and e 48 0xF, pte_software := shr_and e 52 3, pte_mtype := shr_and e 54 3,
          pte_prt := shr_and e 56 1, pte_gcr := shr_and e 57 1, pte_dcc := shr_and e 58 1,
          pte_pte := shr_and e 63 1\<rparr>
      else zero_pte)"

text \<open>Whether the entry points to another table, whose address has six more bits.\<close>

definition pte_is_pde :: "int \<Rightarrow> pte_fields \<Rightarrow> bool" where
  "pte_is_pde maj f \<longleftrightarrow>
     (if maj = 9 \<or> maj = 10 \<or> maj = 11 then pte_further f \<noteq> 0
      else if maj = 12 then pte_pte f = 0 else False)"

definition decode_pte_gfx :: "int \<Rightarrow> int \<Rightarrow> u64 \<Rightarrow> pte_fields" where
  "decode_pte_gfx maj mnr e =
     (let f = pte_flags_gfx maj mnr e in
      f\<lparr>pte_page_base_addr := (if pte_is_pde maj f then e AND 0xFFFFFFFFFFC0 else e AND 0xFFFFFFFFF000)\<rparr>)"

definition decode_pte_entry :: "umr_asic \<Rightarrow> u64 \<Rightarrow> pte_fields" where
  "decode_pte_entry asic e =
     (case gfx_ip asic of
        None \<Rightarrow> zero_pte
      | Some ip \<Rightarrow> decode_pte_gfx (ip_maj ip) (ip_min ip) e)"

subsection \<open>The size of an address space\<close>

text \<open>
  The rounding loops double or add until they reach the argument; the doubling one
  overflows to 0 above \<open>2 ^ 63\<close> and then never ends, which is \<open>None\<close>.
\<close>

partial_function (option) pot_loop :: "u64 \<Rightarrow> u64 \<Rightarrow> u64 option" where
  "pot_loop cur lim = (if cur < lim then pot_loop (push_bit 1 cur) lim else Some cur)"

definition round_up_pot :: "u64 \<Rightarrow> u64 option" where
  "round_up_pot x = pot_loop (1024 * 1024 * 1024) x"

partial_function (option) gib_loop :: "u64 \<Rightarrow> u64 \<Rightarrow> u64 option" where
  "gib_loop cur lim = (if cur < lim then gib_loop (cur + 1024 * 1024 * 1024) lim else Some cur)"

definition round_up_next_gib :: "u64 \<Rightarrow> u64 option" where
  "round_up_next_gib x = gib_loop (1024 * 1024 * 1024) x"

text \<open>Counting the shifts until the value is 0.\<close>

function shift_count :: "u64 \<Rightarrow> nat" where
  "shift_count x = (let y = drop_bit 1 x in if y \<noteq> 0 then Suc (shift_count y) else 0)"
  by pat_completeness auto
termination
proof (relation "measure unat", goal_cases)
  case (2 x y)
  then have "unat y = unat x div 2" by (simp add: drop_bit_eq_div unat_div)
  moreover have "unat y \<noteq> 0" using 2 by (simp add: unat_eq_0)
  ultimately show ?case by simp
qed simp

declare shift_count.simps [simp del]

definition log2_vm_size :: "u64 \<Rightarrow> u64 \<Rightarrow> nat option" where
  "log2_vm_size page_table_start_addr page_table_end_addr =
     map_option shift_count (round_up_pot (page_table_end_addr - page_table_start_addr + 4096))"

lemma pot_loop_0:
  assumes "0 < x"
  shows "pot_loop 0 x = None"
proof -
  have "y \<noteq> 0 \<or> x = 0" if "pot_loop y x = Some r" for y x r
  proof (rule pot_loop.raw_induct [of "\<lambda>y x r. y \<noteq> 0 \<or> x = 0", OF _ that])
    fix f :: "u64 \<Rightarrow> u64 \<Rightarrow> u64 option" and y x r
    assume "\<And>y x r. f y x = Some r \<Longrightarrow> y \<noteq> 0 \<or> x = 0"
      and "(if y < x then f (push_bit 1 y) x else Some y) = Some r"
    then show "y \<noteq> 0 \<or> x = 0" by (cases "y = 0"; cases "x = 0") (auto simp: word_gt_0)
  qed
  then show ?thesis using assms by (metis not_None_eq word_gt_0)
qed

lemma unat_pow2: "k < 64 \<Longrightarrow> unat (2 ^ k :: u64) = 2 ^ k"
proof -
  assume "k < 64"
  then have "(2 ^ k :: nat) < 2 ^ LENGTH(64)" by (intro power_strict_increasing) simp_all
  then have "unat (of_nat (2 ^ k) :: u64) = 2 ^ k" by (simp only: unsigned_of_nat take_bit_nat_eq_self of_nat_id)
  then show ?thesis by simp
qed

lemma pot_loop_pow2:
  assumes "k \<le> 63" and "k = k0 \<or> 2 ^ (k - 1) < x" and "k0 \<le> k"
  shows "if 2 ^ 63 < x then pot_loop (2 ^ k) x = None
         else \<exists>j. k0 \<le> j \<and> j \<le> 63 \<and> pot_loop (2 ^ k) x = Some (2 ^ j) \<and> x \<le> 2 ^ j \<and> (j = k0 \<or> 2 ^ (j - 1) < x)"
  using assms
proof (induction "63 - k" arbitrary: k)
  case 0
  then have k: "k = 63" by simp
  have z: "push_bit 1 (2 ^ 63) = (0 :: u64)" by simp
  show ?case
  proof (cases "2 ^ 63 < x")
    case True
    then have "pot_loop (2 ^ 63) x = pot_loop 0 x" unfolding pot_loop.simps [of "2 ^ 63" x] z by (rule if_P)
    then show ?thesis using True k pot_loop_0 [of x] by (simp add: word_gt_0) fastforce
  next
    case False
    then have "pot_loop (2 ^ k) x = Some (2 ^ k)" by (subst pot_loop.simps) (simp add: k)
    then show ?thesis using False 0 k by (auto simp: not_less)
  qed
next
  case (Suc n)
  then have k: "k < 63" by simp
  show ?case
  proof (cases "2 ^ k < x")
    case True
    have p: "push_bit 1 (2 ^ k) = (2 ^ Suc k :: u64)" by (simp add: push_bit_eq_mult)
    have eq: "pot_loop (2 ^ k) x = pot_loop (2 ^ Suc k) x"
      using True unfolding pot_loop.simps [of "2 ^ k" x] p by (rule if_P)
    have "n = 63 - Suc k" "Suc k \<le> 63" "Suc k = k0 \<or> 2 ^ (Suc k - 1) < x" "k0 \<le> Suc k"
      using Suc.hyps(2) Suc.prems True k by simp_all
    from Suc.hyps(1) [OF this] show ?thesis unfolding eq .
  next
    case False
    then have "pot_loop (2 ^ k) x = Some (2 ^ k)" by (subst pot_loop.simps) simp
    moreover have "(2 ^ k :: u64) \<le> 2 ^ 63"
      unfolding word_le_nat_alt using k unat_pow2 [of k] unat_pow2 [of 63]
      by (simp only: power_increasing [of k 63 "2::nat"])
    ultimately show ?thesis using False Suc.prems k by (auto simp: not_less)
  qed
qed

lemma shift_count_pow2: "k < 64 \<Longrightarrow> shift_count (2 ^ k) = k"
proof (induction k)
  case 0
  then show ?case by (simp add: shift_count.simps [of 1] drop_bit_eq_div)
next
  case (Suc k)
  have "drop_bit 1 (2 ^ Suc k) = (2 ^ k :: u64)"
    using Suc.prems by (intro bit_word_eqI) (auto simp: bit_simps)
  moreover have "(2 ^ k :: u64) \<noteq> 0" using Suc.prems unat_pow2 [of k] by (auto simp flip: unat_eq_0)
  ultimately show ?case using Suc by (simp add: shift_count.simps [of "2 * 2 ^ k"])
qed

lemma log2_vm_size_cases:
  "let x = page_table_end - page_table_start + 4096 in
   if 2 ^ 63 < x then log2_vm_size page_table_start page_table_end = None
   else \<exists>k. log2_vm_size page_table_start page_table_end = Some k \<and> 30 \<le> k \<and> k \<le> 63 \<and>
          x \<le> 2 ^ k \<and> (k = 30 \<or> 2 ^ (k - 1) < x)"
proof -
  have g: "(1024 * 1024 * 1024 :: u64) = 2 ^ 30" by simp
  show ?thesis
  proof (cases "2 ^ 63 < page_table_end - page_table_start + 4096")
    case True
    then show ?thesis
      using pot_loop_pow2 [of 30 30 "page_table_end - page_table_start + 4096"]
      unfolding log2_vm_size_def round_up_pot_def g Let_def by simp
  next
    case False
    then obtain j where "30 \<le> j" "j \<le> 63" "pot_loop (2 ^ 30) (page_table_end - page_table_start + 4096) = Some (2 ^ j)"
      "page_table_end - page_table_start + 4096 \<le> 2 ^ j"
      "j = 30 \<or> 2 ^ (j - 1) < page_table_end - page_table_start + 4096"
      using pot_loop_pow2 [of 30 30 "page_table_end - page_table_start + 4096"] by auto
    moreover from this have "log2_vm_size page_table_start page_table_end = Some j"
      unfolding log2_vm_size_def round_up_pot_def g using shift_count_pow2 [of j] by simp
    ultimately show ?thesis using False unfolding Let_def by auto
  qed
qed

lemma log2_vm_size_le: "log2_vm_size a b = Some k \<Longrightarrow> k \<le> 63"
  using log2_vm_size_cases [of b a] by (auto simp: Let_def split: if_splits)

text \<open>C33: The number of address bits of a VM is the exponent of the smallest power of two, from
  1 GiB on, that covers the span of its page table; the computation ends exactly when the
  span is at most \<open>2 ^ 63\<close> bytes, and loops for ever on a larger one.\<close>

theorem log2_vm_size_correct:
  "let x = page_table_end - page_table_start + 4096 in
   if 2 ^ 63 < x then log2_vm_size page_table_start page_table_end = None
   else \<exists>k. log2_vm_size page_table_start page_table_end = Some k \<and> 30 \<le> k \<and> k \<le> 63 \<and>
          x \<le> 2 ^ k \<and> (k = 30 \<or> 2 ^ (k - 1) < x)"
  by (rule log2_vm_size_cases)

subsection \<open>What the decoders return\<close>

lemma shr_and_le: "shr_and x n m \<le> m"
  by (simp add: shr_and_def word_and_le1)


text \<open>The format table gives the memory type of a GFX10 entry the three bits 50 to 48; the
  decoder keeps two of them, so two entries that differ in their memory type decode to
  the same.\<close>

theorem nv_mtype_truncated:
  "decode_pte_gfx 10 mnr (e OR push_bit 50 1) = decode_pte_gfx 10 mnr (e AND NOT (push_bit 50 1)) \<and>
   shr_and (e OR push_bit 50 1) 48 7 \<noteq> shr_and (e AND NOT (push_bit 50 1)) 48 7"
proof -
  define w where "w = push_bit 50 (1 :: u64)"
  have bw: "bit w i \<longleftrightarrow> i = 50" for i
    unfolding w_def by (simp only: bit_push_bit_iff bit_1_iff possible_bit_word) auto
  let ?a = "e OR w" and ?b = "e AND NOT w"
  have bits: "bit ?a i = bit ?b i" if "i \<noteq> 50" for i
    using that bit_imp_le_length [of e i] by (auto simp: bit_or_iff bit_and_iff bit_not_iff bw)
  have field: "shr_and ?a n (mask k) = shr_and ?b n (mask k)" if "50 < n \<or> n + k \<le> 50" for n k
    using that by (intro bit_word_eqI) (auto simp: bit_shr_and_mask bits)
  have m: "(1 :: u64) = mask 1" "(3 :: u64) = mask 2" "(0x1F :: u64) = mask 5" "(7 :: u64) = mask 3"
    by (simp_all add: mask_eq_exp_minus_1)
  have masked: "?a AND c = ?b AND c" if "\<not> bit c 50" for c
  proof (rule bit_word_eqI)
    fix n assume "n < LENGTH(64)"
    show "bit (?a AND c) n = bit (?b AND c) n"
      using that bits [of n] by (cases "n = 50") (auto simp: bit_and_iff [of _ c])
  qed
  have eq: "pte_flags_gfx 10 mnr ?a = pte_flags_gfx 10 mnr ?b"
    unfolding pte_flags_gfx_def pte_common_def m
    using field [of _ 1] field [of 7 5] field [of 48 2] masked [of "mask 1"] by (simp add: bit_simps)
  have "bit (shr_and ?a 48 (mask 3)) 2" "\<not> bit (shr_and ?b 48 (mask 3)) 2"
    by (simp_all add: bit_shr_and_mask bit_or_iff bit_and_iff bit_not_iff bw)
  then have "shr_and ?a 48 7 \<noteq> shr_and ?b 48 7" unfolding m by metis
  moreover have "decode_pte_gfx 10 mnr ?a = decode_pte_gfx 10 mnr ?b"
    unfolding decode_pte_gfx_def Let_def eq
    using masked [of "0xFFFFFFFFFFC0"] masked [of "0xFFFFFFFFF000"] by simp
  ultimately show ?thesis unfolding w_def by blast
qed

subsection \<open>Encoding and decoding\<close>

text \<open>A GFX9 page table entry composed from its fields, after the format table.\<close>

definition pte9_layout :: "pte_fields \<Rightarrow> (nat \<times> nat \<times> u64) list" where
  "pte9_layout f =
     [(0, 1, pte_valid f), (1, 1, pte_system f), (2, 1, pte_coherent f), (3, 1, pte_tmz f),
      (4, 1, pte_execute f), (5, 1, pte_read f), (6, 1, pte_write f), (7, 5, pte_fragment f),
      (12, 36, drop_bit 12 (pte_page_base_addr f)), (51, 1, pte_prt f), (54, 1, pte_pde f),
      (56, 1, pte_further f), (57, 2, pte_mtype f)]"

definition encode_pte9 :: "pte_fields \<Rightarrow> u64" where
  "encode_pte9 f = pack (pte9_layout f)"

definition pte9_ok :: "pte_fields \<Rightarrow> bool" where
  "pte9_ok f \<longleftrightarrow>
     pte_valid f \<le> 1 \<and> pte_system f \<le> 1 \<and> pte_coherent f \<le> 1 \<and> pte_tmz f \<le> 1 \<and> pte_execute f \<le> 1 \<and>
     pte_read f \<le> 1 \<and> pte_write f \<le> 1 \<and> pte_fragment f \<le> 31 \<and> pte_prt f \<le> 1 \<and> pte_pde f \<le> 1 \<and>
     pte_further f = 0 \<and> pte_mtype f \<le> 3 \<and> pte_page_base_addr f AND 0xFFFFFFFFF000 = pte_page_base_addr f \<and>
     pte_gcr f = 0 \<and> pte_llc_noalloc f = 0 \<and> pte_software f = 0 \<and> pte_pa_rsvd f = 0 \<and> pte_dcc f = 0 \<and>
     pte_pte f = 0"

lemma pte9_field:
  assumes "(n, k, v) \<in> set (pte9_layout f)" and "v \<le> mask k"
  shows "shr_and (encode_pte9 f) n (mask k) = v"
proof -
  have "fields_apart (pte9_layout f)" by (simp add: pte9_layout_def)
  moreover have "n + k \<le> 64" using assms(1) by (auto simp: pte9_layout_def)
  ultimately show ?thesis
    unfolding encode_pte9_def using shr_and_pack [OF _ assms(1)] le_mask_and [OF assms(2)] by simp
qed

lemma base_field: "push_bit 12 (drop_bit 12 b AND mask 36) = b AND (0xFFFFFFFFF000 :: u64)"
proof -
  have m: "(0xFFFFFFFFF000 :: u64) = push_bit 12 (mask 36)" by (simp add: mask_eq_exp_minus_1)
  show ?thesis
    unfolding m
    by (rule bit_word_eqI) (auto simp only: bit_push_bit_iff bit_and_iff bit_drop_bit_eq bit_mask_iff
        possible_bit_word comp_def le_add_diff_inverse)
qed

lemma encode_pte9_base:
  assumes "pte_page_base_addr f AND 0xFFFFFFFFF000 = pte_page_base_addr f"
  shows "encode_pte9 f AND 0xFFFFFFFFF000 = pte_page_base_addr f"
proof -
  have "fields_apart (pte9_layout f)" by (simp add: pte9_layout_def)
  then have "shr_and (encode_pte9 f) 12 (mask 36) = drop_bit 12 (pte_page_base_addr f) AND mask 36"
    unfolding encode_pte9_def by (rule shr_and_pack) (simp_all add: pte9_layout_def)
  then have "push_bit 12 (drop_bit 12 (encode_pte9 f) AND mask 36) = pte_page_base_addr f"
    using base_field [of "pte_page_base_addr f"] assms by (simp add: shr_and_def)
  then show ?thesis by (simp only: base_field)
qed

text \<open>C25: Encoding and decoding are inverse for GFX9: an entry composed from well formed fields by
  the format table decodes to those fields.\<close>

theorem decode_encode_pte9:
  assumes "pte9_ok f"
  shows "decode_pte_gfx 9 mnr (encode_pte9 f) = f"
proof -
  let ?e = "encode_pte9 f"
  have one: "shr_and ?e n 1 = v" if "(n, 1, v) \<in> set (pte9_layout f)" "v \<le> 1" for n v
    using pte9_field [of n 1 v f] that by simp
  have "?e AND 1 = pte_valid f" using one [of 0 "pte_valid f"] assms
    by (simp add: shr_and_def pte9_layout_def pte9_ok_def)
  moreover have "shr_and ?e 7 0x1F = pte_fragment f" "shr_and ?e 57 3 = pte_mtype f"
    using pte9_field [of 7 5 "pte_fragment f" f] pte9_field [of 57 2 "pte_mtype f" f] assms
    by (simp_all add: pte9_layout_def pte9_ok_def mask_eq_exp_minus_1)
  moreover have "?e AND 0xFFFFFFFFF000 = pte_page_base_addr f"
    using assms by (intro encode_pte9_base) (simp add: pte9_ok_def)
  moreover have "shr_and ?e 1 1 = pte_system f" "shr_and ?e 2 1 = pte_coherent f" "shr_and ?e 3 1 = pte_tmz f"
    "shr_and ?e 4 1 = pte_execute f" "shr_and ?e 5 1 = pte_read f" "shr_and ?e 6 1 = pte_write f"
    "shr_and ?e 51 1 = pte_prt f" "shr_and ?e 54 1 = pte_pde f" "shr_and ?e 56 1 = pte_further f"
    using assms by (simp_all add: one pte9_layout_def pte9_ok_def)
  ultimately show ?thesis
    using assms
    by (simp add: decode_pte_gfx_def pte_flags_gfx_def pte_common_def pte_is_pde_def pte9_ok_def zero_pte_def)
qed

theorem decode_encode_pte9_witness:
  "decode_pte_gfx 9 0 (encode_pte9 (zero_pte\<lparr>pte_valid := 1, pte_page_base_addr := 0x12345000, pte_mtype := 2\<rparr>)) =
   zero_pte\<lparr>pte_valid := 1, pte_page_base_addr := 0x12345000, pte_mtype := 2\<rparr>"
  by (rule decode_encode_pte9) (simp add: pte9_ok_def zero_pte_def)

end
