(* ===== verification/Harness_Script.thy ===== *)
theory Harness_Script
  imports Umr_Types "HOL-Library.Monad_Syntax"
begin

text \<open>
  The test vector language (\<^verbatim>\<open>src/lib/testing_harness.c\<close>, first half): the tokeniser, the
  parser that builds a harness from a script, and the lines that the low level layer
  logs (\<^verbatim>\<open>src/lib/lowlevel/linux/mem.c\<close>, \<^verbatim>\<open>src/lib/lowlevel/linux/mmio.c\<close>).  The
  parse pointer is the rest of the text; the end of the list is the terminating NUL,
  and stepping over it is \<open>None\<close>.  Memory for the arrays is taken to be available.
\<close>

subsection \<open>The harness\<close>

record ram_block =
  rb_base_address :: u64
  rb_contents :: "u8 list"

record mmio_block =
  mm_mmio_address :: u64
  mm_values :: "u32 list"
  mm_cur_slot :: nat

record sq_block =
  sq_sq_address :: u32
  sq_values :: "u32 list"
  sq_cur_slot :: nat

text \<open>
  Every linked list ends in the zeroed block that the parser has allocated for the
  next entry, so the model's lists are never empty and their last element is that block.
\<close>

record umr_test_harness =
  th_vram :: "ram_block list"
  th_sysram :: "ram_block list"
  th_config :: "ram_block list"
  th_discovery :: "ram_block list"
  th_mmio :: "mmio_block list"
  th_vgpr :: "mmio_block list"
  th_sgpr :: "mmio_block list"
  th_wave :: "mmio_block list"
  th_ring :: "mmio_block list"
  th_sq :: "sq_block list"
  th_vram_mm_index :: u64
  th_sq_ind_index :: u32

definition zero_ram :: ram_block where
  "zero_ram = \<lparr>rb_base_address = 0, rb_contents = []\<rparr>"

definition zero_mmio :: mmio_block where
  "zero_mmio = \<lparr>mm_mmio_address = 0, mm_values = [], mm_cur_slot = 0\<rparr>"

definition zero_sq :: sq_block where
  "zero_sq = \<lparr>sq_sq_address = 0, sq_values = [], sq_cur_slot = 0\<rparr>"

definition zero_harness :: umr_test_harness where
  "zero_harness = \<lparr>th_vram = [zero_ram], th_sysram = [zero_ram], th_config = [zero_ram],
     th_discovery = [zero_ram], th_mmio = [zero_mmio], th_vgpr = [zero_mmio], th_sgpr = [zero_mmio],
     th_wave = [zero_mmio], th_ring = [zero_mmio], th_sq = [zero_sq], th_vram_mm_index = 0,
     th_sq_ind_index = 0\<rparr>"

text \<open>Filling the last block and chaining a fresh one behind it.\<close>

definition push_ram :: "u64 \<Rightarrow> u8 list \<Rightarrow> ram_block list \<Rightarrow> ram_block list" where
  "push_ram a bs l = butlast l @ [\<lparr>rb_base_address = a, rb_contents = bs\<rparr>, zero_ram]"

definition push_mmio :: "u64 \<Rightarrow> u32 list \<Rightarrow> mmio_block list \<Rightarrow> mmio_block list" where
  "push_mmio a vs l = butlast l @ [\<lparr>mm_mmio_address = a, mm_values = vs, mm_cur_slot = 0\<rparr>, zero_mmio]"

definition push_sq :: "u32 \<Rightarrow> u32 list \<Rightarrow> sq_block list \<Rightarrow> sq_block list" where
  "push_sq a vs l = butlast l @ [\<lparr>sq_sq_address = a, sq_values = vs, sq_cur_slot = 0\<rparr>, zero_sq]"

subsection \<open>Characters\<close>

definition is_ws :: "char \<Rightarrow> bool" where
  "is_ws c \<longleftrightarrow> c = CHR '' '' \<or> c = CHR 0x09 \<or> c = CHR 0x0A"

definition isspace :: "char \<Rightarrow> bool" where
  "isspace c \<longleftrightarrow> c = CHR '' '' \<or> (9 \<le> (of_char c :: nat) \<and> (of_char c :: nat) \<le> 13)"

definition hex_digit :: "char \<Rightarrow> nat option" where
  "hex_digit c =
     (let n = of_char c :: nat in
      if 48 \<le> n \<and> n \<le> 57 then Some (n - 48)
      else if 97 \<le> n \<and> n \<le> 102 then Some (n - 87)
      else if 65 \<le> n \<and> n \<le> 70 then Some (n - 55)
      else None)"

definition isxdigit :: "char \<Rightarrow> bool" where
  "isxdigit c \<longleftrightarrow> hex_digit c \<noteq> None"

subsection \<open>Tokens\<close>

definition chomp :: "string \<Rightarrow> string" where
  "chomp s = (case dropWhile (\<lambda>c. c \<noteq> CHR 0x0A) s of [] \<Rightarrow> [] | _ # t \<Rightarrow> t)"

lemma dropWhile_Cons_length: "dropWhile P s = c # t \<Longrightarrow> length t < length s"
  using length_dropWhile_le [of P s] by simp

lemma length_chomp: "s \<noteq> [] \<Longrightarrow> length (chomp s) < length s"
  unfolding chomp_def by (simp split: list.split add: dropWhile_Cons_length)

function consume_whitespace :: "string \<Rightarrow> string" where
  "consume_whitespace s =
     (let t = dropWhile is_ws s in
      if t \<noteq> [] \<and> hd t = CHR '';'' then consume_whitespace (chomp t) else t)"
  by pat_completeness auto
termination
proof (relation "measure length", goal_cases)
  case (2 s t)
  then have "length (chomp t) < length t" by (intro length_chomp) simp
  then show ?case using 2 length_dropWhile_le [of is_ws s] by simp
qed simp

declare consume_whitespace.simps [simp del]

definition consume_hexdigits :: "string \<Rightarrow> string" where
  "consume_hexdigits s = dropWhile (\<lambda>c. isxdigit c \<or> c = CHR ''x'' \<or> c = CHR ''X'') s"

definition hex_value :: "string \<Rightarrow> nat" where
  "hex_value ds = foldl (\<lambda>n c. 16 * n + the (hex_digit c)) 0 ds"

text \<open>
  The conversion \<^verbatim>\<open>%x\<close> of \<^verbatim>\<open>sscanf\<close>: white space, a sign, the prefix \<^verbatim>\<open>0x\<close> and the
  digits; no digit is a mismatch.  The value is signed here; the callers reduce it to
  their width, and a magnitude beyond the width has no defined result.
\<close>

definition scan_hex :: "string \<Rightarrow> int option" where
  "scan_hex s =
     (let t = dropWhile isspace s;
          neg = (t \<noteq> [] \<and> hd t = CHR ''-'');
          u = (if t \<noteq> [] \<and> (hd t = CHR ''-'' \<or> hd t = CHR ''+'') then tl t else t);
          v = (if take 2 u = ''0x'' \<or> take 2 u = ''0X'' then drop 2 u else u);
          ds = takeWhile isxdigit v
      in if ds = [] then None else Some (if neg then - int (hex_value ds) else int (hex_value ds)))"

definition consume_xint64 :: "string \<Rightarrow> (u64 option \<times> string) option" where
  "consume_xint64 s =
     (let t = consume_whitespace s in
      case scan_hex t of
        Some v \<Rightarrow> if \<bar>v\<bar> < 2 ^ 64 then Some (Some (word_of_int v), consume_hexdigits t) else None
      | None \<Rightarrow> Some (None, t))"

definition consume_xint32 :: "string \<Rightarrow> (u32 option \<times> string) option" where
  "consume_xint32 s =
     (let t = consume_whitespace s in
      case scan_hex t of
        Some v \<Rightarrow> if \<bar>v\<bar> < 2 ^ 32 then Some (Some (word_of_int v), consume_hexdigits t) else None
      | None \<Rightarrow> Some (None, t))"

text \<open>
  Two hex digits, with anything between and before them skipped.  Where the text ends
  before the second one the pointer is left behind the terminator, and the caller's next
  step reads there: \<open>None\<close>.
\<close>

definition consume_xint8 :: "string \<Rightarrow> (u8 option \<times> string) option" where
  "consume_xint8 s =
     (let t = consume_whitespace s in
      if t \<noteq> [] \<and> hd t = CHR ''}'' then Some (None, t)
      else case dropWhile (\<lambda>c. \<not> isxdigit c) t of
             [] \<Rightarrow> None
           | c # n1 \<Rightarrow> (case dropWhile (\<lambda>c. \<not> isxdigit c) n1 of
                          [] \<Rightarrow> None
                        | d # n2 \<Rightarrow> Some (Some (of_nat (hex_value [c, d])), n2)))"

lemma length_consume_whitespace: "length (consume_whitespace s) \<le> length s"
proof (induction s rule: consume_whitespace.induct)
  case (1 s)
  let ?t = "dropWhile is_ws s"
  have le: "length ?t \<le> length s" by (rule length_dropWhile_le)
  show ?case
  proof (cases "?t \<noteq> [] \<and> hd ?t = CHR '';''")
    case True
    then have eq: "consume_whitespace s = consume_whitespace (chomp ?t)"
      unfolding consume_whitespace.simps [of s] Let_def by simp
    show ?thesis unfolding eq using "1.IH" [OF refl True] length_chomp [OF conjunct1 [OF True]] le by linarith
  next
    case False
    then have "consume_whitespace s = ?t" unfolding consume_whitespace.simps [of s] Let_def by argo
    then show ?thesis using le by simp
  qed
qed

lemma length_consume_xint8:
  assumes "consume_xint8 s = Some (Some v, s')"
  shows "length s' < length s"
proof -
  obtain c n1 d where "dropWhile (\<lambda>c. \<not> isxdigit c) (consume_whitespace s) = c # n1"
    and "dropWhile (\<lambda>c. \<not> isxdigit c) n1 = d # s'"
    using assms unfolding consume_xint8_def Let_def by (auto split: if_splits list.splits)
  then show ?thesis
    using length_consume_whitespace [of s] dropWhile_Cons_length by (metis less_le_trans less_trans)
qed

function bytes_loop :: "u8 list \<Rightarrow> string \<Rightarrow> (u8 list \<times> string) option" where
  "bytes_loop acc s =
     (case consume_xint8 s of
        None \<Rightarrow> None
      | Some (None, t) \<Rightarrow> Some (acc, t)
      | Some (Some b, t) \<Rightarrow> bytes_loop (acc @ [b]) t)"
  by pat_completeness auto
termination
  by (relation "measure (length \<circ> snd)") (auto dest: length_consume_xint8)

declare bytes_loop.simps [simp del]

text \<open>
  \<^verbatim>\<open>{...}\<close> of bytes.  A syntax error leaves a size of zero, which the callers take for
  an error, as they do the empty array: both are the empty list.
\<close>

definition expect_close :: "'a list \<Rightarrow> string \<Rightarrow> 'a list \<times> string" where
  "expect_close xs s =
     (let t = consume_whitespace s in
      if t \<noteq> [] \<and> hd t = CHR ''}'' then (xs, tl t) else ([], t))"

definition consume_bytes :: "string \<Rightarrow> (u8 list \<times> string) option" where
  "consume_bytes s =
     (let t = consume_whitespace s in
      if t \<noteq> [] \<and> hd t = CHR ''{'' then do {
        (bs, u) \<leftarrow> bytes_loop [] (tl t);
        Some (expect_close bs u) }
      else Some ([], t))"

lemma length_consume_xint32:
  "consume_xint32 s = Some (v, s') \<Longrightarrow> length s' \<le> length s"
  using length_consume_whitespace [of s]
    length_dropWhile_le [of "\<lambda>c. isxdigit c \<or> c = CHR ''x'' \<or> c = CHR ''X''" "consume_whitespace s"]
  by (auto simp: consume_xint32_def consume_hexdigits_def Let_def split: if_splits option.splits)

function words_loop :: "u32 list \<Rightarrow> string \<Rightarrow> (u32 list \<times> string) option" where
  "words_loop acc s =
     (case consume_xint32 s of
        None \<Rightarrow> None
      | Some (None, t) \<Rightarrow> Some (acc, t)
      | Some (Some v, t) \<Rightarrow>
          let u = consume_whitespace t in
          if u \<noteq> [] \<and> hd u = CHR '','' then words_loop (acc @ [v]) (tl u) else Some (acc @ [v], u))"
  by pat_completeness auto
termination
proof (relation "measure (length \<circ> snd)", goal_cases)
  case (2 acc s x xa t v u)
  then have "length u \<le> length s" and "u \<noteq> []"
    using length_consume_xint32 [of s xa t] length_consume_whitespace [of t] by auto
  then have "length (tl u) < length s" by (cases u) auto
  then show ?case by simp
qed simp

declare words_loop.simps [simp del]

definition consume_words :: "string \<Rightarrow> (u32 list \<times> string) option" where
  "consume_words s =
     (let t = consume_whitespace s in
      if t \<noteq> [] \<and> hd t = CHR ''{'' then do {
        (vs, u) \<leftarrow> words_loop [] (tl t);
        Some (expect_close vs u) }
      else Some ([], t))"

definition consume_word :: "string \<Rightarrow> string \<Rightarrow> bool \<times> string" where
  "consume_word token s =
     (let t = consume_whitespace s in
      if take (length token) t = token then (True, drop (length token) t) else (False, t))"

subsection \<open>The script\<close>

text \<open>
  A section of the main loop gets the harness and the text.  \<open>None\<close> is undefined
  behaviour, \<open>Some None\<close> the jump to the error label.
\<close>

type_synonym th_state = "umr_test_harness \<times> string"
type_synonym th_section = "th_state \<Rightarrow> th_state option option"

definition section_body ::
    "(string \<Rightarrow> (u64 option \<times> string) option) \<Rightarrow> (string \<Rightarrow> ('a list \<times> string) option) \<Rightarrow>
     (u64 \<Rightarrow> 'a list \<Rightarrow> umr_test_harness \<Rightarrow> umr_test_harness) \<Rightarrow> th_section" where
  "section_body addr payload add st = do {
     (a, s) \<leftarrow> addr (snd st);
     case a of
       None \<Rightarrow> Some None
     | Some a \<Rightarrow>
         let (eq, s) = consume_word ''='' s in
         if \<not> eq then Some None
         else do {
           (xs, s) \<leftarrow> payload s;
           Some (if xs = [] then None else Some (add a xs (fst st), s)) } }"

definition th_section ::
    "string \<Rightarrow> (string \<Rightarrow> (u64 option \<times> string) option) \<Rightarrow> (string \<Rightarrow> ('a list \<times> string) option) \<Rightarrow>
     (u64 \<Rightarrow> 'a list \<Rightarrow> umr_test_harness \<Rightarrow> umr_test_harness) \<Rightarrow> th_section" where
  "th_section token addr payload add st =
     (let (hit, s) = consume_word token (snd st) in
      if hit then section_body addr payload add (fst st, s) else Some (Some (fst st, s)))"

definition no_addr :: "string \<Rightarrow> (u64 option \<times> string) option" where
  "no_addr s = Some (Some 0, s)"

definition addr32 :: "string \<Rightarrow> (u64 option \<times> string) option" where
  "addr32 s = map_option (apfst (map_option ucast)) (consume_xint32 s)"

definition all_sections :: "th_section list" where
  "all_sections =
     [th_section ''GCACONFIG'' no_addr consume_bytes (\<lambda>a bs th. th\<lparr>th_config := push_ram a bs (th_config th)\<rparr>),
      th_section ''DISCOVERY'' no_addr consume_bytes (\<lambda>a bs th. th\<lparr>th_discovery := push_ram a bs (th_discovery th)\<rparr>),
      th_section ''SYSRAM@'' consume_xint64 consume_bytes (\<lambda>a bs th. th\<lparr>th_sysram := push_ram a bs (th_sysram th)\<rparr>),
      th_section ''VRAM@'' consume_xint64 consume_bytes (\<lambda>a bs th. th\<lparr>th_vram := push_ram a bs (th_vram th)\<rparr>),
      th_section ''MMIO@'' addr32 consume_words (\<lambda>a vs th. th\<lparr>th_mmio := push_mmio a vs (th_mmio th)\<rparr>),
      th_section ''VGPR@'' consume_xint64 consume_words (\<lambda>a vs th. th\<lparr>th_vgpr := push_mmio a vs (th_vgpr th)\<rparr>),
      th_section ''SGPR@'' consume_xint64 consume_words (\<lambda>a vs th. th\<lparr>th_sgpr := push_mmio a vs (th_sgpr th)\<rparr>),
      th_section ''WAVESTATUS@'' consume_xint64 consume_words (\<lambda>a vs th. th\<lparr>th_wave := push_mmio a vs (th_wave th)\<rparr>),
      th_section ''RINGDATA'' no_addr consume_words (\<lambda>a vs th. th\<lparr>th_ring := push_mmio a vs (th_ring th)\<rparr>),
      th_section ''SQ@'' addr32 consume_words (\<lambda>a vs th. th\<lparr>th_sq := push_sq (ucast a) vs (th_sq th)\<rparr>)]"

fun run_sections :: "th_section list \<Rightarrow> th_section" where
  "run_sections [] st = Some (Some st)"
| "run_sections (f # fs) st = do {
     r \<leftarrow> f st;
     (case r of None \<Rightarrow> Some None | Some st' \<Rightarrow> run_sections fs st') }"

text \<open>The main loop runs until the text is used up; not returning is \<open>None\<close>.\<close>

partial_function (option) script_loop :: "th_state \<Rightarrow> umr_test_harness option option" where
  "script_loop st =
     (if snd st = [] then Some (Some (fst st))
      else do {
        r \<leftarrow> run_sections all_sections (fst st, consume_whitespace (snd st));
        (case r of None \<Rightarrow> Some None | Some st' \<Rightarrow> script_loop st') })"

definition umr_create_test_harness :: "string \<Rightarrow> umr_test_harness option option" where
  "umr_create_test_harness script = script_loop (zero_harness, script)"

subsection \<open>The log\<close>

text \<open>The lines written to the test log, one constructor for each place that writes one.\<close>

datatype log_line =
  Log_config "u8 list"
| Log_discovery "u8 list"
| Log_sysram u64 "u8 list"
| Log_vram u64 "u8 list"
| Log_mmio u32 u32 string
| Log_sq u32 u32 string
| Log_gpr bool u64 "u32 list"
| Log_wave u64 "u32 list"
| Log_ring "u32 list"

definition hex_char :: "nat \<Rightarrow> char" where
  "hex_char n = char_of (if n < 10 then 48 + n else 87 + n)"

text \<open>\<^verbatim>\<open>%x\<close> and \<^verbatim>\<open>%02x\<close>.\<close>

fun hex_str :: "nat \<Rightarrow> string" where
  "hex_str n = (if n < 16 then [hex_char n] else hex_str (n div 16) @ [hex_char (n mod 16)])"

declare hex_str.simps [simp del]

definition hex2 :: "u8 \<Rightarrow> string" where
  "hex2 b = [hex_char (unat b div 16), hex_char (unat b mod 16)]"

fun hex_words :: "u32 list \<Rightarrow> string" where
  "hex_words [] = []"
| "hex_words [v] = ''0x'' @ hex_str (unat v)"
| "hex_words (v # w # vs) = ''0x'' @ hex_str (unat v) @ '', '' @ hex_words (w # vs)"

definition nl :: string where
  "nl = [CHR 0x0A]"

fun log_text :: "log_line \<Rightarrow> string" where
  "log_text (Log_config bs) = ''GCACONFIG = { '' @ concat (map hex2 bs) @ '' }'' @ nl"
| "log_text (Log_discovery bs) = ''DISCOVERY = { '' @ concat (map hex2 bs) @ ''}'' @ nl"
| "log_text (Log_sysram a bs) = ''SYSRAM@0x'' @ hex_str (unat a) @ '' = {'' @ concat (map hex2 bs) @ ''}'' @ nl"
| "log_text (Log_vram a bs) = ''VRAM@0x'' @ hex_str (unat a) @ '' = {'' @ concat (map hex2 bs) @ ''}'' @ nl"
| "log_text (Log_mmio a v c) = ''MMIO@0x'' @ hex_str (unat a) @ '' = { 0x'' @ hex_str (unat v) @ '' } ; '' @ c @ nl"
| "log_text (Log_sq a v c) = ''SQ@0x'' @ hex_str (unat a) @ '' = { 0x'' @ hex_str (unat v) @ '' } ; '' @ c @ nl"
| "log_text (Log_gpr vgpr a vs) =
     (if vgpr then ''VGPR@0x'' else ''SGPR@0x'') @ hex_str (unat a) @ '' = { '' @ hex_words vs @ ''}'' @ nl"
| "log_text (Log_wave a vs) = ''WAVESTATUS@0x'' @ hex_str (unat a) @ '' = { '' @ hex_words vs @ ''}'' @ nl"
| "log_text (Log_ring vs) = ''RINGDATA = { '' @ hex_words vs @ ''}'' @ nl"

definition log_script :: "log_line list \<Rightarrow> string" where
  "log_script ls = concat (map log_text ls)"

subsection \<open>The log reads back\<close>

lemma hex_digit_hex_char [simp]: "n < 16 \<Longrightarrow> hex_digit (hex_char n) = Some n"
  by (auto simp: hex_digit_def hex_char_def Let_def)

lemma isxdigit_hex_char [simp]: "n < 16 \<Longrightarrow> isxdigit (hex_char n)"
  by (simp add: isxdigit_def)

lemma hex_str_digits: "list_all isxdigit (hex_str n)"
proof (induction n rule: hex_str.induct)
  case (1 n)
  then show ?case by (simp add: hex_str.simps [of n])
qed

lemma hex_str_not_Nil: "hex_str n \<noteq> []"
  by (simp add: hex_str.simps [of n])

lemma hex_value_snoc: "hex_value (ds @ [c]) = 16 * hex_value ds + the (hex_digit c)"
  by (simp add: hex_value_def)

lemma hex_value_hex_str: "hex_value (hex_str n) = n"
proof (induction n rule: hex_str.induct)
  case (1 n)
  show ?case
  proof (cases "n < 16")
    case True
    then show ?thesis by (simp add: hex_str.simps [of n] hex_value_def)
  next
    case False
    then show ?thesis using 1 by (simp add: hex_str.simps [of n] hex_value_snoc)
  qed
qed

lemma hex_value_hex2: "hex_value (hex2 b) = unat b"
proof -
  have "unat b < 256" using unsigned_less [of b, where 'a = nat] by simp
  then have "unat b div 16 < 16" by simp
  then show ?thesis by (simp add: hex2_def hex_value_def)
qed

text \<open>Texts that no digit and no white space or comment character starts.\<close>

definition starts_plain :: "string \<Rightarrow> bool" where
  "starts_plain s \<longleftrightarrow> (case s of [] \<Rightarrow> True | c # _ \<Rightarrow> \<not> is_ws c \<and> c \<noteq> CHR '';'')"

definition starts_nonhex :: "string \<Rightarrow> bool" where
  "starts_nonhex s \<longleftrightarrow> (case s of [] \<Rightarrow> True | c # _ \<Rightarrow> \<not> isxdigit c \<and> c \<noteq> CHR ''x'' \<and> c \<noteq> CHR ''X'')"

lemma consume_whitespace_plain [simp]: "starts_plain s \<Longrightarrow> consume_whitespace s = s"
  by (cases s; subst consume_whitespace.simps) (auto simp: starts_plain_def Let_def)

lemma consume_whitespace_ws: "is_ws c \<Longrightarrow> consume_whitespace (c # s) = consume_whitespace s"
  by (simp add: consume_whitespace.simps [of "c # s"] consume_whitespace.simps [of s])

lemma consume_whitespace_idem: "consume_whitespace (consume_whitespace s) = consume_whitespace s"
proof (induction s rule: consume_whitespace.induct)
  case (1 s)
  let ?t = "dropWhile is_ws s"
  show ?case
  proof (cases "?t \<noteq> [] \<and> hd ?t = CHR '';''")
    case True
    then have "consume_whitespace s = consume_whitespace (chomp ?t)"
      unfolding consume_whitespace.simps [of s] Let_def by simp
    then show ?thesis using "1.IH" [OF refl True] by simp
  next
    case False
    then have e: "consume_whitespace s = ?t" unfolding consume_whitespace.simps [of s] Let_def by argo
    moreover have "starts_plain ?t"
    proof (cases ?t)
      case (Cons c u)
      then have "dropWhile is_ws s \<noteq> []" by simp
      from hd_dropWhile [OF this] show ?thesis using False Cons by (simp add: starts_plain_def)
    qed (simp only: starts_plain_def list.case)
    ultimately show ?thesis by simp
  qed
qed

lemma consume_comment:
  "CHR 0x0A \<notin> set c \<Longrightarrow> consume_whitespace (CHR '';'' # c @ CHR 0x0A # s) = consume_whitespace s"
proof -
  assume "CHR 0x0A \<notin> set c"
  then have "dropWhile (\<lambda>c. c \<noteq> CHR 0x0A) (c @ CHR 0x0A # s) = dropWhile (\<lambda>c. c \<noteq> CHR 0x0A) (CHR 0x0A # s)"
    by (intro dropWhile_append2) auto
  then have "chomp (CHR '';'' # c @ CHR 0x0A # s) = s" by (simp add: chomp_def)
  then show ?thesis by (simp add: consume_whitespace.simps [of "CHR '';'' # c @ CHR 0x0A # s"] is_ws_def)
qed

lemma takeWhile_hex: "starts_nonhex s \<Longrightarrow> takeWhile isxdigit (hex_str n @ s) = hex_str n"
  using hex_str_digits [of n]
  by (subst takeWhile_append2) (auto simp: list_all_iff starts_nonhex_def split: list.splits)

lemma scan_hex_0x:
  assumes "starts_nonhex s"
  shows "scan_hex (CHR ''0'' # CHR ''x'' # hex_str n @ s) = Some (int n)"
  using assms hex_str_not_Nil [of n]
  by (simp add: scan_hex_def Let_def isspace_def takeWhile_hex hex_value_hex_str)

lemma consume_hexdigits_0x:
  assumes "starts_nonhex s"
  shows "consume_hexdigits (CHR ''0'' # CHR ''x'' # hex_str n @ s) = s"
proof -
  have z: "isxdigit (CHR ''0'')" by code_simp
  have "dropWhile (\<lambda>c. isxdigit c \<or> c = CHR ''x'' \<or> c = CHR ''X'') (hex_str n @ s) = s"
    using assms hex_str_digits [of n]
    by (subst dropWhile_append2) (auto simp: list_all_iff starts_nonhex_def split: list.splits)
  with z show ?thesis by (simp add: consume_hexdigits_def)
qed

lemma plain_0x [simp]: "starts_plain (CHR ''0'' # s)"
  by (simp add: starts_plain_def is_ws_def)

lemma consume_xint64_0x:
  assumes "starts_nonhex s"
  shows "consume_xint64 (CHR ''0'' # CHR ''x'' # hex_str (unat (a :: u64)) @ s) = Some (Some a, s)"
proof -
  have "uint a < 2 ^ 64" using uint_bounded [of a] by simp
  then show ?thesis
    using assms by (simp add: consume_xint64_def Let_def scan_hex_0x consume_hexdigits_0x)
qed

lemma consume_xint32_0x:
  assumes "starts_nonhex s"
  shows "consume_xint32 (CHR ''0'' # CHR ''x'' # hex_str (unat (a :: u32)) @ s) = Some (Some a, s)"
proof -
  have "uint a < 2 ^ 32" using uint_bounded [of a] by simp
  then show ?thesis
    using assms by (simp add: consume_xint32_def Let_def scan_hex_0x consume_hexdigits_0x)
qed

lemma consume_xint8_hex2: "consume_xint8 (hex2 b @ s) = Some (Some b, s)"
proof -
  have "unat b < 256" using unsigned_less [of b, where 'a = nat] by simp
  then have lt: "unat b div 16 < 16" by simp
  have np: "\<not> is_ws c \<and> c \<noteq> CHR '';'' \<and> c \<noteq> CHR ''}''" if "isxdigit c" for c
    using that by (auto simp: isxdigit_def hex_digit_def is_ws_def Let_def)
  have "starts_plain (hex2 b @ s)" "hd (hex2 b @ s) \<noteq> CHR ''}''"
    using np [OF isxdigit_hex_char [OF lt]] by (simp_all add: hex2_def starts_plain_def)
  then show ?thesis
    using lt hex_value_hex2 [of b] by (simp add: consume_xint8_def Let_def hex2_def)
qed

lemma bytes_loop_hex2:
  assumes "consume_whitespace s = CHR ''}'' # t"
  shows "bytes_loop acc (concat (map hex2 bs) @ s) = Some (acc @ bs, CHR ''}'' # t)"
proof (induction bs arbitrary: acc)
  case Nil
  then show ?case by (simp add: bytes_loop.simps [of acc s] consume_xint8_def assms)
next
  case (Cons b bs)
  then show ?case by (simp add: bytes_loop.simps [of acc] consume_xint8_hex2)
qed

lemma consume_bytes_hex2:
  assumes "consume_whitespace s = CHR ''}'' # t" and "consume_whitespace p = CHR ''{'' # q"
    and "bytes_loop [] q = bytes_loop [] (concat (map hex2 bs) @ s)"
  shows "consume_bytes p = Some (bs, t)"
  using assms bytes_loop_hex2 [OF assms(1), of "[]" bs]
  by (simp add: consume_bytes_def Let_def expect_close_def starts_plain_def is_ws_def)

lemma bytes_loop_ws: "is_ws c \<Longrightarrow> bytes_loop acc (c # s) = bytes_loop acc s"
  by (subst (1 2) bytes_loop.simps) (simp add: consume_xint8_def consume_whitespace_ws)

lemma words_loop_ws: "is_ws c \<Longrightarrow> words_loop acc (c # s) = words_loop acc s"
  by (subst (1 2) words_loop.simps) (simp add: consume_xint32_def consume_whitespace_ws)

lemma words_loop_hex_words:
  assumes "consume_whitespace s = CHR ''}'' # t" and "starts_nonhex s"
  shows "vs \<noteq> [] \<Longrightarrow> words_loop acc (hex_words vs @ s) = Some (acc @ vs, CHR ''}'' # t)"
proof (induction vs arbitrary: acc rule: hex_words.induct)
  case (2 v)
  then show ?case
    using assms by (simp add: words_loop.simps [of acc] consume_xint32_0x Let_def)
next
  case (3 v w vs)
  have "starts_nonhex ('', '' @ r)" "starts_plain ('', '' @ r)" for r
    by (simp_all add: starts_nonhex_def starts_plain_def is_ws_def isxdigit_def hex_digit_def)
  then show ?case
    using "3.IH" [of "acc @ [v]"]
    by (simp add: words_loop.simps [of acc] consume_xint32_0x Let_def words_loop_ws is_ws_def)
qed simp

lemma consume_words_hex:
  assumes "consume_whitespace s = CHR ''}'' # t" and "consume_whitespace p = CHR ''{'' # q"
    and "starts_nonhex s" and "vs \<noteq> []"
    and "words_loop [] q = words_loop [] (hex_words vs @ s)"
  shows "consume_words p = Some (vs, t)"
  using assms words_loop_hex_words [OF assms(1,3,4), of "[]"]
  by (simp add: consume_words_def Let_def expect_close_def starts_plain_def is_ws_def)

subsection \<open>One line, one section\<close>

definition line_ok :: "log_line \<Rightarrow> bool" where
  "line_ok l =
     (case l of
        Log_config bs \<Rightarrow> bs \<noteq> [] | Log_discovery bs \<Rightarrow> bs \<noteq> []
      | Log_sysram a bs \<Rightarrow> bs \<noteq> [] | Log_vram a bs \<Rightarrow> bs \<noteq> []
      | Log_mmio a v c \<Rightarrow> CHR 0x0A \<notin> set c | Log_sq a v c \<Rightarrow> CHR 0x0A \<notin> set c
      | Log_gpr g a vs \<Rightarrow> vs \<noteq> [] | Log_wave a vs \<Rightarrow> vs \<noteq> [] | Log_ring vs \<Rightarrow> vs \<noteq> [])"

text \<open>What a line stands for: a block chained to the list of its kind.\<close>

fun add_line :: "log_line \<Rightarrow> umr_test_harness \<Rightarrow> umr_test_harness" where
  "add_line (Log_config bs) th = th\<lparr>th_config := push_ram 0 bs (th_config th)\<rparr>"
| "add_line (Log_discovery bs) th = th\<lparr>th_discovery := push_ram 0 bs (th_discovery th)\<rparr>"
| "add_line (Log_sysram a bs) th = th\<lparr>th_sysram := push_ram a bs (th_sysram th)\<rparr>"
| "add_line (Log_vram a bs) th = th\<lparr>th_vram := push_ram a bs (th_vram th)\<rparr>"
| "add_line (Log_mmio a v c) th = th\<lparr>th_mmio := push_mmio (ucast a) [v] (th_mmio th)\<rparr>"
| "add_line (Log_sq a v c) th = th\<lparr>th_sq := push_sq a [v] (th_sq th)\<rparr>"
| "add_line (Log_gpr g a vs) th =
     (if g then th\<lparr>th_vgpr := push_mmio a vs (th_vgpr th)\<rparr> else th\<lparr>th_sgpr := push_mmio a vs (th_sgpr th)\<rparr>)"
| "add_line (Log_wave a vs) th = th\<lparr>th_wave := push_mmio a vs (th_wave th)\<rparr>"
| "add_line (Log_ring vs) th = th\<lparr>th_ring := push_mmio 0 vs (th_ring th)\<rparr>"

fun line_kind :: "log_line \<Rightarrow> nat" where
  "line_kind (Log_config bs) = 0"
| "line_kind (Log_discovery bs) = 1"
| "line_kind (Log_sysram a bs) = 2"
| "line_kind (Log_vram a bs) = 3"
| "line_kind (Log_mmio a v c) = 4"
| "line_kind (Log_gpr g a vs) = (if g then 5 else 6)"
| "line_kind (Log_wave a vs) = 7"
| "line_kind (Log_ring vs) = 8"
| "line_kind (Log_sq a v c) = 9"

definition line_token :: "nat \<Rightarrow> string" where
  "line_token k = [''GCACONFIG'', ''DISCOVERY'', ''SYSRAM@'', ''VRAM@'', ''MMIO@'', ''VGPR@'', ''SGPR@'',
     ''WAVESTATUS@'', ''RINGDATA'', ''SQ@''] ! k"

lemma line_kind_less: "line_kind l < 10"
  by (cases l) auto

lemma line_starts_plain: "starts_plain (log_text l @ s)"
  by (cases l) (simp_all add: starts_plain_def is_ws_def)

lemma log_script_plain: "starts_plain (log_script ls)"
  using line_starts_plain by (cases ls) (simp_all add: log_script_def starts_plain_def)

lemma token_of_line:
  assumes "k < 10"
  shows "take (length (line_token k)) (log_text l @ s) = line_token k \<longleftrightarrow> line_kind l = k"
proof -
  have "k = 0 \<or> k = 1 \<or> k = 2 \<or> k = 3 \<or> k = 4 \<or> k = 5 \<or> k = 6 \<or> k = 7 \<or> k = 8 \<or> k = 9"
    using assms by presburger
  then consider "k = 0" | "k = 1" | "k = 2" | "k = 3" | "k = 4" | "k = 5" | "k = 6" | "k = 7" | "k = 8" | "k = 9"
    by blast
  then show ?thesis by cases (cases l; simp add: line_token_def)+
qed

lemma ws_consts [simp]: "is_ws (CHR '' '')" "is_ws (CHR 0x0A)" "\<not> is_ws (CHR ''='')" "\<not> is_ws (CHR ''{'')"
    "\<not> is_ws (CHR ''}'')" "\<not> is_ws (CHR '';'')"
  by (simp_all add: is_ws_def)

lemma nonhex_consts [simp]: "starts_nonhex (CHR '' '' # s)" "starts_nonhex (CHR ''}'' # s)"
  by (simp_all add: starts_nonhex_def isxdigit_def hex_digit_def)

lemma plain_consts [simp]: "starts_plain (CHR ''='' # s)" "starts_plain (CHR ''{'' # s)" "starts_plain (CHR ''}'' # s)"
  by (simp_all add: starts_plain_def)

lemma th_section_hit:
  "consume_whitespace inp = token @ body \<Longrightarrow>
   th_section token addr payload add (th, inp) = section_body addr payload add (th, body)"
  by (simp add: th_section_def consume_word_def)

lemma payload_bytes:
  "consume_bytes ('' { '' @ concat (map hex2 bs) @ '' }'' @ s) = Some (bs, s)"
  "consume_bytes ('' { '' @ concat (map hex2 bs) @ ''}'' @ s) = Some (bs, s)"
  "consume_bytes ('' {'' @ concat (map hex2 bs) @ ''}'' @ s) = Some (bs, s)"
proof -
  show "consume_bytes ('' { '' @ concat (map hex2 bs) @ '' }'' @ s) = Some (bs, s)"
    by (rule consume_bytes_hex2 [where s = "'' }'' @ s" and q = "'' '' @ concat (map hex2 bs) @ '' }'' @ s"])
      (simp_all add: consume_whitespace_ws bytes_loop_ws)
  show "consume_bytes ('' { '' @ concat (map hex2 bs) @ ''}'' @ s) = Some (bs, s)"
    by (rule consume_bytes_hex2 [where s = "''}'' @ s" and q = "'' '' @ concat (map hex2 bs) @ ''}'' @ s"])
      (simp_all add: consume_whitespace_ws bytes_loop_ws)
  show "consume_bytes ('' {'' @ concat (map hex2 bs) @ ''}'' @ s) = Some (bs, s)"
    by (rule consume_bytes_hex2 [where s = "''}'' @ s" and q = "concat (map hex2 bs) @ ''}'' @ s"])
      (simp_all add: consume_whitespace_ws)
qed

lemma payload_words:
  "vs \<noteq> [] \<Longrightarrow> consume_words ('' { '' @ hex_words vs @ ''}'' @ s) = Some (vs, s)"
  "consume_words ('' { 0x'' @ hex_str (unat v) @ '' }'' @ s) = Some ([v], s)"
proof -
  show "vs \<noteq> [] \<Longrightarrow> consume_words ('' { '' @ hex_words vs @ ''}'' @ s) = Some (vs, s)"
    by (rule consume_words_hex [where s = "''}'' @ s" and q = "'' '' @ hex_words vs @ ''}'' @ s"])
      (simp_all add: consume_whitespace_ws words_loop_ws)
  show "consume_words ('' { 0x'' @ hex_str (unat v) @ '' }'' @ s) = Some ([v], s)"
    by (rule consume_words_hex [where s = "'' }'' @ s" and q = "'' '' @ hex_words [v] @ '' }'' @ s"])
      (simp_all add: consume_whitespace_ws words_loop_ws)
qed

lemma addr_consts:
  "consume_xint64 (''0x'' @ hex_str (unat (a :: u64)) @ '' '' @ s) = Some (Some a, '' '' @ s)"
  "addr32 (''0x'' @ hex_str (unat (b :: u32)) @ '' '' @ s) = Some (Some (ucast b), '' '' @ s)"
  by (simp_all add: consume_xint64_0x addr32_def consume_xint32_0x)

lemma after_line:
  "consume_whitespace (nl @ s) = consume_whitespace s"
  "CHR 0x0A \<notin> set c \<Longrightarrow> consume_whitespace ('' ; '' @ c @ nl @ s) = consume_whitespace s"
proof -
  show "consume_whitespace (nl @ s) = consume_whitespace s" by (simp add: nl_def consume_whitespace_ws)
  show "CHR 0x0A \<notin> set c \<Longrightarrow> consume_whitespace ('' ; '' @ c @ nl @ s) = consume_whitespace s"
    using consume_comment [of "'' '' @ c" s] by (simp add: nl_def consume_whitespace_ws)
qed

lemma section_line:
  assumes "consume_whitespace inp = token @ body"
    and "addr body = Some (Some a, CHR '' '' # CHR ''='' # p)" and "payload p = Some (xs, q)" and "xs \<noteq> []"
  shows "th_section token addr payload add (th, inp) = Some (Some (add a xs th, q))"
  unfolding th_section_hit [OF assms(1)] section_body_def
  using assms(2,3,4) by (simp add: consume_word_def consume_whitespace_ws)

lemma section_bytes_plain:
  assumes "consume_whitespace inp = token @ '' = { '' @ concat (map hex2 bs) @ e @ s"
    and "e = '' }'' \<or> e = ''}''" and "bs \<noteq> []"
  shows "th_section token no_addr consume_bytes add (th, inp) = Some (Some (add 0 bs th, s))"
  using assms(2,3) payload_bytes(1,2) [of bs s]
  by (intro section_line [OF assms(1), where p = "'' { '' @ concat (map hex2 bs) @ e @ s"])
    (auto simp: no_addr_def)

lemma section_bytes_addr:
  assumes "consume_whitespace inp = token @ ''0x'' @ hex_str (unat a) @ '' = {'' @ concat (map hex2 bs) @ ''}'' @ s"
    and "bs \<noteq> []"
  shows "th_section token consume_xint64 consume_bytes add (th, inp) = Some (Some (add a bs th, s))"
  using assms(2) payload_bytes(3) [of bs s] addr_consts(1) [of a "''= {'' @ concat (map hex2 bs) @ ''}'' @ s"]
  by (intro section_line [OF assms(1), where p = "'' {'' @ concat (map hex2 bs) @ ''}'' @ s"]) auto

lemma section_word:
  assumes "consume_whitespace inp = token @ ''0x'' @ hex_str (unat (a :: u32)) @ '' = { 0x'' @ hex_str (unat v) @ '' }'' @ s"
  shows "th_section token addr32 consume_words add (th, inp) = Some (Some (add (ucast a) [v] th, s))"
  using payload_words(2) [of v s] addr_consts(2) [of a "''= { 0x'' @ hex_str (unat v) @ '' }'' @ s"]
  by (intro section_line [OF assms(1), where p = "'' { 0x'' @ hex_str (unat v) @ '' }'' @ s"]) auto

lemma section_words:
  assumes "consume_whitespace inp = token @ ''0x'' @ hex_str (unat a) @ '' = { '' @ hex_words vs @ ''}'' @ s"
    and "vs \<noteq> []"
  shows "th_section token consume_xint64 consume_words add (th, inp) = Some (Some (add a vs th, s))"
  using assms(2) payload_words(1) [of vs s] addr_consts(1) [of a "''= { '' @ hex_words vs @ ''}'' @ s"]
  by (intro section_line [OF assms(1), where p = "'' { '' @ hex_words vs @ ''}'' @ s"]) auto

lemma section_words_plain:
  assumes "consume_whitespace inp = token @ '' = { '' @ hex_words vs @ ''}'' @ s" and "vs \<noteq> []"
  shows "th_section token no_addr consume_words add (th, inp) = Some (Some (add 0 vs th, s))"
  using assms(2) payload_words(1) [of vs s]
  by (intro section_line [OF assms(1), where p = "'' { '' @ hex_words vs @ ''}'' @ s"]) (auto simp: no_addr_def)

lemma section_of_line:
  assumes "consume_whitespace inp = log_text l @ s" and "line_ok l"
  shows "\<exists>rest. (all_sections ! line_kind l) (th, inp) = Some (Some (add_line l th, rest)) \<and>
     consume_whitespace rest = consume_whitespace s"
proof (cases l)
  case (Log_config bs)
  then show ?thesis using assms after_line(1) [of s]
    by (auto simp: all_sections_def line_ok_def section_bytes_plain [of inp _ bs "'' }''" "nl @ s"])
next
  case (Log_discovery bs)
  then show ?thesis using assms after_line(1) [of s]
    by (auto simp: all_sections_def line_ok_def section_bytes_plain [of inp _ bs "''}''" "nl @ s"])
next
  case (Log_sysram a bs)
  then show ?thesis using assms after_line(1) [of s]
    by (auto simp: all_sections_def line_ok_def section_bytes_addr [of inp _ a bs "nl @ s"])
next
  case (Log_vram a bs)
  then show ?thesis using assms after_line(1) [of s]
    by (auto simp: all_sections_def line_ok_def section_bytes_addr [of inp _ a bs "nl @ s"])
next
  case (Log_mmio a v c)
  then show ?thesis using assms after_line(2) [of c s]
    by (auto simp: all_sections_def line_ok_def section_word [of inp _ a v "'' ; '' @ c @ nl @ s"])
next
  case (Log_sq a v c)
  then show ?thesis using assms after_line(2) [of c s]
    by (auto simp: all_sections_def line_ok_def section_word [of inp _ a v "'' ; '' @ c @ nl @ s"])
next
  case (Log_gpr g a vs)
  then show ?thesis using assms after_line(1) [of s]
    by (auto simp: all_sections_def line_ok_def section_words [of inp _ a vs "nl @ s"])
next
  case (Log_wave a vs)
  then show ?thesis using assms after_line(1) [of s]
    by (auto simp: all_sections_def line_ok_def section_words [of inp _ a vs "nl @ s"])
next
  case (Log_ring vs)
  then show ?thesis using assms after_line(1) [of s]
    by (auto simp: all_sections_def line_ok_def section_words_plain [of inp _ vs "nl @ s"])
qed

subsection \<open>The whole script\<close>

lemma length_all_sections: "length all_sections = 10"
  by (simp add: all_sections_def)

lemma all_sections_token:
  assumes "k < 10" and "take (length (line_token k)) (consume_whitespace inp) \<noteq> line_token k"
  shows "(all_sections ! k) (th, inp) = Some (Some (th, consume_whitespace inp))"
proof -
  have miss: "th_section tok addr payload add (th, inp) = Some (Some (th, consume_whitespace inp))"
    if "take (length tok) (consume_whitespace inp) \<noteq> tok" for tok addr payload add
    using that by (simp add: th_section_def consume_word_def)
  have "k = 0 \<or> k = 1 \<or> k = 2 \<or> k = 3 \<or> k = 4 \<or> k = 5 \<or> k = 6 \<or> k = 7 \<or> k = 8 \<or> k = 9"
    using assms(1) by presburger
  then show ?thesis
    using assms(2) by (elim disjE) (simp_all add: all_sections_def line_token_def miss)
qed

lemma section_step:
  assumes "k < 10" and "consume_whitespace inp = log_script ls" and "list_all line_ok ls"
  shows "\<exists>th' rest ls'. (all_sections ! k) (th, inp) = Some (Some (th', rest)) \<and>
     consume_whitespace rest = log_script ls' \<and> fold add_line ls' th' = fold add_line ls th \<and>
     list_all line_ok ls' \<and> (ls' = ls \<or> ls' = tl ls \<and> ls \<noteq> []) \<and>
     (ls \<noteq> [] \<and> line_kind (hd ls) = k \<longrightarrow> ls' = tl ls)"
proof (cases "ls \<noteq> [] \<and> line_kind (hd ls) = k")
  case True
  then obtain l ls' where ls: "ls = l # ls'" "line_kind l = k" by (cases ls) auto
  have "consume_whitespace inp = log_text l @ log_script ls'" "line_ok l"
    using assms(2,3) ls(1) by (simp_all add: log_script_def)
  from section_of_line [OF this, of th] obtain rest where
    "(all_sections ! k) (th, inp) = Some (Some (add_line l th, rest))"
    "consume_whitespace rest = log_script ls'"
    using ls(2) log_script_plain [of ls'] by auto
  then show ?thesis using ls assms(3) by auto
next
  case False
  have "take (length (line_token k)) (log_script ls) \<noteq> line_token k"
  proof (cases ls)
    case Nil
    have "k = 0 \<or> k = 1 \<or> k = 2 \<or> k = 3 \<or> k = 4 \<or> k = 5 \<or> k = 6 \<or> k = 7 \<or> k = 8 \<or> k = 9"
      using assms(1) by presburger
    then have "line_token k \<noteq> []" by (elim disjE) (simp_all add: line_token_def)
    then show ?thesis using Nil by (simp add: log_script_def)
  next
    case (Cons l ls')
    then show ?thesis using False token_of_line [OF assms(1), of l "log_script ls'"]
      by (simp add: log_script_def)
  qed
  then have "(all_sections ! k) (th, inp) = Some (Some (th, log_script ls))"
    using all_sections_token [OF assms(1), of inp th] assms(2) by simp
  then show ?thesis using False assms(3) log_script_plain [of ls] by auto
qed

lemma sections_step:
  assumes "consume_whitespace inp = log_script ls" and "list_all line_ok ls" and "n \<le> 10"
  shows "\<exists>th' rest ls'. run_sections (drop (10 - n) all_sections) (th, inp) = Some (Some (th', rest)) \<and>
     consume_whitespace rest = log_script ls' \<and> fold add_line ls' th' = fold add_line ls th \<and>
     list_all line_ok ls' \<and> length ls' \<le> length ls \<and>
     (ls \<noteq> [] \<and> 10 - n \<le> line_kind (hd ls) \<longrightarrow> length ls' < length ls)"
  using assms
proof (induction n arbitrary: th inp ls)
  case 0
  then show ?case using line_kind_less [of "hd ls"] by (auto simp: length_all_sections)
next
  case (Suc n)
  let ?k = "10 - Suc n"
  have k: "?k < 10" "Suc ?k = 10 - n" using Suc.prems(3) by auto
  obtain th1 rest1 ls1 where s1: "(all_sections ! ?k) (th, inp) = Some (Some (th1, rest1))"
    "consume_whitespace rest1 = log_script ls1" "fold add_line ls1 th1 = fold add_line ls th"
    "list_all line_ok ls1" "ls1 = ls \<or> ls1 = tl ls \<and> ls \<noteq> []"
    "ls \<noteq> [] \<and> line_kind (hd ls) = ?k \<longrightarrow> ls1 = tl ls"
    using section_step [OF k(1) Suc.prems(1,2)] by blast
  obtain th2 rest2 ls2 where s2: "run_sections (drop (10 - n) all_sections) (th1, rest1) = Some (Some (th2, rest2))"
    "consume_whitespace rest2 = log_script ls2" "fold add_line ls2 th2 = fold add_line ls1 th1"
    "list_all line_ok ls2" "length ls2 \<le> length ls1"
    "ls1 \<noteq> [] \<and> 10 - n \<le> line_kind (hd ls1) \<longrightarrow> length ls2 < length ls1"
    using Suc.IH [OF s1(2,4), of th1] Suc.prems(3) by auto
  have d: "drop ?k all_sections = (all_sections ! ?k) # drop (10 - n) all_sections"
    using k by (metis Cons_nth_drop_Suc length_all_sections)
  have "run_sections (drop ?k all_sections) (th, inp) = Some (Some (th2, rest2))"
    unfolding d using s1(1) s2(1) by simp
  moreover have "length ls2 \<le> length ls" using s1(5) s2(5) by (cases ls) auto
  moreover have "length ls2 < length ls" if "ls \<noteq> []" "?k \<le> line_kind (hd ls)"
  proof (cases "ls1 = ls")
    case True
    then have "line_kind (hd ls) \<noteq> ?k" using s1(6) that by (cases ls) auto
    then have "10 - n \<le> line_kind (hd ls1)" using that(2) k(2) True by (metis Suc_leI le_neq_implies_less)
    then show ?thesis using s2(6) that(1) True by simp
  next
    case False
    then show ?thesis using s1(5) s2(5) by (cases ls) auto
  qed
  ultimately show ?case using s1 s2 by auto
qed

lemma script_loop_log:
  "consume_whitespace inp = log_script ls \<Longrightarrow> list_all line_ok ls \<Longrightarrow>
   script_loop (th, inp) = Some (Some (fold add_line ls th))"
proof (induction "length ls" arbitrary: inp ls th rule: less_induct)
  case less
  show ?case
  proof (cases "inp = []")
    case True
    then have "ls = []" using less.prems(1) line_starts_plain
      by (cases ls; cases "hd ls") (auto simp: log_script_def starts_plain_def)
    then show ?thesis using True by (simp add: script_loop.simps)
  next
    case False
    have "consume_whitespace (consume_whitespace inp) = log_script ls"
      using less.prems(1) log_script_plain [of ls] by simp
    from sections_step [OF this less.prems(2), of 10 th] obtain th' rest ls' where
      s: "run_sections all_sections (th, consume_whitespace inp) = Some (Some (th', rest))"
      "consume_whitespace rest = log_script ls'" "fold add_line ls' th' = fold add_line ls th"
      "list_all line_ok ls'" "length ls' \<le> length ls" "ls \<noteq> [] \<longrightarrow> length ls' < length ls"
      by auto
    have step: "script_loop (th, inp) = script_loop (th', rest)"
      using False s(1) by (subst script_loop.simps) simp
    show ?thesis
    proof (cases "ls = []")
      case True
      then have "ls' = []" "log_script ls = []" using s(5) by (simp_all add: log_script_def)
      then have "run_sections all_sections (th, []) = Some (Some (th', rest))"
        using s(1) less.prems(1) by simp
      moreover have "run_sections all_sections (th, []) = Some (Some (th, []))"
        by (simp add: all_sections_def th_section_def consume_word_def starts_plain_def)
      ultimately show ?thesis using True step by (simp add: script_loop.simps)
    next
      case False
      then show ?thesis using less.hyps [OF _ s(2,4)] s(3,6) step by simp
    qed
  qed
qed

text \<open>C7: A test log reads back: parsing the lines that the access functions log while a test
  vector is recorded terminates and gives the harness that holds, list by list and in
  order, exactly the recorded blocks.\<close>

theorem test_log_roundtrip:
  assumes "list_all line_ok ls"
  shows "umr_create_test_harness (log_script ls) = Some (Some (fold add_line ls zero_harness))"
  using script_loop_log [of "log_script ls" ls] log_script_plain assms
  by (simp add: umr_create_test_harness_def)

theorem test_log_roundtrip_witness:
  "umr_create_test_harness (log_script [Log_sysram 0x1000 [0xAB, 0x0C], Log_mmio 0x8800 0xE0 ''<unknown>'',
      Log_ring [1, 2, 3]]) =
   Some (Some (fold add_line [Log_sysram 0x1000 [0xAB, 0x0C], Log_mmio 0x8800 0xE0 ''<unknown>'',
      Log_ring [1, 2, 3]] zero_harness))"
  by (rule test_log_roundtrip) (simp add: line_ok_def)

subsection \<open>Scripts that are not a log\<close>

lemma run_sections_miss:
  assumes "starts_plain s" and "\<forall>k < 10. take (length (line_token k)) s \<noteq> line_token k" and "n \<le> 10"
  shows "run_sections (drop (10 - n) all_sections) (th, s) = Some (Some (th, s))"
  using assms(3)
proof (induction n)
  case 0
  then show ?case by (simp add: length_all_sections)
next
  case (Suc n)
  let ?k = "10 - Suc n"
  have k: "?k < 10" "Suc ?k = 10 - n" using Suc.prems by auto
  have d: "drop ?k all_sections = (all_sections ! ?k) # drop (10 - n) all_sections"
    using k by (metis Cons_nth_drop_Suc length_all_sections)
  show ?case
    unfolding d using all_sections_token [OF k(1), of s th] assms(1,2) k(1) Suc by simp
qed

text \<open>C38: The script reader does not terminate on a text that starts with none of its ten
  keywords: such a text is left as it is by every pass of the loop.\<close>

theorem unknown_keyword_diverges:
  assumes "s \<noteq> []" and "starts_plain s" and "\<forall>k < 10. take (length (line_token k)) s \<noteq> line_token k"
  shows "run_sections all_sections (zero_harness, consume_whitespace s) = Some (Some (zero_harness, s)) \<and>
         umr_create_test_harness s = None"
proof -
  have pass: "run_sections all_sections (th, consume_whitespace s) = Some (Some (th, s))" for th
    using run_sections_miss [OF assms(2,3), of 10 th] assms(2) by simp
  have "snd st \<noteq> s" if "script_loop st = Some r" for st r
  proof (rule script_loop.raw_induct [of "\<lambda>st r. snd st \<noteq> s", OF _ that])
    fix f :: "th_state \<Rightarrow> umr_test_harness option option" and st r
    assume ih: "\<And>st r. f st = Some r \<Longrightarrow> snd st \<noteq> s"
      and body: "(if snd st = [] then Some (Some (fst st))
        else run_sections all_sections (fst st, consume_whitespace (snd st)) \<bind>
          (\<lambda>r. case r of None \<Rightarrow> Some None | Some st' \<Rightarrow> f st')) = Some r"
    show "snd st \<noteq> s"
    proof
      assume "snd st = s"
      then have "f (fst st, s) = Some r" using body assms(1) pass [of "fst st"] by auto
      then show False using ih by fastforce
    qed
  qed
  then have "script_loop (zero_harness, s) = None" by (metis not_None_eq snd_conv)
  then show ?thesis using pass by (simp add: umr_create_test_harness_def)
qed

theorem unknown_keyword_diverges_witness: "umr_create_test_harness ''FOO = { 12 }'' = None"
proof -
  have "\<forall>k < 10. take (length (line_token k)) ''FOO = { 12 }'' \<noteq> line_token k" by code_simp
  from unknown_keyword_diverges [OF _ _ this] show ?thesis by (simp add: starts_plain_def is_ws_def)
qed

text \<open>The byte array of the syntax document's own example is not readable: the reader takes
  hex digits two by two wherever they stand, so \<open>0x01\<close> starts with the byte 0 and the odd
  digit at the end makes it run past the closing brace and off the end of the text.\<close>

theorem documented_byte_array_unreadable:
  "bytes_loop [] '' 0x01, 0x02 }'' = Some ([0x00, 0x10, 0x02], ''}'') \<and>
   consume_bytes ''{ 0x01, 0x02, 0x03 }'' = None"
  by code_simp

end
