(* ===== verification/Test_Harness.thy ===== *)
theory Test_Harness
  imports Mmio Harness_Script
begin

text \<open>
  The test harness as a device (\<^verbatim>\<open>src/lib/testing_harness.c\<close>, second half): the memory,
  register, GPR and wave callbacks that answer from recorded blocks instead of from
  hardware.
\<close>

subsection \<open>Memory\<close>

definition ram_covers :: "ram_block \<Rightarrow> u64 \<Rightarrow> nat \<Rightarrow> bool" where
  "ram_covers rb address n \<longleftrightarrow>
     rb_base_address rb \<le> address \<and>
     rb_base_address rb + of_nat (length (rb_contents rb)) \<ge> address + of_nat n"

text \<open>
  The first covering block serves the access.  The comparison wraps around at the end of
  the address space, so the copy is checked against the block's real size: outside it
  the behaviour is undefined.
\<close>

fun access_blocks :: "ram_block list \<Rightarrow> u64 \<Rightarrow> u8 list \<Rightarrow> bool \<Rightarrow> ((int \<times> u8 list) \<times> ram_block list) option" where
  "access_blocks [] address dst write_en = Some ((- 1, dst), [])"
| "access_blocks (rb # rbs) address dst write_en =
     (if ram_covers rb address (length dst) then
        let off = unat (address - rb_base_address rb) in
        if off + length dst \<le> length (rb_contents rb) then
          (if write_en then Some ((0, dst), rb\<lparr>rb_contents := overwrite off dst (rb_contents rb)\<rparr> # rbs)
           else Some ((0, take (length dst) (drop off (rb_contents rb))), rb # rbs))
        else None
      else do {
        (r, rbs') \<leftarrow> access_blocks rbs address dst write_en;
        Some (r, rb # rbs') })"

definition th_access_sram :: "u64 \<Rightarrow> u8 list \<Rightarrow> bool \<Rightarrow> (umr_test_harness, int \<times> u8 list) dev_op" where
  "th_access_sram address dst write_en s = do {
     (r, bs) \<leftarrow> access_blocks (th_sysram (snd s)) address dst write_en;
     Some (r, (fst s, (snd s)\<lparr>th_sysram := bs\<rparr>)) }"

definition th_access_linear_vram :: "u64 \<Rightarrow> u8 list \<Rightarrow> bool \<Rightarrow> (umr_test_harness, int \<times> u8 list) dev_op" where
  "th_access_linear_vram address dst write_en s = do {
     (r, bs) \<leftarrow> access_blocks (th_vram (snd s)) address dst write_en;
     Some (r, (fst s, (snd s)\<lparr>th_vram := bs\<rparr>)) }"

definition th_gpu_bus_to_cpu_address :: "u64 \<Rightarrow> (umr_test_harness, u64) dev_op" where
  "th_gpu_bus_to_cpu_address dma_addr s = Some (dma_addr, s)"

subsection \<open>Registers\<close>

text \<open>Comparing a register number with looked up ones, left to right as \<^verbatim>\<open>||\<close> does.\<close>

fun reg_is_any :: "string list \<Rightarrow> u64 \<Rightarrow> umr_asic \<Rightarrow> (bool \<times> umr_asic) option" where
  "reg_is_any [] qaddr asic = Some (False, asic)"
| "reg_is_any (n # ns) qaddr asic = do {
     (v, asic) \<leftarrow> umr_find_reg asic n;
     if qaddr = ucast v then Some (True, asic) else reg_is_any ns qaddr asic }"

datatype th_reg = SQ_data | SQ_index | MM_data | MM_index | MM_index_hi | Listed

text \<open>The chain of comparisons that the read and the write function share.\<close>

fun classify :: "(string list \<times> th_reg) list \<Rightarrow> u64 \<Rightarrow> umr_asic \<Rightarrow> (th_reg \<times> umr_asic) option" where
  "classify [] qaddr asic = Some (Listed, asic)"
| "classify ((ns, k) # rest) qaddr asic = do {
     (hit, asic) \<leftarrow> reg_is_any ns qaddr asic;
     if hit then Some (k, asic) else classify rest qaddr asic }"

definition th_regs :: "(string list \<times> th_reg) list" where
  "th_regs =
     [([''mmSQ_IND_DATA''], SQ_data),
      ([''mmSQ_IND_INDEX''], SQ_index),
      ([''@mmMM_DATA'', ''@mmBIF_BX_PF_MM_DATA''], MM_data),
      ([''@mmMM_INDEX'', ''@mmBIF_BX_PF_MM_INDEX''], MM_index),
      ([''@mmMM_INDEX_HI'', ''@mmBIF_BX_PF_MM_INDEX_HI''], MM_index_hi)]"

text \<open>Taking the next recorded value of a register; \<open>Some (None, _)\<close> when there is none left.\<close>

fun next_slot :: "mmio_block list \<Rightarrow> u64 \<Rightarrow> (u32 option \<times> mmio_block list) option" where
  "next_slot [] addr = Some (None, [])"
| "next_slot (m # ms) addr =
     (if mm_mmio_address m = addr \<and> mm_cur_slot m \<noteq> length (mm_values m) then
        (if mm_cur_slot m < length (mm_values m)
         then Some (Some (mm_values m ! mm_cur_slot m), m\<lparr>mm_cur_slot := mm_cur_slot m + 1\<rparr> # ms)
         else None)
      else do { (v, ms') \<leftarrow> next_slot ms addr; Some (v, m # ms') })"

text \<open>
  Storing into the slot that the next read uses.  The parser's array has room for one
  value more than it holds, so storing behind the last value has no effect that a read
  sees; the block at the end of the list has no array at all.
\<close>

fun put_slot :: "mmio_block list \<Rightarrow> u64 \<Rightarrow> u32 \<Rightarrow> (int \<times> mmio_block list) option" where
  "put_slot [] addr v = Some (- 1, [])"
| "put_slot (m # ms) addr v =
     (if mm_mmio_address m = addr then
        (if mm_values m = [] \<or> length (mm_values m) < mm_cur_slot m then None
         else Some (0, m\<lparr>mm_values := (mm_values m)[mm_cur_slot m := v]\<rparr> # ms))
      else do { (r, ms') \<leftarrow> put_slot ms addr v; Some (r, m # ms') })"

fun next_sq :: "sq_block list \<Rightarrow> u32 \<Rightarrow> u32 option \<times> sq_block list" where
  "next_sq [] index = (None, [])"
| "next_sq (q # qs) index =
     (if sq_sq_address q = index \<and> sq_cur_slot q < length (sq_values q)
      then (Some (sq_values q ! sq_cur_slot q), q\<lparr>sq_cur_slot := sq_cur_slot q + 1\<rparr> # qs)
      else let (v, qs') = next_sq qs index in (v, q # qs'))"

definition mm_vram_addr :: "u64 \<Rightarrow> u64" where
  "mm_vram_addr idx = (idx AND 0x7FFFFFFF) OR drop_bit 1 (idx AND 0xFFFFFFFF00000000)"

definition th_read_reg :: "u64 \<Rightarrow> regclass \<Rightarrow> (umr_test_harness, u32) dev_op" where
  "th_read_reg addr type s =
     (if type \<noteq> REG_MMIO then Some (0xDEADBEEF, s)
      else do {
        (k, asic) \<leftarrow> classify th_regs (drop_bit 2 addr) (fst s);
        let th = snd s;
        case k of
          SQ_data \<Rightarrow>
            let (v, qs) = next_sq (th_sq th) (th_sq_ind_index th) in
            Some (case v of Some x \<Rightarrow> x | None \<Rightarrow> 0xDEADBEEF, (asic, th\<lparr>th_sq := qs\<rparr>))
        | SQ_index \<Rightarrow> Some (th_sq_ind_index th, (asic, th))
        | MM_data \<Rightarrow>
            if bit (th_vram_mm_index th) 31 then do {
              ((r, v), s) \<leftarrow> th_access_linear_vram (mm_vram_addr (th_vram_mm_index th)) [0, 0, 0, 0] False (asic, th);
              Some (if r = 0 then of_le32 v else 0, s) }
            else Some (0, (asic, th))
        | MM_index \<Rightarrow> Some (lo32 (th_vram_mm_index th), (asic, th))
        | MM_index_hi \<Rightarrow> Some (hi32 (th_vram_mm_index th), (asic, th))
        | Listed \<Rightarrow> do {
            (v, ms) \<leftarrow> next_slot (th_mmio th) addr;
            Some (case v of Some x \<Rightarrow> x | None \<Rightarrow> 0xDEADBEEF, (asic, th\<lparr>th_mmio := ms\<rparr>)) } })"

definition th_write_reg :: "u64 \<Rightarrow> u32 \<Rightarrow> regclass \<Rightarrow> (umr_test_harness, int) dev_op" where
  "th_write_reg addr value type s =
     (if type \<noteq> REG_MMIO then Some (- 1, s)
      else do {
        (k, asic) \<leftarrow> classify th_regs (drop_bit 2 addr) (fst s);
        let th = snd s;
        case k of
          SQ_data \<Rightarrow> Some (- 1, (asic, th))
        | SQ_index \<Rightarrow> Some (0, (asic, th\<lparr>th_sq_ind_index := value\<rparr>))
        | MM_data \<Rightarrow>
            if bit (th_vram_mm_index th) 31 then do {
              ((r, v), s) \<leftarrow> th_access_linear_vram (mm_vram_addr (th_vram_mm_index th)) (le32 value) True (asic, th);
              Some (if r = 0 then 0 else - 1, s) }
            else Some (- 1, (asic, th))
        | MM_index \<Rightarrow>
            Some (0, (asic, th\<lparr>th_vram_mm_index := (th_vram_mm_index th AND 0xFFFFFFFF00000000) OR ucast value\<rparr>))
        | MM_index_hi \<Rightarrow>
            Some (0, (asic, th\<lparr>th_vram_mm_index := (th_vram_mm_index th AND 0xFFFFFFFF) OR push_bit 32 (ucast value)\<rparr>))
        | Listed \<Rightarrow> do {
            (r, ms) \<leftarrow> put_slot (th_mmio th) addr value;
            Some (r, (asic, th\<lparr>th_mmio := ms\<rparr>)) } })"

text \<open>The callbacks that \<^verbatim>\<open>umr_attach_test_harness\<close> installs.\<close>

definition harness_funcs :: "umr_test_harness umr_funcs" where
  "harness_funcs = \<lparr>read_reg = th_read_reg, write_reg = th_write_reg, access_sram = th_access_sram,
     access_linear_vram = th_access_linear_vram, gpu_bus_to_cpu_address = th_gpu_bus_to_cpu_address\<rparr>"

subsection \<open>General purpose registers and wave status\<close>

text \<open>One walk over the list, taking at most \<open>n\<close> words from the blocks of one address.\<close>

fun drain_pass :: "u64 \<Rightarrow> nat \<Rightarrow> mmio_block list \<Rightarrow> u32 list \<times> mmio_block list" where
  "drain_pass addr n [] = ([], [])"
| "drain_pass addr n (m # ms) =
     (let vs = (if mm_mmio_address m = addr then take n (drop (mm_cur_slot m) (mm_values m)) else []);
          (ws, ms') = drain_pass addr (n - length vs) ms
      in (vs @ ws, m\<lparr>mm_cur_slot := mm_cur_slot m + length vs\<rparr> # ms'))"

text \<open>The scalar reader repeats the walk until it has all words; not returning is \<open>None\<close>.\<close>

partial_function (option) sgpr_loop :: "u64 \<Rightarrow> nat \<Rightarrow> mmio_block list \<Rightarrow> (u32 list \<times> mmio_block list) option" where
  "sgpr_loop addr n ms =
     (if n = 0 then Some ([], ms)
      else let (vs, ms') = drain_pass addr n ms in do {
        (ws, ms'') \<leftarrow> sgpr_loop addr (n - length vs) ms';
        Some (vs @ ws, ms'') })"

text \<open>
  The address under which a wave's registers were recorded.  \<open>bits\<close> is
  \<^verbatim>\<open>umr_wave_data_get_bits\<close> applied to the wave.
\<close>

definition gpr_wave_addr :: "chipfamily \<Rightarrow> (string \<Rightarrow> string \<Rightarrow> u32) \<Rightarrow> u64" where
  "gpr_wave_addr family bits =
     (if family \<ge> FAMILY_NV then
        push_bit 12 (ucast (bits ''ixSQ_WAVE_HW_ID1'' ''SE_ID'')) OR
        push_bit 20 (ucast (bits ''ixSQ_WAVE_HW_ID1'' ''SA_ID'')) OR
        push_bit 28 (push_bit 2 (ucast (bits ''ixSQ_WAVE_HW_ID1'' ''WGP_ID'')) OR
                     ucast (bits ''ixSQ_WAVE_HW_ID1'' ''SIMD_ID'')) OR
        push_bit 36 (ucast (bits ''ixSQ_WAVE_HW_ID1'' ''WAVE_ID''))
      else
        push_bit 12 (ucast (bits ''ixSQ_WAVE_HW_ID'' ''SE_ID'')) OR
        push_bit 20 (ucast (bits ''ixSQ_WAVE_HW_ID'' ''SH_ID'')) OR
        push_bit 28 (ucast (bits ''ixSQ_WAVE_HW_ID'' ''CU_ID'')) OR
        push_bit 36 (ucast (bits ''ixSQ_WAVE_HW_ID'' ''WAVE_ID'')) OR
        push_bit 44 (ucast (bits ''ixSQ_WAVE_HW_ID'' ''SIMD_ID'')))"

definition fill :: "nat \<Rightarrow> u32 list \<Rightarrow> u32 list \<Rightarrow> u32 list option" where
  "fill off vs dst = (if off + length vs \<le> length dst then Some (overwrite off vs dst) else None)"

definition th_read_sgprs ::
    "chipfamily \<Rightarrow> (string \<Rightarrow> string \<Rightarrow> u32) \<Rightarrow> u32 \<Rightarrow> bool \<Rightarrow> u32 list \<Rightarrow> umr_test_harness \<Rightarrow>
     ((int \<times> u32 list) \<times> umr_test_harness) option" where
  "th_read_sgprs family bits num_sgprs trap dst th = do {
     let addr = push_bit 60 1 OR gpr_wave_addr family bits;
     (vs, ms) \<leftarrow> sgpr_loop addr (unat num_sgprs) (th_sgpr th);
     dst \<leftarrow> fill 0 vs dst;
     if trap then do {
       (ws, ms) \<leftarrow> sgpr_loop (addr + 4 * 0x6C) 16 ms;
       dst \<leftarrow> fill 0x6C ws dst;
       Some ((0, dst), th\<lparr>th_sgpr := ms\<rparr>) }
     else Some ((0, dst), th\<lparr>th_sgpr := ms\<rparr>) }"

definition th_read_vgprs ::
    "chipfamily \<Rightarrow> u32 \<Rightarrow> (string \<Rightarrow> string \<Rightarrow> u32) \<Rightarrow> u32 \<Rightarrow> u32 list \<Rightarrow> umr_test_harness \<Rightarrow>
     ((int \<times> u32 list) \<times> umr_test_harness) option" where
  "th_read_vgprs family granularity bits thread dst th =
     (if family < FAMILY_AI then Some ((- 1, dst), th)
      else if granularity \<ge> 32 then None
      else
        let addr = gpr_wave_addr family bits OR push_bit 52 (ucast thread);
            nr = unat (push_bit (unat granularity) (bits ''ixSQ_WAVE_GPR_ALLOC'' ''VGPR_SIZE'' + 1));
            (vs, ms) = drain_pass addr nr (th_vgpr th)
        in do {
          dst \<leftarrow> fill 0 vs dst;
          Some ((if length vs < nr then - 1 else 0, dst), th\<lparr>th_vgpr := ms\<rparr>) })"

text \<open>
  The status words of a wave are copied into an array of 32; more than that overruns it.
  \<open>parse\<close> is \<^verbatim>\<open>umr_parse_wave_data_gfx\<close> with the array and the number of words.
\<close>

fun take_wave :: "mmio_block list \<Rightarrow> u64 \<Rightarrow> u32 list \<times> mmio_block list" where
  "take_wave [] addr = ([], [])"
| "take_wave (m # ms) addr =
     (if mm_mmio_address m = addr \<and> mm_cur_slot m = 0
      then (mm_values m, m\<lparr>mm_cur_slot := length (mm_values m)\<rparr> # ms)
      else let (vs, ms') = take_wave ms addr in (vs, m # ms'))"

definition th_wave_status ::
    "(u32 list \<Rightarrow> nat \<Rightarrow> int) \<Rightarrow> u32 \<Rightarrow> u32 \<Rightarrow> u32 \<Rightarrow> u32 \<Rightarrow> u32 \<Rightarrow> umr_test_harness \<Rightarrow>
     (int \<times> umr_test_harness) option" where
  "th_wave_status parse se sh cu simd wave th =
     (let addr = push_bit 7 (ucast se) OR push_bit 15 (ucast sh) OR push_bit 23 (ucast cu) OR
                 push_bit 31 (ucast wave) OR push_bit 37 (ucast simd);
          (vs, ms) = take_wave (th_wave th) addr
      in do {
        buf \<leftarrow> fill 0 vs (replicate 32 0);
        Some (if vs = [] then - 1 else parse buf (length vs), th\<lparr>th_wave := ms\<rparr>) })"

text \<open>The configuration bytes and the ring contents of the script, with the ring's size in bytes.\<close>

definition umr_test_harness_get_config_data :: "umr_test_harness \<Rightarrow> u8 list \<Rightarrow> (nat \<times> u8 list) option" where
  "umr_test_harness_get_config_data th dst =
     (let c = rb_contents (hd (th_config th)) in
      if length c \<le> length dst then Some (length c, overwrite 0 c dst) else None)"

definition umr_test_harness_get_ring_data :: "umr_test_harness \<Rightarrow> u32 list \<times> u32" where
  "umr_test_harness_get_ring_data th =
     (let vs = mm_values (hd (th_ring th)) in (vs, of_nat (length vs) * 4 - 12))"

subsection \<open>Linear memory\<close>

text \<open>
  What the page walker relies on in a memory callback.  A range is \<open>mapped\<close> when the
  callback can serve it and \<open>peek\<close> is what the range holds: a read returns it and
  changes nothing, a write replaces it and leaves disjoint ranges alone.
\<close>

definition apart :: "u64 \<Rightarrow> nat \<Rightarrow> u64 \<Rightarrow> nat \<Rightarrow> bool" where
  "apart a n b m \<longleftrightarrow> unat a + n \<le> unat b \<or> unat b + m \<le> unat a"

locale linear_memory =
  fixes acc :: "u64 \<Rightarrow> u8 list \<Rightarrow> bool \<Rightarrow> ('w, int \<times> u8 list) dev_op"
    and mapped :: "umr_asic \<times> 'w \<Rightarrow> u64 \<Rightarrow> nat \<Rightarrow> bool"
    and peek :: "umr_asic \<times> 'w \<Rightarrow> u64 \<Rightarrow> nat \<Rightarrow> u8 list"
  assumes length_peek: "mapped s a n \<Longrightarrow> length (peek s a n) = n"
    and mem_read: "mapped s a (length d) \<Longrightarrow> acc a d False s = Some ((0, peek s a (length d)), s)"
    and mem_write: "mapped s a (length d) \<Longrightarrow>
      \<exists>s'. acc a d True s = Some ((0, d), s') \<and> fst s' = fst s \<and> mapped s' = mapped s \<and>
        peek s' a (length d) = d \<and>
        (\<forall>b m. mapped s b m \<and> apart a (length d) b m \<longrightarrow> peek s' b m = peek s b m)"
begin

lemma write_then_read:
  assumes "mapped s a (length d)" and "length e = length d"
  shows "\<exists>s'. acc a d True s = Some ((0, d), s') \<and> acc a e False s' = Some ((0, d), s')"
  using mem_write [OF assms(1)] mem_read [of _ a e] assms by auto

lemma write_frame:
  assumes "mapped s a (length d)" and "mapped s b (length e)" and "apart a (length d) b (length e)"
  shows "\<exists>s'. acc a d True s = Some ((0, d), s') \<and> acc b e False s' = Some ((0, peek s b (length e)), s')"
  using mem_write [OF assms(1)] mem_read [of _ b e] assms by auto

end

definition block_fits :: "ram_block \<Rightarrow> bool" where
  "block_fits rb \<longleftrightarrow> unat (rb_base_address rb) + length (rb_contents rb) < 2 ^ 64"

definition blocks_mapped :: "ram_block list \<Rightarrow> u64 \<Rightarrow> nat \<Rightarrow> bool" where
  "blocks_mapped rbs a n \<longleftrightarrow>
     unat a + n < 2 ^ 64 \<and> list_all block_fits rbs \<and> (\<exists>rb \<in> set rbs. ram_covers rb a n)"

fun blocks_peek :: "ram_block list \<Rightarrow> u64 \<Rightarrow> nat \<Rightarrow> u8 list" where
  "blocks_peek [] a n = []"
| "blocks_peek (rb # rbs) a n =
     (if ram_covers rb a n then take n (drop (unat (a - rb_base_address rb)) (rb_contents rb))
      else blocks_peek rbs a n)"

lemma unat_add_of_nat_u64: "unat a + n < 2 ^ 64 \<Longrightarrow> unat (a + of_nat n :: u64) = unat a + n"
  by (simp add: unat_word_ariths unsigned_of_nat take_bit_nat_eq_self)

lemma ram_covers_fits:
  assumes "block_fits rb" and "unat a + n < 2 ^ 64"
  shows "ram_covers rb a n \<longleftrightarrow> unat (rb_base_address rb) \<le> unat a \<and>
           unat a + n \<le> unat (rb_base_address rb) + length (rb_contents rb)"
  using assms by (simp add: ram_covers_def block_fits_def word_le_nat_alt unat_add_of_nat_u64)

lemma ram_covers_offset:
  assumes "block_fits rb" and "unat a + n < 2 ^ 64" and "ram_covers rb a n"
  shows "unat (a - rb_base_address rb) = unat a - unat (rb_base_address rb)"
    and "unat (a - rb_base_address rb) + n \<le> length (rb_contents rb)"
proof -
  have le: "unat (rb_base_address rb) \<le> unat a" "unat a + n \<le> unat (rb_base_address rb) + length (rb_contents rb)"
    using ram_covers_fits [OF assms(1,2)] assms(3) by auto
  then show e: "unat (a - rb_base_address rb) = unat a - unat (rb_base_address rb)"
    by (simp add: unat_sub word_le_nat_alt)
  show "unat (a - rb_base_address rb) + n \<le> length (rb_contents rb)" using le e by linarith
qed

lemma length_blocks_peek: "blocks_mapped rbs a n \<Longrightarrow> length (blocks_peek rbs a n) = n"
proof (induction rbs)
  case (Cons rb rbs)
  then show ?case using ram_covers_offset(2) [of rb a n] by (auto simp: blocks_mapped_def)
qed (simp add: blocks_mapped_def)

lemma blocks_mapped_tl: "blocks_mapped (rb # rbs) a n \<Longrightarrow> \<not> ram_covers rb a n \<Longrightarrow> blocks_mapped rbs a n"
  by (auto simp: blocks_mapped_def)

lemma blocks_mapped_hd:
  "blocks_mapped (rb # rbs) a n \<Longrightarrow> block_fits rb" "blocks_mapped rbs a n \<Longrightarrow> unat a + n < 2 ^ 64"
  by (auto simp: blocks_mapped_def)

lemma access_blocks_read:
  "blocks_mapped rbs a (length d) \<Longrightarrow>
   access_blocks rbs a d False = Some ((0, blocks_peek rbs a (length d)), rbs)"
proof (induction rbs)
  case (Cons rb rbs)
  show ?case
  proof (cases "ram_covers rb a (length d)")
    case True
    then show ?thesis
      using ram_covers_offset(2) [OF blocks_mapped_hd(1) [OF Cons.prems] blocks_mapped_hd(2) [OF Cons.prems] True]
      by (simp add: Let_def)
  next
    case False
    then show ?thesis using Cons.IH [OF blocks_mapped_tl [OF Cons.prems False]] by simp
  qed
qed (simp add: blocks_mapped_def)

text \<open>A write keeps every block where it is and as long as it is.\<close>

definition same_layout :: "ram_block list \<Rightarrow> ram_block list \<Rightarrow> bool" where
  "same_layout rbs rbs' \<longleftrightarrow> list_all2 (\<lambda>r r'. rb_base_address r = rb_base_address r' \<and>
     length (rb_contents r) = length (rb_contents r')) rbs rbs'"

lemma same_layout_mapped:
  assumes "same_layout rbs rbs'"
  shows "blocks_mapped rbs' = blocks_mapped rbs"
proof -
  have "list_all block_fits rbs' = list_all block_fits rbs \<and>
      (\<forall>a n. (\<exists>rb \<in> set rbs'. ram_covers rb a n) = (\<exists>rb \<in> set rbs. ram_covers rb a n))"
    using assms unfolding same_layout_def
  proof (induction rbs rbs' rule: list_all2_induct)
    case (Cons r rs r' rs')
    then have "block_fits r' = block_fits r" "ram_covers r' = ram_covers r"
      by (simp_all add: block_fits_def ram_covers_def fun_eq_iff)
    with Cons.IH show ?case by simp
  qed simp
  then show ?thesis by (simp add: blocks_mapped_def fun_eq_iff)
qed

lemma slice_overwrite_same:
  "off + length d \<le> length xs \<Longrightarrow> take (length d) (drop off (overwrite off d xs)) = d"
  by (simp add: overwrite_def)

lemma slice_overwrite_apart:
  assumes "off + length d \<le> length xs" and "i + m \<le> length xs" and "off + length d \<le> i \<or> i + m \<le> off"
  shows "take m (drop i (overwrite off d xs)) = take m (drop i xs)"
proof (rule nth_equalityI)
  show "length (take m (drop i (overwrite off d xs))) = length (take m (drop i xs))"
    using assms(1) by simp
  fix j assume "j < length (take m (drop i (overwrite off d xs)))"
  then show "take m (drop i (overwrite off d xs)) ! j = take m (drop i xs) ! j"
    using assms by (auto simp: overwrite_def nth_append)
qed

lemma access_blocks_write:
  "blocks_mapped rbs a (length d) \<Longrightarrow> \<exists>rbs'. access_blocks rbs a d True = Some ((0, d), rbs') \<and>
     same_layout rbs rbs' \<and> blocks_peek rbs' a (length d) = d \<and>
     (\<forall>b m. blocks_mapped rbs b m \<and> apart a (length d) b m \<longrightarrow> blocks_peek rbs' b m = blocks_peek rbs b m)"
proof (induction rbs)
  case Nil
  then show ?case by (simp add: blocks_mapped_def)
next
  case (Cons rb rbs)
  have refl: "same_layout l l" for l by (simp add: same_layout_def list.rel_refl)
  show ?case
  proof (cases "ram_covers rb a (length d)")
    case True
    let ?off = "unat (a - rb_base_address rb)"
    let ?rb = "rb\<lparr>rb_contents := overwrite ?off d (rb_contents rb)\<rparr>"
    have fit: "block_fits rb" and lim: "unat a + length d < 2 ^ 64"
      using Cons.prems by (auto simp: blocks_mapped_def)
    note off = ram_covers_offset [OF fit lim True]
    have cov: "ram_covers ?rb = ram_covers rb"
      using off(2) by (simp add: ram_covers_def fun_eq_iff)
    have other: "take m (drop (unat (b - rb_base_address rb)) (overwrite ?off d (rb_contents rb))) =
        take m (drop (unat (b - rb_base_address rb)) (rb_contents rb))"
      if "unat b + m < 2 ^ 64" "ram_covers rb b m" "apart a (length d) b m" for b m
    proof (rule slice_overwrite_apart)
      note offb = ram_covers_offset [OF fit that(1,2)]
      show "?off + length d \<le> length (rb_contents rb)" by (rule off)
      show "unat (b - rb_base_address rb) + m \<le> length (rb_contents rb)" by (rule offb)
      show "?off + length d \<le> unat (b - rb_base_address rb) \<or> unat (b - rb_base_address rb) + m \<le> ?off"
        using that(3) off(1) offb(1) ram_covers_fits [OF fit lim] ram_covers_fits [OF fit that(1)] True that(2)
        by (auto simp: apart_def)
    qed
    have "access_blocks (rb # rbs) a d True = Some ((0, d), ?rb # rbs)"
      using True off(2) by (simp add: Let_def)
    moreover have "same_layout (rb # rbs) (?rb # rbs)"
      using refl [of rbs] off(2) by (simp add: same_layout_def)
    moreover have "blocks_peek (?rb # rbs) a (length d) = d"
      using True off(2) by (simp add: cov slice_overwrite_same)
    moreover have "blocks_peek (?rb # rbs) b m = blocks_peek (rb # rbs) b m"
      if "blocks_mapped (rb # rbs) b m" "apart a (length d) b m" for b m
      using that other [of b m] by (simp add: cov blocks_mapped_def)
    ultimately show ?thesis by blast
  next
    case False
    then have "blocks_mapped rbs a (length d)" using Cons.prems by (auto simp: blocks_mapped_def)
    from Cons.IH [OF this] obtain rbs' where r: "access_blocks rbs a d True = Some ((0, d), rbs')"
      "same_layout rbs rbs'" "blocks_peek rbs' a (length d) = d"
      "\<forall>b m. blocks_mapped rbs b m \<and> apart a (length d) b m \<longrightarrow> blocks_peek rbs' b m = blocks_peek rbs b m"
      by blast
    have "blocks_peek (rb # rbs') b m = blocks_peek (rb # rbs) b m"
      if "blocks_mapped (rb # rbs) b m" "apart a (length d) b m" for b m
      using that r(4) by (auto simp: blocks_mapped_def)
    then show ?thesis using False r by (auto simp: same_layout_def)
  qed
qed

interpretation th_vram: linear_memory th_access_linear_vram
  "\<lambda>s. blocks_mapped (th_vram (snd s))" "\<lambda>s. blocks_peek (th_vram (snd s))"
proof unfold_locales
  fix s :: "umr_asic \<times> umr_test_harness" and a :: u64 and d :: "u8 list"
  assume "blocks_mapped (th_vram (snd s)) a (length d)"
  from access_blocks_write [OF this] show "\<exists>s'. th_access_linear_vram a d True s = Some ((0, d), s') \<and> fst s' = fst s \<and>
      blocks_mapped (th_vram (snd s')) = blocks_mapped (th_vram (snd s)) \<and>
      blocks_peek (th_vram (snd s')) a (length d) = d \<and>
      (\<forall>b m. blocks_mapped (th_vram (snd s)) b m \<and> apart a (length d) b m \<longrightarrow>
        blocks_peek (th_vram (snd s')) b m = blocks_peek (th_vram (snd s)) b m)"
    by (auto simp: th_access_linear_vram_def dest: same_layout_mapped)
qed (auto simp: length_blocks_peek th_access_linear_vram_def access_blocks_read)

interpretation th_sram: linear_memory th_access_sram
  "\<lambda>s. blocks_mapped (th_sysram (snd s))" "\<lambda>s. blocks_peek (th_sysram (snd s))"
proof unfold_locales
  fix s :: "umr_asic \<times> umr_test_harness" and a :: u64 and d :: "u8 list"
  assume "blocks_mapped (th_sysram (snd s)) a (length d)"
  from access_blocks_write [OF this] show "\<exists>s'. th_access_sram a d True s = Some ((0, d), s') \<and> fst s' = fst s \<and>
      blocks_mapped (th_sysram (snd s')) = blocks_mapped (th_sysram (snd s)) \<and>
      blocks_peek (th_sysram (snd s')) a (length d) = d \<and>
      (\<forall>b m. blocks_mapped (th_sysram (snd s)) b m \<and> apart a (length d) b m \<longrightarrow>
        blocks_peek (th_sysram (snd s')) b m = blocks_peek (th_sysram (snd s)) b m)"
    by (auto simp: th_access_sram_def dest: same_layout_mapped)
qed (auto simp: length_blocks_peek th_access_sram_def access_blocks_read)

text \<open>C27: The harness memory is memory: what is written to a range that one recorded block
  covers is read back from it, and a range that does not overlap it keeps its contents.\<close>

theorem harness_memory_write_read:
  assumes "blocks_mapped (th_sysram th) a (length d)" and "length e = length d"
    and "blocks_mapped (th_sysram th) b (length f)" and "apart a (length d) b (length f)"
  shows "\<exists>s'. th_access_sram a d True (asic, th) = Some ((0, d), s') \<and>
     th_access_sram a e False s' = Some ((0, d), s') \<and>
     th_access_sram b f False s' = Some ((0, blocks_peek (th_sysram th) b (length f)), s')"
  using th_sram.write_then_read [of "(asic, th)" a d e] th_sram.write_frame [of "(asic, th)" a d b f] assms
  by auto

definition demo_harness :: umr_test_harness where
  "demo_harness = fold add_line [Log_sysram 0x1000 [1, 2, 3, 4, 5, 6, 7, 8], Log_vram 0 (replicate 16 0xAA),
     Log_mmio 0x24 7 ''df.mmA_CNTL'', Log_mmio 0x10 0 ''gfx90.mmC_CNTL'',
     Log_gpr False 0x1000000000000000 [1, 2, 3], Log_wave 0 (replicate 33 9)] zero_harness"

lemmas demo_harness_eval = demo_harness_def push_ram_def push_mmio_def zero_harness_def zero_ram_def zero_mmio_def

theorem harness_memory_write_read_witness:
  "\<exists>s'. th_access_sram 0x1000 [9, 9] True (demo_dev, demo_harness) = Some ((0, [9, 9]), s') \<and>
     th_access_sram 0x1000 [0, 0] False s' = Some ((0, [9, 9]), s') \<and>
     th_access_sram 0x1002 [0] False s' = Some ((0, [3]), s')"
proof -
  have m: "blocks_mapped (th_sysram demo_harness) 0x1000 (length [9 :: u8, 9])"
    "blocks_mapped (th_sysram demo_harness) 0x1002 (length [0 :: u8])"
    by (simp_all add: demo_harness_eval blocks_mapped_def block_fits_def ram_covers_def)
  have p: "blocks_peek (th_sysram demo_harness) 0x1002 1 = [3]"
    by (simp add: demo_harness_eval ram_covers_def)
  have "apart 0x1000 (length [9 :: u8, 9]) 0x1002 (length [0 :: u8])" by (simp add: apart_def)
  from harness_memory_write_read [OF m(1) _ m(2) this, of "[0, 0]" demo_dev] p show ?thesis by auto
qed

subsection \<open>The harness is a register bus\<close>

lemma umr_find_reg_same_db:
  assumes "umr_find_reg asic n = Some (v, asic')" and "asic_blocks asic2 = asic_blocks asic"
  shows "\<exists>asic2'. umr_find_reg asic2 n = Some (v, asic2') \<and> asic_blocks asic2' = asic_blocks asic"
proof -
  note by_name = umr_find_reg_def umr_find_reg_by_name_def umr_find_reg_data_by_ip_by_instance_def [symmetric]
  obtain r m a where f: "umr_find_reg_data_by_ip_by_instance asic None (- 2) n = Some (r, m, a)"
    and v: "v = (case r of Some p \<Rightarrow> ucast (reg_addr (reg_at (asic_blocks asic) p)) | None \<Rightarrow> 0xFFFFFFFF)"
    using assms(1) unfolding by_name by (auto simp: bind_eq_Some_conv)
  from find_reg_same_db [OF f assms(2)] show ?thesis
    unfolding by_name v assms(2) by auto
qed

lemma reg_is_any_same_db:
  "reg_is_any ns q asic = Some (b, asic') \<Longrightarrow> asic_blocks asic2 = asic_blocks asic \<Longrightarrow>
   \<exists>asic2'. reg_is_any ns q asic2 = Some (b, asic2') \<and> asic_blocks asic2' = asic_blocks asic"
proof (induction ns arbitrary: asic asic2)
  case (Cons n ns)
  obtain v a where f: "umr_find_reg asic n = Some (v, a)"
    using Cons.prems(1) by (auto simp: bind_eq_Some_conv)
  obtain a2 where f2: "umr_find_reg asic2 n = Some (v, a2)" "asic_blocks a2 = asic_blocks asic"
    using umr_find_reg_same_db [OF f Cons.prems(2)] by blast
  obtain a3 where "umr_find_reg asic n = Some (v, a3)" "asic_blocks a3 = asic_blocks asic"
    using umr_find_reg_same_db [OF f refl] by blast
  then have "asic_blocks a = asic_blocks asic" using f by simp
  then show ?case using Cons.prems Cons.IH [of a a2] f f2 by (auto split: if_splits)
qed simp

lemma classify_same_db:
  "classify ks q asic = Some (k, asic') \<Longrightarrow> asic_blocks asic2 = asic_blocks asic \<Longrightarrow>
   \<exists>asic2'. classify ks q asic2 = Some (k, asic2') \<and> asic_blocks asic2' = asic_blocks asic"
proof (induction ks arbitrary: asic asic2)
  case (Cons nk ks)
  obtain ns k0 where nk: "nk = (ns, k0)" by fastforce
  obtain b a where f: "reg_is_any ns q asic = Some (b, a)"
    using Cons.prems(1) nk by (auto simp: bind_eq_Some_conv)
  obtain a2 where f2: "reg_is_any ns q asic2 = Some (b, a2)" "asic_blocks a2 = asic_blocks asic"
    using reg_is_any_same_db [OF f Cons.prems(2)] by blast
  obtain a3 where "reg_is_any ns q asic = Some (b, a3)" "asic_blocks a3 = asic_blocks asic"
    using reg_is_any_same_db [OF f refl] by blast
  then have "asic_blocks a = asic_blocks asic" using f by simp
  then show ?case using Cons.prems Cons.IH [of a a2] f f2 nk by (auto split: if_splits)
qed simp

definition plain_reg :: "umr_asic \<Rightarrow> u64 \<Rightarrow> bool" where
  "plain_reg asic a \<longleftrightarrow> (\<exists>asic'. classify th_regs (drop_bit 2 a) asic = Some (Listed, asic'))"

lemma plain_reg_db: "asic_blocks asic2 = asic_blocks asic \<Longrightarrow> plain_reg asic2 a = plain_reg asic a"
  unfolding plain_reg_def by (metis classify_same_db)

text \<open>The value that the next read of a recorded register returns.\<close>

definition slot_front :: "mmio_block list \<Rightarrow> u64 \<Rightarrow> u32 option" where
  "slot_front ms a =
     (case find (\<lambda>m. mm_mmio_address m = a) ms of
        Some m \<Rightarrow> if mm_cur_slot m < length (mm_values m) then Some (mm_values m ! mm_cur_slot m) else None
      | None \<Rightarrow> None)"

definition th_front :: "umr_asic \<times> umr_test_harness \<Rightarrow> u64 \<Rightarrow> u32 option" where
  "th_front s a = (if plain_reg (fst s) a then slot_front (th_mmio (snd s)) a else None)"

lemma next_slot_front:
  "slot_front ms a = Some v \<Longrightarrow> \<exists>ms'. next_slot ms a = Some (Some v, ms') \<and>
     (\<forall>b. b \<noteq> a \<longrightarrow> slot_front ms' b = slot_front ms b)"
proof (induction ms)
  case (Cons m ms)
  show ?case
  proof (cases "mm_mmio_address m = a")
    case True
    then show ?thesis using Cons.prems by (auto simp: slot_front_def split: if_splits)
  next
    case False
    then have "slot_front ms a = Some v" using Cons.prems by (simp add: slot_front_def)
    from Cons.IH [OF this] False show ?thesis by (auto simp: slot_front_def)
  qed
qed (simp add: slot_front_def)

lemma put_slot_front:
  "slot_front ms a = Some u \<Longrightarrow> \<exists>ms'. put_slot ms a v = Some (0, ms') \<and>
     slot_front ms' = (slot_front ms)(a := Some v)"
proof (induction ms)
  case (Cons m ms)
  show ?case
  proof (cases "mm_mmio_address m = a")
    case True
    then show ?thesis using Cons.prems by (auto simp: slot_front_def fun_eq_iff split: if_splits)
  next
    case False
    then have "slot_front ms a = Some u" using Cons.prems by (simp add: slot_front_def)
    from Cons.IH [OF this] False show ?thesis
      by (auto simp: slot_front_def fun_eq_iff)
  qed
qed (simp add: slot_front_def)

lemma th_front_Some:
  assumes "th_front s a = Some v"
  obtains asic' where "classify th_regs (drop_bit 2 a) (fst s) = Some (Listed, asic')"
    and "asic_blocks asic' = asic_blocks (fst s)" and "slot_front (th_mmio (snd s)) a = Some v"
proof -
  obtain asic' where c: "classify th_regs (drop_bit 2 a) (fst s) = Some (Listed, asic')"
    using assms by (auto simp: th_front_def plain_reg_def split: if_splits)
  have "asic_blocks asic' = asic_blocks (fst s)" using classify_same_db [OF c refl] c by auto
  moreover have "slot_front (th_mmio (snd s)) a = Some v"
    using assms by (simp add: th_front_def split: if_splits)
  ultimately show ?thesis using that c by blast
qed

interpretation th_bus: register_bus harness_funcs th_front
proof unfold_locales
  fix s :: "umr_asic \<times> umr_test_harness" and a v
  assume "th_front s a = Some v"
  then obtain asic' where c: "classify th_regs (drop_bit 2 a) (fst s) = Some (Listed, asic')"
    "asic_blocks asic' = asic_blocks (fst s)" "slot_front (th_mmio (snd s)) a = Some v"
    by (rule th_front_Some)
  obtain ms' where n: "next_slot (th_mmio (snd s)) a = Some (Some v, ms')"
    "\<forall>b. b \<noteq> a \<longrightarrow> slot_front ms' b = slot_front (th_mmio (snd s)) b"
    using next_slot_front [OF c(3)] by blast
  show "\<exists>s'. read_reg harness_funcs a REG_MMIO s = Some (v, s') \<and> asic_blocks (fst s') = asic_blocks (fst s) \<and>
      (\<forall>b. b \<noteq> a \<longrightarrow> th_front s' b = th_front s b)"
    using c n plain_reg_db [OF c(2)] by (simp add: harness_funcs_def th_read_reg_def Let_def th_front_def)
next
  fix s :: "umr_asic \<times> umr_test_harness" and a u v
  assume "th_front s a = Some u"
  then obtain asic' where c: "classify th_regs (drop_bit 2 a) (fst s) = Some (Listed, asic')"
    "asic_blocks asic' = asic_blocks (fst s)" "slot_front (th_mmio (snd s)) a = Some u"
    by (rule th_front_Some)
  have p: "plain_reg (fst s) a" using c(1) by (auto simp: plain_reg_def)
  show "\<exists>s'. write_reg harness_funcs a v REG_MMIO s = Some (0, s') \<and> asic_blocks (fst s') = asic_blocks (fst s) \<and>
      th_front s' = (th_front s)(a := Some v)"
  proof -
    obtain ms' where ms': "put_slot (th_mmio (snd s)) a v = Some (0, ms')"
      "slot_front ms' = (slot_front (th_mmio (snd s)))(a := Some v)"
      using put_slot_front [OF c(3), of v] by blast
    let ?s = "(asic', (snd s)\<lparr>th_mmio := ms'\<rparr>)"
    have "write_reg harness_funcs a v REG_MMIO s = Some (0, ?s)"
      using c(1) ms'(1) by (simp add: harness_funcs_def th_write_reg_def)
    moreover have "th_front ?s = (th_front s)(a := Some v)"
      using ms'(2) p by (simp add: th_front_def fun_eq_iff plain_reg_db [OF c(2)])
    ultimately show ?thesis using c(2) by auto
  qed
next
  fix s :: "umr_asic \<times> umr_test_harness" and ip inst name r m asic'
  assume "umr_find_reg_data_by_ip_by_instance (fst s) ip inst name = Some (r, m, asic')"
  from plain_reg_db [OF find_reg_frame(1) [OF this]] show "th_front (asic', snd s) = th_front s"
    by (simp add: th_front_def fun_eq_iff)
qed

text \<open>C26: On the test harness a register written by name reads back by name: all 64 bits for a
  64 bit register, whose two halves are separate recorded registers, and the low 32 bits
  otherwise, whatever the lookups do to the device's options on the way.\<close>

theorem harness_register_write_read:
  assumes "umr_find_reg_data_by_ip_by_instance asic ip inst name = Some (Some p, m, asic')"
    and "reg = reg_at (asic_blocks asic) p" and "reg_type reg = REG_MMIO"
    and "th_front (asic, th) (reg_addr reg * 4) \<noteq> None"
    and "reg_bit64 reg \<noteq> 0 \<Longrightarrow> th_front (asic, th) ((reg_addr reg + 1) * 4) \<noteq> None"
  shows "\<exists>s1 s2. umr_write_reg_by_name_by_ip_by_instance harness_funcs ip inst name v (asic, th) = Some (0, s1) \<and>
     umr_read_reg_by_name_by_ip_by_instance harness_funcs ip inst name s1 =
       Some (if reg_bit64 reg \<noteq> 0 then v else ucast (lo32 v), s2)"
  using assms by (intro th_bus.write_then_read) (auto simp: th_bus.has_reg_def)

theorem harness_register_write_read_witness:
  "\<exists>s1 s2. umr_write_reg_by_name_by_ip_by_instance harness_funcs None (- 1) ''mmA_CNTL'' 0x123456789 (demo_dev, demo_harness) =
       Some (0, s1) \<and>
     umr_read_reg_by_name_by_ip_by_instance harness_funcs None (- 1) ''mmA_CNTL'' s1 = Some (0x23456789, s2)"
proof -
  have f: "umr_find_reg_data_by_ip_by_instance demo_dev None (- 1) ''mmA_CNTL'' = Some (Some (0, 0), Quiet, demo_dev)"
    by code_simp
  have r: "demo_reg ''mmA_CNTL'' REG_MMIO 9 = reg_at (asic_blocks demo_dev) (0, 0)"
    by (simp add: demo_dev_def demo_blocks_def demo_block_def reg_at_def)
  have "map_option fst (classify th_regs 9 demo_dev) = Some Listed" by code_simp
  then have "plain_reg demo_dev 0x24" by (auto simp: plain_reg_def)
  then have "th_front (demo_dev, demo_harness) (reg_addr (demo_reg ''mmA_CNTL'' REG_MMIO 9) * 4) \<noteq> None"
    by (simp add: th_front_def slot_front_def demo_reg_def demo_harness_eval)
  moreover have "(ucast (lo32 0x123456789) :: u64) = 0x23456789" by (simp add: lo32_def)
  ultimately show ?thesis
    using harness_register_write_read [OF f r, of demo_harness "0x123456789"] by (simp add: demo_reg_def)
qed

subsection \<open>Reading general purpose registers\<close>

fun avail :: "u64 \<Rightarrow> mmio_block list \<Rightarrow> nat" where
  "avail addr [] = 0"
| "avail addr (m # ms) =
     (if mm_mmio_address m = addr then length (mm_values m) - mm_cur_slot m else 0) + avail addr ms"

lemma drain_pass_avail:
  "length (fst (drain_pass addr n ms)) = min n (avail addr ms) \<and>
   avail addr (snd (drain_pass addr n ms)) = avail addr ms - min n (avail addr ms)"
proof (induction ms arbitrary: n)
  case (Cons m ms)
  define vs where "vs = (if mm_mmio_address m = addr then take n (drop (mm_cur_slot m) (mm_values m)) else [])"
  define k where "k = (if mm_mmio_address m = addr then length (mm_values m) - mm_cur_slot m else 0)"
  have vs: "length vs = min n k" by (simp add: vs_def k_def min.commute)
  have d: "drain_pass addr n (m # ms) =
      (vs @ fst (drain_pass addr (n - length vs) ms),
       m\<lparr>mm_cur_slot := mm_cur_slot m + length vs\<rparr> # snd (drain_pass addr (n - length vs) ms))"
    by (simp add: vs_def Let_def split_beta)
  have a: "avail addr (m # ms) = k + avail addr ms"
    "avail addr (m\<lparr>mm_cur_slot := mm_cur_slot m + length vs\<rparr> # ms') = k - length vs + avail addr ms'" for ms'
    using vs by (auto simp: k_def)
  show ?case unfolding d a fst_conv snd_conv using Cons.IH [of "n - length vs"] vs
    by (cases "n \<le> k"; cases "n \<le> k + avail addr ms") simp_all
qed simp

lemma sgpr_loop_enough:
  assumes "n \<le> avail addr ms"
  shows "sgpr_loop addr n ms = Some (drain_pass addr n ms) \<or> n = 0 \<and> sgpr_loop addr n ms = Some ([], ms)"
proof (cases "n = 0")
  case False
  obtain vs ms' where d: "drain_pass addr n ms = (vs, ms')" by fastforce
  then have "n - length vs = 0" using drain_pass_avail [of addr n ms] assms by simp
  then have "sgpr_loop addr n ms = Some (vs, ms')"
    using False d by (subst sgpr_loop.simps) (simp add: sgpr_loop.simps [of addr 0])
  then show ?thesis using d by simp
qed (simp add: sgpr_loop.simps [of addr 0])

lemma sgpr_loop_stuck:
  assumes "avail addr ms < n"
  shows "sgpr_loop addr n ms = None"
proof -
  have "n \<le> avail addr ms" if "sgpr_loop addr n ms = Some r" for addr n ms r
  proof (rule sgpr_loop.raw_induct [of "\<lambda>addr n ms r. n \<le> avail addr ms", OF _ that])
    fix f :: "u64 \<Rightarrow> nat \<Rightarrow> mmio_block list \<Rightarrow> (u32 list \<times> mmio_block list) option" and addr n ms r
    assume ih: "\<And>addr n ms r. f addr n ms = Some r \<Longrightarrow> n \<le> avail addr ms"
      and body: "(if n = 0 then Some ([], ms)
        else let (vs, ms') = drain_pass addr n ms
             in f addr (n - length vs) ms' \<bind> (\<lambda>(ws, ms''). Some (vs @ ws, ms''))) = Some r"
    show "n \<le> avail addr ms"
    proof (cases "n = 0")
      case False
      obtain vs ms' where d: "drain_pass addr n ms = (vs, ms')" by fastforce
      then have "f addr (n - length vs) ms' \<noteq> None" using body False by (auto simp: bind_eq_Some_conv)
      then have "n - length vs \<le> avail addr ms'" using ih by blast
      then show ?thesis using drain_pass_avail [of addr n ms] d by (auto simp: min_def split: if_splits)
    qed simp
  qed
  then show ?thesis using assms by (metis leD not_None_eq)
qed

text \<open>C37: Reading the scalar registers of a wave from the harness returns exactly when the script
  has recorded enough words for that wave; with fewer, the reader walks the list for ever,
  where the vector reader reports an error.\<close>

theorem sgpr_reader_terminates_iff:
  "sgpr_loop addr n ms \<noteq> None \<longleftrightarrow> n \<le> avail addr ms"
  using sgpr_loop_enough [of n addr ms] sgpr_loop_stuck [of addr ms n]
  by (cases "n \<le> avail addr ms") auto

text \<open>A wave whose recorded status has more than 32 words overruns the reader's array.\<close>

theorem wave_status_overrun:
  assumes "take_wave (th_wave th) (push_bit 7 (ucast se) OR push_bit 15 (ucast sh) OR push_bit 23 (ucast cu) OR
      push_bit 31 (ucast wave) OR push_bit 37 (ucast simd)) = (vs, ms)"
  shows "th_wave_status parse se sh cu simd wave th = None \<longleftrightarrow> 32 < length vs"
  using assms by (simp add: th_wave_status_def fill_def not_le)

theorem wave_status_overrun_witness:
  "th_wave_status (\<lambda>_ _. 0) 0 0 0 0 0 demo_harness = None"
proof -
  have "take_wave (th_wave demo_harness) (push_bit 7 (ucast (0 :: u32)) OR push_bit 15 (ucast (0 :: u32)) OR
      push_bit 23 (ucast (0 :: u32)) OR push_bit 31 (ucast (0 :: u32)) OR push_bit 37 (ucast (0 :: u32))) =
      (replicate 33 9, snd (take_wave (th_wave demo_harness) 0))"
    by (simp add: demo_harness_eval)
  from wave_status_overrun [OF this] show ?thesis by simp
qed

text \<open>Writing a register that no script line recorded fails cleanly unless its byte address
  is 0: that one matches the empty block at the end of the list, whose array does not
  exist, and the store goes through a null pointer.\<close>

theorem unrecorded_register_write:
  assumes "\<forall>m \<in> set ms. mm_mmio_address m \<noteq> addr"
  shows "put_slot (ms @ [zero_mmio]) addr v = (if addr = 0 then None else Some (- 1, ms @ [zero_mmio]))"
  using assms by (induction ms) (auto simp: zero_mmio_def)

theorem unrecorded_register_write_witness:
  "put_slot ([] @ [zero_mmio]) 0 5 = None"
  using unrecorded_register_write [of "[]" 0 5] by simp

end
