(* ===== verification/Vm_Access.thy ===== *)
theory Vm_Access
  imports Vm_Decode Test_Harness
begin

text \<open>
  Access to video memory without a page walk (\<^verbatim>\<open>src/lib/read_vram.c\<close>): the window of the
  MM\_INDEX registers, the linear hub with the choice of an XGMI node, and the loop over
  the pages of a range that both page walkers share.  Messages are left out.
\<close>

subsection \<open>Hubs and the environment of an access\<close>

abbreviation (input) UMR_GFX_HUB :: u32 where "UMR_GFX_HUB \<equiv> 0"
abbreviation (input) UMR_MM_HUB :: u32 where "UMR_MM_HUB \<equiv> 0x100"
abbreviation (input) UMR_MM_VC0 :: u32 where "UMR_MM_VC0 \<equiv> 0x200"
abbreviation (input) UMR_MM_VC1 :: u32 where "UMR_MM_VC1 \<equiv> 0x300"
abbreviation (input) UMR_PROCESS_HUB :: u32 where "UMR_PROCESS_HUB \<equiv> 0xFD00"
abbreviation (input) UMR_USER_HUB :: u32 where "UMR_USER_HUB \<equiv> 0xFE00"
abbreviation (input) UMR_LINEAR_HUB :: u32 where "UMR_LINEAR_HUB \<equiv> 0xFF00"

text \<open>
  A node of an XGMI hive: the size of its memory, and the sizes that its own table of
  nodes lists (the table of a node that was discovered through another one is empty).
\<close>

record xgmi_node =
  node_vram_size :: u64
  node_table :: "u64 list"

text \<open>
  What an access reaches besides the device description: the callbacks of the device,
  the nodes of its hive in hive order with the callback applied to each of them, and the
  memory of the process itself.
\<close>

record 'w vm_env =
  env_funcs :: "'w umr_funcs"
  env_nodes :: "xgmi_node list"
  env_node_vram :: "nat \<Rightarrow> u64 \<Rightarrow> u8 list \<Rightarrow> bool \<Rightarrow> ('w, int \<times> u8 list) dev_op"
  env_process :: "u64 \<Rightarrow> u8 list \<Rightarrow> bool \<Rightarrow> ('w, u8 list) dev_op"

text \<open>The version of the GFX block; \<open>None\<close> when there is none, where the caller's variables stay unset.\<close>

definition umr_gfx_get_ip_ver :: "umr_asic \<Rightarrow> (int \<times> int) option" where
  "umr_gfx_get_ip_ver asic =
     (case umr_find_ip_block (asic_blocks asic) ''gfx'' 0 of
        Some ip \<Rightarrow> Some (ip_maj ip, ip_min ip)
      | None \<Rightarrow> (case umr_find_ip_block (asic_blocks asic) ''gfx'' (- 1) of
                   Some ip \<Rightarrow> Some (ip_maj ip, ip_min ip)
                 | None \<Rightarrow> None))"

subsection \<open>Access through the index and data registers\<close>

definition find3 :: "string \<Rightarrow> string \<Rightarrow> string \<Rightarrow> umr_asic \<Rightarrow> ((u32 \<times> u32 \<times> u32) \<times> umr_asic) option" where
  "find3 a b c asic = do {
     (x, asic) \<leftarrow> umr_find_reg asic a;
     (y, asic) \<leftarrow> umr_find_reg asic b;
     (z, asic) \<leftarrow> umr_find_reg asic c;
     Some ((x, y, z), asic) }"

text \<open>The byte addresses of the index, the upper index and the data register.\<close>

definition mm_registers :: "umr_asic \<Rightarrow> ((u64 \<times> u64 \<times> u64) \<times> umr_asic) option" where
  "mm_registers asic = do {
     (maj, mnr) \<leftarrow> umr_gfx_get_ip_ver asic;
     ((i, h, d), asic) \<leftarrow>
       (if maj \<ge> 10
        then find3 ''@mmBIF_BX_PF_MM_INDEX'' ''@mmBIF_BX_PF_MM_INDEX_HI'' ''@mmBIF_BX_PF_MM_DATA'' asic
        else find3 ''@mmMM_INDEX'' ''@mmMM_INDEX_HI'' ''@mmMM_DATA'' asic);
     let (i, h, d) = (if i = 0xFFFFFFFF \<or> h = 0xFFFFFFFF \<or> d = 0xFFFFFFFF then (0, 6, 1) else (i, h, d));
     Some ((ucast (i * 4), ucast (h * 4), ucast (d * 4)), asic) }"

text \<open>
  One word after the other.  The count is decremented by 4 until it is 0, so with a count
  that is not a multiple of 4 the loop runs past the end of the buffer.
\<close>

fun mm_words :: "'w umr_funcs \<Rightarrow> u64 \<times> u64 \<times> u64 \<Rightarrow> bool \<Rightarrow> u64 \<Rightarrow> u8 list \<Rightarrow> ('w, u8 list) dev_op" where
  "mm_words F (i, h, d) write_en address [] s = Some ([], s)"
| "mm_words F (i, h, d) write_en address (b0 # b1 # b2 # b3 # rest) s = do {
     (_, s) \<leftarrow> write_reg F i (ucast (address OR 0x80000000)) REG_MMIO s;
     (_, s) \<leftarrow> write_reg F h (ucast (drop_bit 31 address)) REG_MMIO s;
     (w, s) \<leftarrow> (if write_en
               then do { (_, s) \<leftarrow> write_reg F d (of_le32 [b0, b1, b2, b3]) REG_MMIO s; Some ([b0, b1, b2, b3], s) }
               else do { (v, s) \<leftarrow> read_reg F d REG_MMIO s; Some (le32 v, s) });
     (ws, s) \<leftarrow> mm_words F (i, h, d) write_en (address + 4) rest s;
     Some (w @ ws, s) }"
| "mm_words F _ write_en address _ s = None"

definition umr_access_vram_via_mmio :: "'w umr_funcs \<Rightarrow> u64 \<Rightarrow> u8 list \<Rightarrow> bool \<Rightarrow> ('w, int \<times> u8 list) dev_op" where
  "umr_access_vram_via_mmio F address dst write_en s = do {
     (regs, asic) \<leftarrow> mm_registers (fst s);
     (dst, s) \<leftarrow> mm_words F regs write_en address dst (asic, snd s);
     Some ((0, dst), s) }"

subsection \<open>The linear hub\<close>

text \<open>
  The node of a hive address: each node takes the size of a segment, or, when no register
  gives one, its memory size rounded up to a GiB.
\<close>

fun xgmi_select :: "xgmi_node list \<Rightarrow> u64 \<Rightarrow> nat \<Rightarrow> u64 \<Rightarrow> (nat \<times> u64) option option" where
  "xgmi_select [] segment_size n addr = Some None"
| "xgmi_select (nd # nds) segment_size n addr =
     (if addr < (if segment_size \<noteq> 0 then segment_size else node_vram_size nd) then Some (Some (n, addr))
      else if segment_size \<noteq> 0 then xgmi_select nds segment_size (Suc n) (addr - segment_size)
      else do { r \<leftarrow> round_up_next_gib (node_vram_size nd); xgmi_select nds segment_size (Suc n) (addr - r) })"

fun first_reg :: "'w umr_funcs \<Rightarrow> string list \<Rightarrow> ('w, u64) dev_op" where
  "first_reg F [] s = Some (0, s)"
| "first_reg F (n # ns) s = do {
     let p = opt_vm_partition (asic_options (fst s));
     (r, m, asic) \<leftarrow> umr_find_reg_data_by_ip_by_instance (fst s) (Some ''gfx'') p (CHR 0x40 # n);
     if r \<noteq> None then do {
       (v, s) \<leftarrow> umr_read_reg_by_name_by_ip_by_instance F (Some ''gfx'') p n (asic, snd s);
       Some (push_bit 24 v, s) }
     else first_reg F ns (asic, snd s) }"

definition xgmi_segment_size :: "'w umr_funcs \<Rightarrow> ('w, u64) dev_op" where
  "xgmi_segment_size F =
     first_reg F [''mmMC_VM_XGMI_LFB_SIZE_ALDE'', ''mmMC_VM_XGMI_LFB_SIZE'', ''mmGCMC_VM_XGMI_LFB_SIZE'']"

text \<open>
  The alignment checks and the linear branch of \<^verbatim>\<open>umr_access_vram\<close>, which the page walkers
  call too.  The buffer has the address \<open>dst\<close>.  The check for a block that spans nodes reads
  the chosen node's own table at the same index; a null pointer there is undefined.
\<close>

definition access_linear :: "'w vm_env \<Rightarrow> u64 \<Rightarrow> u64 \<Rightarrow> u8 list \<Rightarrow> bool \<Rightarrow> ('w, int \<times> u8 list) dev_op" where
  "access_linear E address dst data write_en s =
     (if address AND 3 \<noteq> 0 \<or> length data mod 4 \<noteq> 0 then Some ((- 1, data), s)
      else if dst AND 3 \<noteq> 0 then Some ((- 1, data), s)
      else if opt_use_xgmi (asic_options (fst s)) then do {
        (seg, s) \<leftarrow> xgmi_segment_size (env_funcs E) s;
        sel \<leftarrow> xgmi_select (env_nodes E) seg 0 address;
        case sel of
          None \<Rightarrow> access_linear_vram (env_funcs E) address data write_en s
        | Some (n, addr) \<Rightarrow>
            if n < length (node_table (env_nodes E ! n)) then env_node_vram E n addr data write_en s else None }
      else access_linear_vram (env_funcs E) address data write_en s)"

subsection \<open>The pages of a range\<close>

text \<open>
  How much of the range lies in the page of \<open>start\<close>; \<open>m\<close> is the page size less one, and the
  result is stored in 32 bits.
\<close>

definition chunk_size :: "u64 \<Rightarrow> u64 \<Rightarrow> u32 \<Rightarrow> u32" where
  "chunk_size m start n =
     (if (((start AND m) + ucast n) AND NOT m) \<noteq> 0 then ucast (1 + m - (start AND m)) else n)"

text \<open>
  The result of one page: an error, or how many bytes were handled, with the loop's other
  variables and the buffer's new contents.
\<close>

datatype 'c page_result = Page_error 'c "u8 list" | Page_done u32 'c "u8 list"

text \<open>
  \<^verbatim>\<open>do { ... } while (size)\<close>.  Without a buffer (\<open>dst = 0\<close>) the walk only decodes; the
  bytes are then the empty list.
\<close>

partial_function (option) page_loop ::
    "('c \<Rightarrow> u64 \<Rightarrow> u32 \<Rightarrow> u64 \<Rightarrow> u8 list \<Rightarrow> ('w, 'c page_result) dev_op) \<Rightarrow>
     'c \<Rightarrow> u64 \<Rightarrow> u32 \<Rightarrow> u64 \<Rightarrow> u8 list \<Rightarrow> ('w, int \<times> u8 list \<times> 'c) dev_op" where
  "page_loop page c address n dst bytes s = do {
     (r, s1) \<leftarrow> page c address n dst bytes s;
     case r of
       Page_error c' bytes' \<Rightarrow> Some ((- 1, bytes', c'), s1)
     | Page_done k c' bytes' \<Rightarrow>
         if n - k = 0 then Some ((0, bytes', c'), s1)
         else do {
           ((e, rest, c2), s2) \<leftarrow>
             page_loop page c' (address + ucast k) (n - k) (if dst = 0 then 0 else dst + ucast k) (drop (unat k) bytes') s1;
           Some ((e, take (unat k) bytes' @ rest, c2), s2) } }"

subsection \<open>The register window reads what the linear callback reads\<close>

lemma bit_masks:
  "bit (0xFFFFFFFF00000000 :: u64) n \<longleftrightarrow> 32 \<le> n \<and> n < 64"
  "bit (0xFFFFFFFF :: u64) n \<longleftrightarrow> n < 32"
  "bit (0x7FFFFFFF :: u64) n \<longleftrightarrow> n < 31"
  "bit (0x80000000 :: u64) n \<longleftrightarrow> n = 31"
proof -
  have m: "(0xFFFFFFFF00000000 :: u64) = push_bit 32 (mask 32)" "(0xFFFFFFFF :: u64) = mask 32"
    "(0x7FFFFFFF :: u64) = mask 31" "(0x80000000 :: u64) = push_bit 31 1"
    by (simp_all add: mask_eq_exp_minus_1)
  have l: "LENGTH(64) = 64" by simp
  show "bit (0xFFFFFFFF00000000 :: u64) n \<longleftrightarrow> 32 \<le> n \<and> n < 64" unfolding m
    by (auto simp only: bit_push_bit_iff bit_mask_iff possible_bit_word l)
  show "bit (0xFFFFFFFF :: u64) n \<longleftrightarrow> n < 32" unfolding m by (auto simp only: bit_mask_iff possible_bit_word l)
  show "bit (0x7FFFFFFF :: u64) n \<longleftrightarrow> n < 31" unfolding m by (auto simp only: bit_mask_iff possible_bit_word l)
  show "bit (0x80000000 :: u64) n \<longleftrightarrow> n = 31" unfolding m by (auto simp only: bit_push_bit_iff bit_1_iff possible_bit_word l)
qed

definition mm_index_of :: "u64 \<Rightarrow> u64" where
  "mm_index_of address = mk64 (ucast (address OR 0x80000000)) (ucast (drop_bit 31 address))"

lemma mm_index_writes:
  "((old AND 0xFFFFFFFF00000000) OR ucast (v :: u32)) AND 0xFFFFFFFF OR push_bit 32 (ucast (w :: u32)) = mk64 v w"
proof (rule bit_word_eqI)
  have len: "LENGTH(64) = 64" "LENGTH(32) = 32" by simp_all
  fix n assume "n < LENGTH(64)"
  then show "bit (((old AND 0xFFFFFFFF00000000) OR ucast v) AND 0xFFFFFFFF OR push_bit 32 (ucast w)) n = bit (mk64 v w) n"
    unfolding mk64_def
    by (auto simp only: bit_or_iff bit_and_iff bit_masks bit_ucast_iff bit_push_bit_iff possible_bit_word len,
        auto dest: bit_imp_le_length)
qed

lemma bit_mm_index_of: "bit (mm_index_of address) 31"
  by (simp add: mm_index_of_def mk64_def bit_or_iff bit_ucast_iff bit_push_bit_iff bit_masks)

lemma mm_vram_addr_index_of:
  assumes "address < 2 ^ 63"
  shows "mm_vram_addr (mm_index_of address) = address"
proof (rule bit_word_eqI)
  fix n assume n: "n < LENGTH(64)"
  have len: "LENGTH(64) = 64" "LENGTH(32) = 32" by simp_all
  have "\<not> bit address 63"
  proof
    assume "bit address 63"
    then have "bit (unat address) 63" by (simp add: bit_unsigned_iff)
    moreover have "unat address div 2 ^ 63 = 0" using assms unat_pow2 [of 63] by (simp add: word_less_nat_alt)
    ultimately show False by (simp add: bit_iff_odd)
  qed
  then show "bit (mm_vram_addr (mm_index_of address)) n = bit address n" using n
    unfolding mm_vram_addr_def mm_index_of_def mk64_def
    by (cases "n = 63") (auto simp only: bit_or_iff bit_and_iff bit_masks bit_ucast_iff bit_push_bit_iff
        bit_drop_bit_eq comp_def possible_bit_word len, auto dest: bit_imp_le_length)
qed

definition mm_window :: "umr_asic \<Rightarrow> u64 \<times> u64 \<times> u64 \<Rightarrow> bool" where
  "mm_window asic = (\<lambda>(i, h, d).
     map_option fst (classify th_regs (drop_bit 2 i) asic) = Some MM_index \<and>
     map_option fst (classify th_regs (drop_bit 2 h) asic) = Some MM_index_hi \<and>
     map_option fst (classify th_regs (drop_bit 2 d) asic) = Some MM_data)"

lemma classify_keeps:
  assumes "map_option fst (classify ks q asic) = Some k"
  obtains asic' where "classify ks q asic = Some (k, asic')" "asic_blocks asic' = asic_blocks asic"
  using assms classify_same_db [of ks q asic k _ asic] by fastforce

lemma mm_window_db:
  assumes "asic_blocks asic2 = asic_blocks asic" and "mm_window asic regs"
  shows "mm_window asic2 regs"
proof -
  have "map_option fst (classify ks q asic2) = Some k" if c: "map_option fst (classify ks q asic) = Some k" for ks q k
  proof -
    obtain a where "classify ks q asic = Some (k, a)" using classify_keeps [OF c] .
    from classify_same_db [OF this assms(1)] show ?thesis by auto
  qed
  then show ?thesis using assms(2) by (simp add: mm_window_def split: prod.splits)
qed

lemma mm_select:
  assumes "mm_window asic (i, h, d)"
  shows "\<exists>asic1 asic2. th_write_reg i v REG_MMIO (asic, th) =
           Some (0, (asic1, th\<lparr>th_vram_mm_index := (th_vram_mm_index th AND 0xFFFFFFFF00000000) OR ucast v\<rparr>)) \<and>
         th_write_reg h w REG_MMIO
           (asic1, th\<lparr>th_vram_mm_index := (th_vram_mm_index th AND 0xFFFFFFFF00000000) OR ucast v\<rparr>) =
           Some (0, (asic2, th\<lparr>th_vram_mm_index := mk64 v w\<rparr>)) \<and>
         asic_blocks asic2 = asic_blocks asic"
proof -
  obtain asic1 where c1: "classify th_regs (drop_bit 2 i) asic = Some (MM_index, asic1)"
    and b1: "asic_blocks asic1 = asic_blocks asic"
    using assms classify_keeps [of th_regs "drop_bit 2 i" asic MM_index] by (auto simp: mm_window_def)
  have "mm_window asic1 (i, h, d)" using mm_window_db [OF b1 assms] .
  then obtain asic2 where c2: "classify th_regs (drop_bit 2 h) asic1 = Some (MM_index_hi, asic2)"
    and b2: "asic_blocks asic2 = asic_blocks asic1"
    using classify_keeps [of th_regs "drop_bit 2 h" asic1 MM_index_hi] by (auto simp: mm_window_def)
  show ?thesis
    using b1 b2 by (simp add: th_write_reg_def c1 c2 mm_index_writes)
qed

lemma mm_read_data:
  assumes "mm_window asic (i, h, d)" and "address < 2 ^ 63" and "blocks_mapped (th_vram th) address 4"
  shows "\<exists>asic'. th_read_reg d REG_MMIO (asic, th\<lparr>th_vram_mm_index := mm_index_of address\<rparr>) =
           Some (of_le32 (blocks_peek (th_vram th) address 4), (asic', th\<lparr>th_vram_mm_index := mm_index_of address\<rparr>)) \<and>
         asic_blocks asic' = asic_blocks asic"
proof -
  obtain asic' where c: "classify th_regs (drop_bit 2 d) asic = Some (MM_data, asic')"
    and b: "asic_blocks asic' = asic_blocks asic"
    using assms(1) classify_keeps [of th_regs "drop_bit 2 d" asic MM_data] by (auto simp: mm_window_def)
  have "th_access_linear_vram address [0, 0, 0, 0] False (asic', th\<lparr>th_vram_mm_index := mm_index_of address\<rparr>) =
      Some ((0, blocks_peek (th_vram th) address 4), (asic', th\<lparr>th_vram_mm_index := mm_index_of address\<rparr>))"
    using th_vram.mem_read [of "(asic', th\<lparr>th_vram_mm_index := mm_index_of address\<rparr>)" address "[0, 0, 0, 0]"] assms(3)
    by (simp add: numeral_eq_Suc)
  then show ?thesis
    using b by (simp add: th_read_reg_def c bit_mm_index_of mm_vram_addr_index_of [OF assms(2)])
qed

lemma mm_words_read:
  assumes "mm_window asic (i, h, d)" and "length dst = 4 * n" and "unat address + 4 * n < 2 ^ 63"
    and "\<And>k. k < n \<Longrightarrow> blocks_mapped (th_vram th) (address + of_nat (4 * k)) 4"
  shows "\<exists>asic' th'. mm_words harness_funcs (i, h, d) False address dst (asic, th) =
           Some (concat (map (\<lambda>k. blocks_peek (th_vram th) (address + of_nat (4 * k)) 4) [0..<n]), (asic', th')) \<and>
         th_vram th' = th_vram th"
  using assms
proof (induction n arbitrary: asic th address dst)
  case (Suc n)
  have "length dst = Suc (Suc (Suc (Suc (4 * n))))" using Suc.prems(2) by simp
  then obtain b0 b1 b2 b3 rest where dst: "dst = b0 # b1 # b2 # b3 # rest" "length rest = 4 * n"
    by (auto simp: length_Suc_conv)
  let ?th = "th\<lparr>th_vram_mm_index := mm_index_of address\<rparr>"
  obtain asic1 asic2 where
    w1: "th_write_reg i (ucast (address OR 0x80000000)) REG_MMIO (asic, th) = Some (0, (asic1,
      th\<lparr>th_vram_mm_index := (th_vram_mm_index th AND 0xFFFFFFFF00000000) OR ucast (ucast (address OR 0x80000000) :: u32)\<rparr>))"
    and w2: "th_write_reg h (ucast (drop_bit 31 address)) REG_MMIO (asic1,
      th\<lparr>th_vram_mm_index := (th_vram_mm_index th AND 0xFFFFFFFF00000000) OR ucast (ucast (address OR 0x80000000) :: u32)\<rparr>) =
      Some (0, (asic2, ?th))"
    and b2: "asic_blocks asic2 = asic_blocks asic"
    using mm_select [OF Suc.prems(1), of "ucast (address OR 0x80000000)" th "ucast (drop_bit 31 address)"]
    unfolding mm_index_of_def by blast
  have lt: "address < 2 ^ 63" using Suc.prems(3) unat_pow2 [of 63] by (simp add: word_less_nat_alt)
  have m: "blocks_mapped (th_vram th) address 4" using Suc.prems(4) [of 0] by simp
  obtain asic3 where r: "th_read_reg d REG_MMIO (asic2, ?th) = Some (of_le32 (blocks_peek (th_vram th) address 4), (asic3, ?th))"
    and b3: "asic_blocks asic3 = asic_blocks asic2"
    using mm_read_data [OF mm_window_db [OF b2 Suc.prems(1)] lt m] by blast
  have w3: "mm_window asic3 (i, h, d)" using mm_window_db [OF _ Suc.prems(1), of asic3] b2 b3 by simp
  have u4: "unat (address + 4) = unat address + 4"
    using unat_add_of_nat_u64 [of address 4] Suc.prems(3) by simp
  have step: "address + 4 + of_nat (4 * k) = address + of_nat (4 * Suc k)" for k by simp
  have m': "blocks_mapped (th_vram ?th) (address + 4 + of_nat (4 * k)) 4" if "k < n" for k
    unfolding step using Suc.prems(4) [of "Suc k"] that by simp
  have "unat (address + 4) + 4 * n < 2 ^ 63" using Suc.prems(3) u4 by simp
  from Suc.IH [OF w3 dst(2) this m']
  obtain asic4 th4 where rest: "mm_words harness_funcs (i, h, d) False (address + 4) rest (asic3, ?th) =
      Some (concat (map (\<lambda>k. blocks_peek (th_vram th) (address + of_nat (4 * Suc k)) 4) [0..<n]), (asic4, th4))"
    "th_vram th4 = th_vram th"
    unfolding step by auto
  have le: "le32 (of_le32 (blocks_peek (th_vram th) address 4)) = blocks_peek (th_vram th) address 4"
    using length_blocks_peek [OF m] by (rule le32_of_le32)
  have "[0..<Suc n] = 0 # map Suc [0..<n]" by (simp add: upt_conv_Cons map_Suc_upt del: upt_Suc)
  then have c: "concat (map (\<lambda>k. blocks_peek (th_vram th) (address + of_nat (4 * k)) 4) [0..<Suc n]) =
      blocks_peek (th_vram th) address 4 @ concat (map (\<lambda>k. blocks_peek (th_vram th) (address + of_nat (4 * Suc k)) 4) [0..<n])"
    by (simp add: comp_def)
  show ?case
    unfolding c dst using w1 w2 r rest le by (simp add: harness_funcs_def)
qed simp

lemma umr_find_reg_keeps: "umr_find_reg asic n = Some (v, asic') \<Longrightarrow> asic_blocks asic' = asic_blocks asic"
  using umr_find_reg_same_db [of asic n v asic' asic] by auto

lemma mm_registers_keeps: "mm_registers asic = Some (regs, asic') \<Longrightarrow> asic_blocks asic' = asic_blocks asic"
  by (auto simp: mm_registers_def find3_def bind_eq_Some_conv Let_def split: if_splits prod.splits
      dest!: umr_find_reg_keeps)

text \<open>C24: Reading video memory through the index and data registers gives, word by word, what the
  linear callback gives at the same addresses, and leaves the memory as it was; the access
  always succeeds.\<close>

theorem via_mmio_reads_vram:
  assumes "mm_registers asic = Some (regs, asic')" and "mm_window asic regs"
    and "length dst = 4 * n" and "unat address + 4 * n < 2 ^ 63"
    and "\<forall>k < n. blocks_mapped (th_vram th) (address + of_nat (4 * k)) 4"
  shows "\<exists>s'. umr_access_vram_via_mmio harness_funcs address dst False (asic, th) =
           Some ((0, concat (map (\<lambda>k. blocks_peek (th_vram th) (address + of_nat (4 * k)) 4) [0..<n])), s') \<and>
         th_vram (snd s') = th_vram th"
proof -
  obtain i h d where regs: "regs = (i, h, d)" by (cases regs)
  have "mm_window asic' (i, h, d)" using mm_window_db [OF mm_registers_keeps [OF assms(1)] assms(2)] regs by simp
  moreover have "blocks_mapped (th_vram th) (address + of_nat (4 * k)) 4" if "k < n" for k
    using assms(5) that by blast
  ultimately obtain s' where "mm_words harness_funcs (i, h, d) False address dst (asic', th) =
      Some (concat (map (\<lambda>k. blocks_peek (th_vram th) (address + of_nat (4 * k)) 4) [0..<n]), s')"
    "th_vram (snd s') = th_vram th"
    using mm_words_read [OF _ assms(3,4), of asic' i h d th] by fastforce
  then show ?thesis using assms(1) by (simp add: umr_access_vram_via_mmio_def regs)
qed

definition demo_vram_dev :: umr_asic where
  "demo_vram_dev = demo_dev\<lparr>asic_blocks :=
     [demo_block ''bif510'' [demo_reg ''mmMM_DATA'' REG_MMIO 1, demo_reg ''mmMM_INDEX'' REG_MMIO 0,
        demo_reg ''mmMM_INDEX_HI'' REG_MMIO 6],
      (demo_block ''gfx80'' [])\<lparr>ip_discoverable := \<lparr>disc_die = 0, disc_maj = 8, disc_min = 0, disc_rev = 0,
        disc_instance = 0, disc_logical_inst = 0\<rparr>\<rparr>]\<rparr>"

theorem via_mmio_reads_vram_witness:
  "\<exists>s'. umr_access_vram_via_mmio harness_funcs 4 (replicate 8 0) False (demo_vram_dev, demo_harness) =
     Some ((0, replicate 8 0xAA), s')"
proof -
  have r: "map_option fst (mm_registers demo_vram_dev) = Some (0, 24, 4)" by code_simp
  then obtain asic' where m: "mm_registers demo_vram_dev = Some ((0, 24, 4), asic')" by auto
  have w: "mm_window demo_vram_dev (0, 24, 4)" by code_simp
  have b: "\<forall>k < 2. blocks_mapped (th_vram demo_harness) (4 + of_nat (4 * k)) 4"
    by (simp add: less_2_cases_iff demo_harness_eval blocks_mapped_def block_fits_def ram_covers_def)
  have p: "concat (map (\<lambda>k. blocks_peek (th_vram demo_harness) (4 + of_nat (4 * k)) 4) [0..<2]) = replicate 8 0xAA"
    by code_simp
  show ?thesis using via_mmio_reads_vram [OF m w _ _ b, of "replicate 8 0"] p by auto
qed

subsection \<open>A page at a time\<close>

lemma and_not_mask_0: "x AND NOT (mask k) = 0 \<longleftrightarrow> unat (x :: u64) < 2 ^ k"
proof -
  have "x AND NOT (mask k) = 0 \<longleftrightarrow> drop_bit k x = 0"
  proof
    assume h: "x AND NOT (mask k) = 0"
    show "drop_bit k x = 0"
    proof (rule bit_word_eqI)
      fix n assume "n < LENGTH(64)"
      show "bit (drop_bit k x) n = bit (0 :: u64) n"
        using arg_cong [OF h, of "\<lambda>w. bit w (k + n)"] bit_imp_le_length [of x "k + n"]
        by (auto simp: bit_drop_bit_eq bit_and_iff bit_not_iff bit_mask_iff)
    qed
  next
    assume h: "drop_bit k x = 0"
    show "x AND NOT (mask k) = 0"
    proof (rule bit_word_eqI)
      fix n assume "n < LENGTH(64)"
      show "bit (x AND NOT (mask k)) n = bit (0 :: u64) n"
        using arg_cong [OF h, of "\<lambda>w. bit w (n - k)"] \<open>n < LENGTH(64)\<close>
        by (auto simp: bit_drop_bit_eq bit_and_iff bit_not_iff bit_mask_iff not_less)
    qed
  qed
  also have "\<dots> \<longleftrightarrow> unat x div 2 ^ k = 0" by (metis drop_bit_eq_div unat_drop_bit_eq unsigned_0 unsigned_word_eqI)
  finally show ?thesis by (simp add: div_eq_0_iff)
qed

lemma unat_and_mask: "unat (x AND mask k) = unat (x :: u64) mod 2 ^ k"
  by (simp only: take_bit_eq_mask [symmetric] unsigned_take_bit_eq) (simp add: take_bit_eq_mod)

lemma and3_dvd: "x AND 3 = 0 \<longleftrightarrow> 4 dvd unat (x :: u64)" "y AND 3 = 0 \<longleftrightarrow> 4 dvd unat (y :: u32)"
proof -
  have m: "(3 :: u64) = mask 2" "(3 :: u32) = mask 2" by (simp_all add: mask_eq_exp_minus_1)
  have "y AND mask 2 = 0 \<longleftrightarrow> unat (y AND mask 2) = 0" by (simp add: unat_eq_0)
  also have "unat (y AND mask 2) = unat y mod 4"
    by (simp only: take_bit_eq_mask [symmetric] unsigned_take_bit_eq) (simp add: take_bit_eq_mod)
  finally show "y AND 3 = 0 \<longleftrightarrow> 4 dvd unat y" unfolding m by (simp add: dvd_eq_mod_eq_0)
  have "x AND mask 2 = 0 \<longleftrightarrow> unat (x AND mask 2) = 0" by (simp add: unat_eq_0)
  then show "x AND 3 = 0 \<longleftrightarrow> 4 dvd unat x" unfolding m by (simp add: unat_and_mask dvd_eq_mod_eq_0)
qed

lemma unat_ucast_u32: "unat (ucast (k :: u32) :: u64) = unat k"
  using unat_lt_u32 [of k] by (simp add: unsigned_ucast_eq take_bit_nat_eq_self)

lemma aligned_add: "(a :: u64) AND 3 = 0 \<Longrightarrow> (k :: u32) AND 3 = 0 \<Longrightarrow> (a + ucast k) AND 3 = 0"
  by (simp add: and3_dvd unat_word_ariths unat_ucast_u32 dvd_mod)

lemma aligned_diff: "n AND 3 = 0 \<Longrightarrow> (k :: u32) AND 3 = 0 \<Longrightarrow> unat k \<le> unat n \<Longrightarrow> (n - k) AND 3 = 0"
  by (simp add: and3_dvd unat_sub word_le_nat_alt)

lemma chunk_size_bounds:
  assumes "k \<le> 62"
  shows "unat (chunk_size (mask k) start n) \<le> unat n"
    and "n \<noteq> 0 \<Longrightarrow> chunk_size (mask k) start n \<noteq> 0"
    and "chunk_size (mask k) start n = n \<and> unat start mod 2 ^ k + unat n < 2 ^ k \<or>
         unat start mod 2 ^ k + unat (chunk_size (mask k) start n) = 2 ^ k"
proof -
  let ?b = "start AND mask k" and ?c = "chunk_size (mask k) start n"
  have k64: "(2 :: nat) ^ k \<le> 2 ^ 62" using assms by (rule power_increasing) simp
  have n32: "unat n < 2 ^ 32" by (rule unat_lt_u32)
  have b: "unat ?b = unat start mod 2 ^ k" "unat ?b < 2 ^ k" by (simp_all add: unat_and_mask)
  have un: "unat (ucast n :: u64) = unat n" using n32 by (simp add: unsigned_ucast_eq take_bit_nat_eq_self)
  have sum: "unat (?b + ucast n) = unat ?b + unat n"
    using b(2) k64 n32 un by (subst unat_add_no_wrap) simp_all
  have one: "1 + mask k = (2 ^ k :: u64)" by (simp add: mask_eq_exp_minus_1)
  have "unat (2 ^ k - ?b :: u64) = 2 ^ k - unat ?b"
    using b(2) unat_pow2 [of k] assms by (subst unat_sub) (simp_all add: word_le_nat_alt)
  then have c: "unat ?c = 2 ^ k - unat ?b" if "2 ^ k \<le> unat ?b + unat n"
    using that n32 and_not_mask_0 [of "?b + ucast n" k] sum one
    by (simp add: chunk_size_def unsigned_ucast_eq take_bit_nat_eq_self)
  have nc: "?c = n" if "\<not> 2 ^ k \<le> unat ?b + unat n"
    using that and_not_mask_0 [of "?b + ucast n" k] sum by (simp add: chunk_size_def)
  show "unat ?c \<le> unat n" using c nc by (cases "2 ^ k \<le> unat ?b + unat n") auto
  show "?c \<noteq> 0" if "n \<noteq> 0"
  proof (cases "2 ^ k \<le> unat ?b + unat n")
    case True
    then have "unat ?c \<noteq> 0" using c b(2) by simp
    then show ?thesis by auto
  qed (use nc that in simp)
  show "?c = n \<and> unat start mod 2 ^ k + unat n < 2 ^ k \<or> unat start mod 2 ^ k + unat ?c = 2 ^ k"
    using c nc b by (cases "2 ^ k \<le> unat ?b + unat n") auto
qed

text \<open>An operation that returns on every state of an invariant and keeps it.\<close>

definition returns_on :: "(umr_asic \<times> 'w \<Rightarrow> bool) \<Rightarrow> ('w, 'a) dev_op \<Rightarrow> bool" where
  "returns_on I f \<longleftrightarrow> (\<forall>s. I s \<longrightarrow> (\<exists>r s'. f s = Some (r, s') \<and> I s'))"

lemma returns_onE:
  assumes "returns_on I f" and "I s"
  obtains r s' where "f s = Some (r, s')" "I s'"
  using assms unfolding returns_on_def by blast

lemma returns_on_bind:
  assumes "returns_on I f" and "\<And>x. returns_on I (g x)"
  shows "returns_on I (\<lambda>s. f s \<bind> (\<lambda>(x, s'). g x s'))"
  unfolding returns_on_def
proof (intro allI impI)
  fix s assume "I s"
  then obtain x s1 where f: "f s = Some (x, s1)" and "I s1" by (rule returns_onE [OF assms(1)])
  then obtain y s2 where "g x s1 = Some (y, s2)" "I s2" using returns_onE [OF assms(2)] by metis
  then show "\<exists>r s'. f s \<bind> (\<lambda>(x, s'). g x s') = Some (r, s') \<and> I s'" using f by simp
qed

lemma returns_on_bind2:
  assumes "returns_on I f" and "\<And>x y. returns_on I (g x y)"
  shows "returns_on I (\<lambda>s. f s \<bind> (\<lambda>((x, y), s'). g x y s'))"
  using returns_on_bind [OF assms(1), of "\<lambda>(x, y). g x y"] assms(2) by (simp add: case_prod_beta')

lemma returns_on_return: "returns_on I (\<lambda>s. Some (x, s))"
  by (simp add: returns_on_def)

lemma returns_on_if: "returns_on I f \<Longrightarrow> returns_on I g \<Longrightarrow> returns_on I (\<lambda>s. if b then f s else g s)"
  by (cases b) simp_all

lemmas returns_on_intros = returns_on_bind returns_on_bind2 returns_on_return returns_on_if

text \<open>
  What the loop needs of the handling of a page: it reports how far it came, at least one
  byte and not beyond the range.
\<close>

locale page_handler =
  fixes page :: "'c \<Rightarrow> u64 \<Rightarrow> u32 \<Rightarrow> u64 \<Rightarrow> u8 list \<Rightarrow> ('w, 'c page_result) dev_op"
  assumes progress: "page c a n dst bytes s = Some (Page_done k c' bytes', s') \<Longrightarrow> n \<noteq> 0 \<Longrightarrow> k \<noteq> 0"
    and within: "page c a n dst bytes s = Some (Page_done k c' bytes', s') \<Longrightarrow> unat k \<le> unat n"
begin

lemma unat_rest: "page c a n dst bytes s = Some (Page_done k c' bytes', s') \<Longrightarrow> unat (n - k) = unat n - unat k"
  using within [of c a n dst bytes s k c' bytes' s'] by (simp add: unat_sub word_le_nat_alt)

text \<open>The loop ends when the handling of every page does.\<close>

lemma loop_returns:
  assumes "\<And>c a n dst bytes. returns_on I (page c a n dst bytes)" and "I s"
  shows "page_loop page c a n dst bytes s \<noteq> None"
  using assms(2)
proof (induction "unat n" arbitrary: c a n dst bytes s rule: less_induct)
  case less
  obtain r s' where p: "page c a n dst bytes s = Some (r, s')" and I: "I s'"
    using assms(1) less.prems by (rule returns_onE)
  show ?case
  proof (cases r)
    case (Page_error c' bytes')
    then show ?thesis using p by (simp add: page_loop.simps [of page c a n dst bytes s])
  next
    case (Page_done k c' bytes')
    show ?thesis
    proof (cases "n = k")
      case True
      then show ?thesis using p Page_done by (subst page_loop.simps) simp
    next
      case False
      note pd = p [unfolded Page_done]
      have "unat k \<le> unat n" "k \<noteq> 0 \<or> n = 0" using within [OF pd] progress [OF pd] by auto
      then have "unat (n - k) < unat n" using unat_rest [OF pd] False unat_gt_0 [of k] by fastforce
      then have "page_loop page c' (a + ucast k) (n - k) (if dst = 0 then 0 else dst + ucast k) (drop (unat k) bytes') s' \<noteq> None"
        by (rule less.hyps) (rule I)
      then show ?thesis using p Page_done False by (auto simp: page_loop.simps [of page c a n dst bytes s])
    qed
  qed
qed

end

text \<open>
  Splitting a range along a translation: for each page its virtual address, the address it
  translates to and the number of bytes.
\<close>

function range_pages :: "(u64 \<Rightarrow> u64 \<times> u64) \<Rightarrow> u64 \<Rightarrow> u32 \<Rightarrow> (u64 \<times> u64 \<times> u32) list" where
  "range_pages tr a n =
     (let (st, m) = tr a; k = chunk_size m st n in
      (a, st, k) # (if k \<noteq> 0 \<and> k < n then range_pages tr (a + ucast k) (n - k) else []))"
  by pat_completeness auto
termination
proof (relation "measure (\<lambda>(tr, a, n). unat n)", goal_cases)
  case (2 tr a n x st m k)
  then have "unat (n - k) = unat n - unat k" "0 < unat k" "unat k < unat n"
    by (auto simp: unat_sub word_less_nat_alt word_le_nat_alt unat_gt_0 less_imp_le)
  then show ?case by simp
qed simp

declare range_pages.simps [simp del]

text \<open>
  Reading: while a precondition on the range and the buffer holds and the state does not
  change, every page delivers what the memory has at the translated address.
\<close>

locale page_reader = page_handler page
  for page :: "'c \<Rightarrow> u64 \<Rightarrow> u32 \<Rightarrow> u64 \<Rightarrow> u8 list \<Rightarrow> ('w, 'c page_result) dev_op" +
  fixes tr :: "u64 \<Rightarrow> u64 \<times> u64"
    and rd :: "u64 \<Rightarrow> u64 \<Rightarrow> nat \<Rightarrow> u8 list"
    and good :: "u64 \<times> u64 \<times> u32 \<Rightarrow> bool"
    and okc :: "'c \<Rightarrow> bool"
    and s0 :: "umr_asic \<times> 'w"
  assumes page_reads: "okc c \<Longrightarrow> dst \<noteq> 0 \<Longrightarrow> a AND 3 = 0 \<Longrightarrow> n AND 3 = 0 \<Longrightarrow> dst AND 3 = 0 \<Longrightarrow> length bytes = unat n \<Longrightarrow>
      tr a = (st, m) \<Longrightarrow> k = chunk_size m st n \<Longrightarrow> good (a, st, k) \<Longrightarrow>
      \<exists>c'. okc c' \<and> page c a n dst bytes s0 = Some (Page_done k c' (rd a st (unat k) @ drop (unat k) bytes), s0)"
    and good_aligned: "good (a, st, k) \<Longrightarrow> k AND 3 = 0"
    and rd_length: "good (a, st, k) \<Longrightarrow> length (rd a st (unat k)) = unat k"
begin

lemma loop_reads:
  assumes "a AND 3 = 0" "n AND 3 = 0" "dst AND 3 = 0" "dst \<noteq> 0" "unat dst + unat n < 2 ^ 64"
    "length bytes = unat n" "\<forall>p \<in> set (range_pages tr a n). good p" "okc c"
  shows "\<exists>c'. okc c' \<and> page_loop page c a n dst bytes s0 =
    Some ((0, concat (map (\<lambda>(a, st, k). rd a st (unat k)) (range_pages tr a n)), c'), s0)"
  using assms
proof (induction "unat n" arbitrary: c a n dst bytes rule: less_induct)
  case less
  obtain st m where tr: "tr a = (st, m)" by (cases "tr a")
  define k where "k = chunk_size m st n"
  let ?rest = "if k \<noteq> 0 \<and> k < n then range_pages tr (a + ucast k) (n - k) else []"
  have pages: "range_pages tr a n = (a, st, k) # ?rest"
    by (subst range_pages.simps) (simp only: tr k_def Let_def prod.case)
  then have g: "good (a, st, k)" using less.prems(7) by simp
  obtain c' where p: "page c a n dst bytes s0 = Some (Page_done k c' (rd a st (unat k) @ drop (unat k) bytes), s0)"
    and c': "okc c'"
    using page_reads [OF less.prems(8,4,1,2,3,6) tr k_def g] by blast
  have le: "unat k \<le> unat n" and k0: "n \<noteq> 0 \<Longrightarrow> k \<noteq> 0" using within [OF p] progress [OF p] by auto
  show ?case
  proof (cases "n = k")
    case True
    then show ?thesis using p c' less.prems(6) pages by (subst page_loop.simps) simp
  next
    case False
    then have "unat k \<noteq> unat n" using word_unat_eq_iff [of k n] by auto
    then have more: "k \<noteq> 0 \<and> k < n" using le k0 by (cases "n = 0") (auto simp: word_less_nat_alt)
    then have lt: "unat (n - k) < unat n" using unat_rest [OF p] le unat_gt_0 [of k] by fastforce
    have d: "unat (dst + ucast k) = unat dst + unat k"
      using less.prems(5) le unat_ucast_u32 [of k] by (subst unat_add_no_wrap) simp_all
    then have d0: "dst + ucast k \<noteq> 0" using less.prems(4) by (auto simp flip: unat_eq_0)
    have good: "\<forall>p \<in> set (range_pages tr (a + ucast k) (n - k)). good p"
      using less.prems(7) pages more by simp
    have b: "length (drop (unat k) bytes) = unat (n - k)" using less.prems(6) unat_rest [OF p] by simp
    obtain c2 where "okc c2" "page_loop page c' (a + ucast k) (n - k) (dst + ucast k) (drop (unat k) bytes) s0 =
        Some ((0, concat (map (\<lambda>(a, st, k). rd a st (unat k)) (range_pages tr (a + ucast k) (n - k))), c2), s0)"
      using less.hyps [OF lt aligned_add [OF less.prems(1) good_aligned [OF g]]
          aligned_diff [OF less.prems(2) good_aligned [OF g] le] aligned_add [OF less.prems(3) good_aligned [OF g]]
          d0 _ b good c'] less.prems(5) d unat_rest [OF p] le by fastforce
    then show ?thesis
      using p pages more False less.prems(4) rd_length [OF g] by (subst page_loop.simps) simp
  qed
qed

end

subsection \<open>The nodes of a hive\<close>

lemma xgmi_select_from:
  assumes "seg \<noteq> 0"
  shows "xgmi_select nodes seg n addr =
     (if unat addr div unat seg < length nodes
      then Some (Some (n + unat addr div unat seg, addr mod seg)) else Some None)"
proof (induction nodes arbitrary: n addr)
  case (Cons nd nds)
  have s: "0 < unat seg" using assms by (simp add: unat_gt_0)
  show ?case
  proof (cases "addr < seg")
    case True
    then have "unat addr div unat seg = 0" "addr mod seg = addr"
      by (simp_all add: word_less_nat_alt word_arith_nat_mod)
    then show ?thesis using True assms by simp
  next
    case False
    then have le: "unat seg \<le> unat addr" by (simp add: word_less_nat_alt)
    then have u: "unat (addr - seg) = unat addr - unat seg" by (simp add: unat_sub word_le_nat_alt)
    have d: "unat addr div unat seg = Suc (unat (addr - seg) div unat seg)" using le s u by (simp add: le_div_geq)
    have m: "(addr - seg) mod seg = addr mod seg"
      using le u by (simp add: word_arith_nat_mod le_mod_geq)
    show ?thesis using False assms Cons.IH [of "Suc n" "addr - seg"] d m by simp
  qed
qed simp

text \<open>C36: In a hive whose segment size is known, an address belongs to the node that its quotient by
  the segment size numbers, at the remainder; an address beyond the last node is left to
  the device itself.\<close>

theorem xgmi_select_segment:
  assumes "seg \<noteq> 0"
  shows "xgmi_select nodes seg 0 addr =
     (if unat addr div unat seg < length nodes then Some (Some (unat addr div unat seg, addr mod seg)) else Some None)"
  using xgmi_select_from [OF assms, of nodes 0] by simp

theorem xgmi_select_segment_witness:
  "xgmi_select [\<lparr>node_vram_size = 0x1000, node_table = []\<rparr>, \<lparr>node_vram_size = 0x1000, node_table = []\<rparr>] 0x1000 0 0x1004 =
   Some (Some (1, 4))"
  using xgmi_select_segment [of "0x1000" "[\<lparr>node_vram_size = 0x1000, node_table = []\<rparr>, \<lparr>node_vram_size = 0x1000, node_table = []\<rparr>]" "0x1004"]
  by simp

text \<open>The check for a block that spans nodes goes through the chosen node's own table of nodes.
  A node that was discovered as a member of the hive has no such table, so every access
  to it dereferences a null pointer.\<close>

theorem xgmi_remote_node_faults:
  assumes "opt_use_xgmi (asic_options (fst s))" and "address AND 3 = 0" and "length data mod 4 = 0" and "dst AND 3 = 0"
    and "xgmi_segment_size (env_funcs E) s = Some (seg, s')" and "seg \<noteq> 0"
    and "unat address div unat seg < length (env_nodes E)"
    and "node_table (env_nodes E ! (unat address div unat seg)) = []"
  shows "access_linear E address dst data write_en s = None"
  using assms xgmi_select_from [of seg "env_nodes E" 0 address] by (simp add: access_linear_def)

definition demo_hive_dev :: umr_asic where
  "demo_hive_dev = demo_dev\<lparr>asic_options := zero_options\<lparr>opt_use_xgmi := True, opt_vm_partition := - 1\<rparr>,
     asic_blocks := [demo_block ''gfx90'' [demo_reg ''mmMC_VM_XGMI_LFB_SIZE'' REG_MMIO 9]]\<rparr>"

definition demo_env :: "umr_test_harness vm_env" where
  "demo_env = \<lparr>env_funcs = harness_funcs,
     env_nodes = [\<lparr>node_vram_size = 0x1000, node_table = [0x1000, 0x1000]\<rparr>, \<lparr>node_vram_size = 0x1000, node_table = []\<rparr>],
     env_node_vram = \<lambda>n. th_access_linear_vram, env_process = \<lambda>a b w s. Some (b, s)\<rparr>"

theorem xgmi_remote_node_faults_witness:
  "access_linear demo_env 0x7000004 8 [0, 0, 0, 0] False (demo_hive_dev, demo_harness) = None"
proof -
  have "map_option fst (xgmi_segment_size (env_funcs demo_env) (demo_hive_dev, demo_harness)) = Some 0x7000000"
    by code_simp
  then obtain s' where "xgmi_segment_size (env_funcs demo_env) (demo_hive_dev, demo_harness) = Some (0x7000000, s')"
    by auto
  from xgmi_remote_node_faults [OF _ _ _ _ this] show ?thesis
    by (simp add: demo_hive_dev_def demo_env_def zero_options_def)
qed

end
