(* ===== verification/Vm_Vi.thy ===== *)
theory Vm_Vi
  imports Vm_Access
begin

text \<open>
  The page walk of the parts up to GFX8 (\<^verbatim>\<open>umr_access_vram_vi\<close> in \<^verbatim>\<open>src/lib/read_vram.c\<close>):
  one level of directory or none.
\<close>

subsection \<open>The registers of a context\<close>

record vi_context =
  vi_start :: u64
  vi_depth :: int
  vi_block_size :: u64
  vi_base :: u64
  vi_fb_base :: u64
  vi_fb_offset :: u64

definition vi_name :: "string \<Rightarrow> string \<Rightarrow> string" where
  "vi_name i what = ''mmVM_CONTEXT'' @ i @ what"

text \<open>
  The start address and the control register are those of context 0 or 1, the base address
  is that of the context itself.
\<close>

definition vi_read_context :: "'w umr_funcs \<Rightarrow> u32 \<Rightarrow> ('w, vi_context) dev_op" where
  "vi_read_context F vmid s = do {
     let i = (if vmid \<noteq> 0 then ''1'' else ''0'');
     (start, s) \<leftarrow> umr_read_reg_by_name F (vi_name i ''_PAGE_TABLE_START_ADDR'') s;
     (cntl, s) \<leftarrow> umr_read_reg_by_name F (vi_name i ''_CNTL'') s;
     (depth, asic) \<leftarrow> umr_bitslice_reg_by_name (fst s) (vi_name i ''_CNTL'') ''PAGE_TABLE_DEPTH'' (ucast (lo32 cntl));
     (bs, asic) \<leftarrow> umr_bitslice_reg_by_name asic (vi_name i ''_CNTL'') ''PAGE_TABLE_BLOCK_SIZE'' (ucast (lo32 cntl));
     (base, s) \<leftarrow> umr_read_reg_by_name F (vi_name (dec_digits (unat vmid)) ''_PAGE_TABLE_BASE_ADDR'') (asic, snd s);
     (loc, s) \<leftarrow> umr_read_reg_by_name F ''mmMC_VM_FB_LOCATION'' s;
     (off, s) \<leftarrow> umr_read_reg_by_name F ''mmMC_VM_FB_OFFSET'' s;
     Some (\<lparr>vi_start = push_bit 12 (ucast (lo32 start)), vi_depth = sint (lo32 depth), vi_block_size = bs,
            vi_base = push_bit 12 (ucast (lo32 base)), vi_fb_base = push_bit 24 (loc AND 0xFFFF),
            vi_fb_offset = push_bit 22 (off AND 0xFFFF)\<rparr>, s) }"

subsection \<open>Translation of an address\<close>

text \<open>The directory and table index of an address; undefined for block sizes above 19.\<close>

definition vi_indices :: "u64 \<Rightarrow> u64 \<Rightarrow> (u64 \<times> u64) option" where
  "vi_indices bs address = do {
     pm \<leftarrow> shl64 1 (uint (40 - 12 - 9 - bs));
     tm \<leftarrow> shl64 1 (uint (9 + bs));
     p \<leftarrow> shr64 address (uint (12 + 9 + bs));
     Some (p AND (pm - 1), drop_bit 12 address AND (tm - 1)) }"

text \<open>Reading a table entry into an aligned local variable.\<close>

definition read_entry :: "'w vm_env \<Rightarrow> u64 \<Rightarrow> ('w, int \<times> u64) dev_op" where
  "read_entry E address s = do {
     ((r, bs), s) \<leftarrow> access_linear E address 8 (replicate 8 0) False s;
     Some ((r, of_le64 bs), s) }"

abbreviation (input) VI_ADDR :: u64 where "VI_ADDR \<equiv> 0xFFFFFFF000"

datatype vi_walk = Vi_fail | Vi_skip u64 | Vi_page bool u64

definition vi_pte_page :: "'w umr_funcs \<Rightarrow> vi_context \<Rightarrow> bool \<Rightarrow> u64 \<Rightarrow> u64 \<Rightarrow> ('w, vi_walk) dev_op" where
  "vi_pte_page F C use_dst address pte s =
     (if use_dst \<and> pte AND 1 = 0 then Some (Vi_fail, s)
      else do {
        (pa, s) \<leftarrow> gpu_bus_to_cpu_address F (pte AND VI_ADDR) s;
        let sys = (shr_and pte 1 1 \<noteq> 0);
        let start = pa + (address AND 0xFFF);
        Some (Vi_page sys (if vi_depth C = 1 \<and> \<not> sys then start - vi_fb_offset C else start), s) })"

definition vi_walk :: "'w vm_env \<Rightarrow> vi_context \<Rightarrow> bool \<Rightarrow> u64 \<Rightarrow> ('w, vi_walk) dev_op" where
  "vi_walk E C use_dst address s =
     (if vi_depth C = 1 then do {
        (pde_idx, pte_idx) \<leftarrow> vi_indices (vi_block_size C) address;
        ((r, pde), s) \<leftarrow> read_entry E (vi_base C + pde_idx * 8 - vi_fb_base C) s;
        if r \<noteq> 0 then Some (Vi_fail, s)
        else if pde AND 1 = 0 then Some (if use_dst then Vi_fail else Vi_skip (address AND 0xFFF), s)
        else do {
          ((r, pte), s) \<leftarrow> read_entry E ((pde AND VI_ADDR) + pte_idx * 8 - vi_fb_base C) s;
          if r < 0 then Some (Vi_fail, s) else vi_pte_page (env_funcs E) C use_dst address pte s } }
      else do {
        ((r, pte), s) \<leftarrow> read_entry E (vi_base C + drop_bit 12 address * 8 - vi_fb_base C) s;
        if r < 0 then Some (Vi_fail, s) else vi_pte_page (env_funcs E) C use_dst address pte s })"

subsection \<open>The access\<close>

text \<open>The data of a page, in system or video memory; \<open>k\<close> bytes at the front of the buffer.\<close>

definition page_data :: "'w vm_env \<Rightarrow> bool \<Rightarrow> u64 \<Rightarrow> u32 \<Rightarrow> u64 \<Rightarrow> u8 list \<Rightarrow> bool \<Rightarrow> 'c \<Rightarrow> ('w, 'c page_result) dev_op" where
  "page_data E sys start k dst bytes write_en c s = do {
     ((r, out), s) \<leftarrow> (if sys then access_sram (env_funcs E) start (take (unat k) bytes) write_en s
                      else access_linear E start dst (take (unat k) bytes) write_en s);
     let bytes' = out @ drop (unat k) bytes;
     Some (if r < 0 then Page_error c bytes' else Page_done k c bytes', s) }"

definition vi_page :: "'w vm_env \<Rightarrow> vi_context \<Rightarrow> bool \<Rightarrow> unit \<Rightarrow> u64 \<Rightarrow> u32 \<Rightarrow> u64 \<Rightarrow> u8 list \<Rightarrow> ('w, unit page_result) dev_op" where
  "vi_page E C write_en c address n dst bytes s = do {
     (w, s) \<leftarrow> vi_walk E C (dst \<noteq> 0) address s;
     case w of
       Vi_fail \<Rightarrow> Some (Page_error c bytes, s)
     | Vi_skip start \<Rightarrow> Some (Page_done (chunk_size 0xFFF start n) c bytes, s)
     | Vi_page sys start \<Rightarrow>
         let k = chunk_size 0xFFF start n in
         if dst = 0 then Some (Page_done k c bytes, s)
         else page_data E sys start k dst bytes write_en c s }"

definition umr_access_vram_vi ::
    "'w vm_env \<Rightarrow> u32 \<Rightarrow> u64 \<Rightarrow> u32 \<Rightarrow> u64 \<Rightarrow> u8 list \<Rightarrow> bool \<Rightarrow> ('w, int \<times> u8 list) dev_op" where
  "umr_access_vram_vi E vmid address n dst bytes write_en s = do {
     (C, s) \<leftarrow> vi_read_context (env_funcs E) vmid s;
     ((r, bytes, _), s) \<leftarrow> page_loop (vi_page E C write_en) () (address - vi_start C) n dst bytes s;
     Some ((r, bytes), s) }"

subsection \<open>Every page makes progress\<close>

lemma mask12: "(0xFFF :: u64) = mask 12"
  by (simp add: mask_eq_exp_minus_1)

lemma page_data_done:
  "page_data E sys start k dst bytes w c s = Some (Page_done k' c' bytes', s') \<Longrightarrow> k' = k"
  by (auto simp: page_data_def Let_def bind_eq_Some_conv split: if_splits)

lemma vi_page_chunk:
  assumes "vi_page E C w c a n dst bytes s = Some (Page_done k c' bytes', s')"
  shows "\<exists>start. k = chunk_size (mask 12) start n"
proof -
  obtain v s1 where v: "vi_walk E C (dst \<noteq> 0) a s = Some (v, s1)"
    using assms by (auto simp: vi_page_def bind_eq_Some_conv)
  show ?thesis
    by (cases v; cases "dst = 0")
      (use assms v in \<open>auto simp: vi_page_def mask12 Let_def dest!: page_data_done\<close>)
qed

interpretation vi: page_handler "vi_page E C w" for E C w
  by unfold_locales (use chunk_size_bounds [of 12] in \<open>auto dest: vi_page_chunk\<close>)

subsection \<open>The walk refines a translation over the contents of memory\<close>

text \<open>
  The table entries of an address, and the memory and address that they give, as functions
  of the 64 bit words in video memory; \<open>None\<close> is an address without a valid mapping.
\<close>

definition vi_translate :: "vi_context \<Rightarrow> (u64 \<Rightarrow> u64) \<Rightarrow> u64 \<Rightarrow> (bool \<times> u64) option" where
  "vi_translate C mem a = do {
     pte \<leftarrow> (if vi_depth C = 1 then do {
              (p, t) \<leftarrow> vi_indices (vi_block_size C) a;
              let pde = mem (vi_base C + p * 8 - vi_fb_base C);
              if bit pde 0 then Some (mem ((pde AND VI_ADDR) + t * 8 - vi_fb_base C)) else None }
            else Some (mem (vi_base C + drop_bit 12 a * 8 - vi_fb_base C)));
     if bit pte 0
     then Some (bit pte 1, (pte AND VI_ADDR) + (a AND 0xFFF) - (if vi_depth C = 1 \<and> \<not> bit pte 1 then vi_fb_offset C else 0))
     else None }"

definition vi_entries :: "vi_context \<Rightarrow> (u64 \<Rightarrow> u64) \<Rightarrow> u64 \<Rightarrow> u64 list" where
  "vi_entries C mem a =
     (if vi_depth C = 1 then
        (case vi_indices (vi_block_size C) a of
           None \<Rightarrow> []
         | Some (p, t) \<Rightarrow>
             [vi_base C + p * 8 - vi_fb_base C,
              (mem (vi_base C + p * 8 - vi_fb_base C) AND VI_ADDR) + t * 8 - vi_fb_base C])
      else [vi_base C + drop_bit 12 a * 8 - vi_fb_base C])"

definition mem64 :: "ram_block list \<Rightarrow> u64 \<Rightarrow> u64" where
  "mem64 rbs a = of_le64 (blocks_peek rbs a 8)"

definition readable :: "ram_block list \<Rightarrow> u64 \<Rightarrow> bool" where
  "readable rbs a \<longleftrightarrow> a AND 3 = 0 \<and> blocks_mapped rbs a 8"

text \<open>A device with the callbacks of the test harness, outside a hive.\<close>

definition on_harness :: "umr_test_harness vm_env \<Rightarrow> umr_asic \<times> umr_test_harness \<Rightarrow> bool" where
  "on_harness E s \<longleftrightarrow> env_funcs E = harness_funcs \<and> \<not> opt_use_xgmi (asic_options (fst s))"

lemma access_linear_harness:
  assumes "on_harness E s" and "address AND 3 = 0" and "length data mod 4 = 0" and "dst AND 3 = 0"
    and "blocks_mapped (th_vram (snd s)) address (length data)"
  shows "access_linear E address dst data False s = Some ((0, blocks_peek (th_vram (snd s)) address (length data)), s)"
  using assms th_vram.mem_read [of s address data]
  by (simp add: access_linear_def on_harness_def harness_funcs_def)

lemma read_entry_harness:
  assumes "on_harness E s" and "readable (th_vram (snd s)) a"
  shows "read_entry E a s = Some ((0, mem64 (th_vram (snd s)) a), s)"
  using access_linear_harness [OF assms(1), of a "replicate 8 0" 8] assms(2)
  by (simp add: read_entry_def readable_def mem64_def)

lemma and_1_0: "x AND 1 = 0 \<longleftrightarrow> even (x :: u64)"
  by (simp add: and_one_eq even_iff_mod_2_eq_zero)

lemma shr_and_1: "shr_and x n 1 = 0 \<longleftrightarrow> \<not> bit x n"
  by (simp only: shr_and_def and_1_0 bit_iff_odd_drop_bit not_not)

lemma vi_walk_translate:
  assumes "on_harness E s" and "list_all (readable (th_vram (snd s))) (vi_entries C (mem64 (th_vram (snd s))) a)"
    and "vi_translate C (mem64 (th_vram (snd s))) a = Some (sys, st)"
  shows "vi_walk E C True a s = Some (Vi_page sys st, s)"
proof -
  have pte: "vi_pte_page (env_funcs E) C True a e s = Some (Vi_page (bit e 1)
      ((e AND VI_ADDR) + (a AND 0xFFF) - (if vi_depth C = 1 \<and> \<not> bit e 1 then vi_fb_offset C else 0)), s)"
    if "odd e" for e
    using that assms(1)
    by (simp add: vi_pte_page_def on_harness_def harness_funcs_def th_gpu_bus_to_cpu_address_def and_1_0 shr_and_1 Let_def)
  note re = read_entry_harness [OF assms(1)]
  show ?thesis
  proof (cases "vi_depth C = 1")
    case True
    then obtain p t where "vi_indices (vi_block_size C) a = Some (p, t)"
      using assms(3) by (auto simp: vi_translate_def bind_eq_Some_conv)
    then show ?thesis using True assms(2,3)
      by (auto simp: vi_walk_def vi_translate_def vi_entries_def re pte and_1_0 bit_0 bind_eq_Some_conv Let_def split: if_splits)
  next
    case False
    then show ?thesis using assms(2,3)
      by (auto simp: vi_walk_def vi_translate_def vi_entries_def re pte bit_0 bind_eq_Some_conv split: if_splits)
  qed
qed

definition vi_start_of :: "vi_context \<Rightarrow> umr_test_harness \<Rightarrow> u64 \<Rightarrow> u64 \<times> u64" where
  "vi_start_of C th a = (case vi_translate C (mem64 (th_vram th)) a of Some (sys, st) \<Rightarrow> (st, 0xFFF) | None \<Rightarrow> (0, 0xFFF))"

definition vi_bytes :: "vi_context \<Rightarrow> umr_test_harness \<Rightarrow> u64 \<Rightarrow> u64 \<Rightarrow> nat \<Rightarrow> u8 list" where
  "vi_bytes C th a st k =
     (case vi_translate C (mem64 (th_vram th)) a of
        Some (True, _) \<Rightarrow> blocks_peek (th_sysram th) st k
      | _ \<Rightarrow> blocks_peek (th_vram th) st k)"

text \<open>A page of the range: its entries can be read, it is mapped, and so is the memory behind it.\<close>

definition vi_good :: "vi_context \<Rightarrow> umr_test_harness \<Rightarrow> u64 \<times> u64 \<times> u32 \<Rightarrow> bool" where
  "vi_good C th = (\<lambda>(a, st, k).
     k AND 3 = 0 \<and> list_all (readable (th_vram th)) (vi_entries C (mem64 (th_vram th)) a) \<and>
     (case vi_translate C (mem64 (th_vram th)) a of
        None \<Rightarrow> False
      | Some (sys, st') \<Rightarrow> st = st' \<and>
          (if sys then blocks_mapped (th_sysram th) st (unat k)
           else st AND 3 = 0 \<and> blocks_mapped (th_vram th) st (unat k))))"

lemma aligned_length: "(k :: u32) AND 3 = 0 \<Longrightarrow> unat k mod 4 = 0"
  by (simp add: and3_dvd dvd_eq_mod_eq_0)

lemma page_data_harness:
  assumes "on_harness E s" and "k AND 3 = 0" and "dst AND 3 = 0" and "unat k \<le> length bytes"
    and "if sys then blocks_mapped (th_sysram (snd s)) st (unat k)
         else st AND 3 = 0 \<and> blocks_mapped (th_vram (snd s)) st (unat k)"
  shows "page_data E sys st k dst bytes False c s =
    Some (Page_done k c (blocks_peek (if sys then th_sysram (snd s) else th_vram (snd s)) st (unat k) @ drop (unat k) bytes), s)"
proof -
  have len: "length (take (unat k) bytes) = unat k" using assms(4) by simp
  show ?thesis
  proof (cases sys)
    case True
    then have m: "blocks_mapped (th_sysram (snd s)) st (length (take (unat k) bytes))"
      using assms(5) len by simp
    have f: "access_sram (env_funcs E) = th_access_sram" using assms(1) by (simp add: on_harness_def harness_funcs_def)
    show ?thesis using True th_sram.mem_read [OF m] len unfolding page_data_def f by (simp add: Let_def)
  next
    case False
    then have m: "blocks_mapped (th_vram (snd s)) st (length (take (unat k) bytes))" "st AND 3 = 0"
      using assms(5) len by simp_all
    have l: "length (take (unat k) bytes) mod 4 = 0" using len aligned_length [OF assms(2)] by simp
    show ?thesis
      using False access_linear_harness [OF assms(1) m(2) l assms(3) m(1)] len
      unfolding page_data_def by (simp add: Let_def)
  qed
qed

interpretation vi_th: page_reader "vi_page E C False" "vi_start_of C (snd s)" "vi_bytes C (snd s)"
  "\<lambda>p. on_harness E s \<and> vi_good C (snd s) p" "\<lambda>_. True" s for E C s
proof unfold_locales
  fix dst a st m :: u64 and n k :: u32 and bytes :: "u8 list" and c
  assume dst: "dst \<noteq> 0" "dst AND 3 = 0" and len: "length bytes = unat n"
    and tr: "vi_start_of C (snd s) a = (st, m)" and k: "k = chunk_size m st n"
    and good: "on_harness E s \<and> vi_good C (snd s) (a, st, k)"
  then obtain sys where t: "vi_translate C (mem64 (th_vram (snd s))) a = Some (sys, st)"
    and k3: "k AND 3 = 0" and e: "list_all (readable (th_vram (snd s))) (vi_entries C (mem64 (th_vram (snd s))) a)"
    and tgt: "if sys then blocks_mapped (th_sysram (snd s)) st (unat k)
         else st AND 3 = 0 \<and> blocks_mapped (th_vram (snd s)) st (unat k)"
    by (auto simp: vi_good_def split: option.splits if_splits)
  have m: "m = 0xFFF" using tr t by (simp add: vi_start_of_def)
  have "unat k \<le> length bytes" using chunk_size_bounds(1) [of 12 st n] len k m by (simp add: mask12)
  from page_data_harness [OF conjunct1 [OF good] k3 dst(2) this tgt]
  show "\<exists>c'. True \<and> vi_page E C False c a n dst bytes s =
      Some (Page_done k c' (vi_bytes C (snd s) a st (unat k) @ drop (unat k) bytes), s)"
    using vi_walk_translate [OF conjunct1 [OF good] e t] dst k m t
    by (cases sys) (auto simp: vi_page_def vi_bytes_def Let_def)
next
  fix a st k assume "on_harness E s \<and> vi_good C (snd s) (a, st, k)"
  then show "length (vi_bytes C (snd s) a st (unat k)) = unat k"
    by (auto simp: vi_good_def vi_bytes_def length_blocks_peek split: option.splits if_splits bool.splits)
qed (auto simp: vi_good_def)


lemma vi_indices_defined:
  assumes "bs \<le> 19"
  shows "vi_indices bs a \<noteq> None"
proof -
  have b: "unat bs \<le> 19" using assms by (simp add: word_le_nat_alt)
  have "unat (19 - bs) = 19 - unat bs" using b by (simp add: unat_sub word_le_nat_alt)
  moreover have "unat (9 + bs) = 9 + unat bs" "unat (21 + bs) = 21 + unat bs"
    using b by (subst unat_add_no_wrap; simp)+
  ultimately have "unat (19 - bs) < 64" "unat (9 + bs) < 64" "unat (21 + bs) < 64" using b by simp_all
  moreover have "uint x < 64" if "unat x < 64" for x :: u64
    using that unfolding uint_nat by linarith
  ultimately have "uint (19 - bs) < 64" "uint (9 + bs) < 64" "uint (21 + bs) < 64" by blast+
  then show ?thesis by (simp add: vi_indices_def shl64_def shr64_def)
qed

lemma unat_drop_bit: "unat (drop_bit k (x :: u64)) = unat x div 2 ^ k"
  using unat_drop_bit_eq [of k x] by (simp only: drop_bit_eq_div [of k "unat x"])

lemma radix_split:
  "(a :: nat) = a div 2 ^ (m + k) * 2 ^ (m + k) + (a div 2 ^ k) mod 2 ^ m * 2 ^ k + a mod 2 ^ k"
proof -
  have "a mod 2 ^ (m + k) = (a div 2 ^ k) mod 2 ^ m * 2 ^ k + a mod 2 ^ k"
    using mod_mult2_eq [of a "2 ^ k" "2 ^ m"] by (simp add: power_add mult.commute)
  then show ?thesis using div_mult_mod_eq [of a "2 ^ (m + k)"] by linarith
qed

text \<open>C31: The directory index, the table index and the page offset of a 40 bit address partition its
  bits: the address is recovered from them, so distinct pages use distinct table entries.\<close>

theorem vi_indices_partition:
  assumes "bs \<le> 19" and "unat a < 2 ^ 40"
  shows "\<exists>p t. vi_indices bs a = Some (p, t) \<and>
    unat a = unat p * 2 ^ (21 + unat bs) + unat t * 2 ^ 12 + unat (a AND 0xFFF)"
proof -
  have b: "unat bs \<le> 19" using assms by (simp add: word_le_nat_alt)
  have u: "unat (19 - bs) = 19 - unat bs" "unat (9 + bs) = 9 + unat bs" "unat (21 + bs) = 21 + unat bs"
    using b by (simp_all add: unat_sub word_le_nat_alt unat_add_no_wrap)
  have i: "uint (19 - bs) = int (19 - unat bs)" "uint (9 + bs) = int (9 + unat bs)" "uint (21 + bs) = int (21 + unat bs)"
    using u by (simp_all only: uint_nat)
  have one: "push_bit n 1 - 1 = (mask n :: u64)" for n by (simp add: mask_eq_exp_minus_1)
  let ?p = "drop_bit (21 + unat bs) a AND mask (19 - unat bs)" and ?t = "drop_bit 12 a AND mask (9 + unat bs)"
  have "vi_indices bs a = Some (?p, ?t)"
  proof -
    have e: "40 - 12 - 9 - bs = 19 - bs" "12 + 9 + bs = 21 + bs" by simp_all
    have sh: "shl64 1 (int n) = Some (push_bit n 1)" "shr64 a (int n) = Some (drop_bit n a)" if "n < 64" for n
      using that by (simp_all add: shl64_def shr64_def)
    have "19 - unat bs < 64" "9 + unat bs < 64" "21 + unat bs < 64" using b by simp_all
    then show ?thesis unfolding vi_indices_def e i by (simp only: sh bind.bind_lunit one)
  qed
  moreover have "unat a div 2 ^ (21 + unat bs) < 2 ^ (19 - unat bs)"
    using assms(2) b by (simp add: less_mult_imp_div_less flip: power_add)
  then have "unat ?p = unat a div 2 ^ (21 + unat bs)" "unat ?t = unat a div 2 ^ 12 mod 2 ^ (9 + unat bs)"
    "unat (a AND 0xFFF) = unat a mod 2 ^ 12"
    by (simp_all only: mask12 unat_and_mask unat_drop_bit mod_less)
  ultimately show ?thesis using radix_split [of "unat a" "9 + unat bs" 12] by (simp add: add.commute)
qed

theorem vi_indices_partition_witness:
  "\<exists>p t. vi_indices 9 0x1234567890 = Some (p, t) \<and>
    unat (0x1234567890 :: u64) = unat p * 2 ^ 30 + unat t * 2 ^ 12 + unat (0x1234567890 AND 0xFFF :: u64)"
  using vi_indices_partition [of 9 "0x1234567890"] by simp

text \<open>C34: The walk of a GFX8 part ends for every range, whatever the tables hold: while the callbacks
  return, and the block size is at most 19, where the shifts are defined, so does the
  access.\<close>

theorem vi_access_returns:
  assumes linear: "\<And>a d data w. returns_on I (access_linear E a d data w)"
    and bus: "\<And>a. returns_on I (gpu_bus_to_cpu_address (env_funcs E) a)"
    and sram: "\<And>a data w. returns_on I (access_sram (env_funcs E) a data w)"
    and ctx: "vi_read_context (env_funcs E) vmid s = Some (C, s1)" and "I s1"
    and bs: "vi_depth C = 1 \<Longrightarrow> vi_block_size C \<le> 19"
  shows "umr_access_vram_vi E vmid address n dst bytes w s \<noteq> None"
proof -
  have entry: "returns_on I (read_entry E a)" for a
    unfolding read_entry_def by (intro returns_on_intros linear)
  have pte: "returns_on I (vi_pte_page (env_funcs E) C d a e)" for d a e
    unfolding vi_pte_page_def Let_def by (intro returns_on_intros bus)
  have walk: "returns_on I (vi_walk E C d a)" for d a
  proof (cases "vi_depth C = 1")
    case True
    then obtain p t where i: "vi_indices (vi_block_size C) a = Some (p, t)"
      using vi_indices_defined [OF bs, of a] by auto
    show ?thesis unfolding vi_walk_def i bind.bind_lunit prod.case by (intro returns_on_intros entry pte)
  next
    case False
    then show ?thesis unfolding vi_walk_def if_not_P [OF False] by (intro returns_on_intros entry pte)
  qed
  have data: "returns_on I (page_data E sys st k dst bytes w c)" for sys st k dst bytes c
    unfolding page_data_def Let_def by (intro returns_on_intros linear sram)
  have page: "returns_on I (vi_page E C w c a n dst bytes)" for c a n dst bytes
    unfolding vi_page_def Let_def
  proof (intro returns_on_bind walk)
    fix v show "returns_on I (\<lambda>s. case v of Vi_fail \<Rightarrow> Some (Page_error c bytes, s)
       | Vi_skip start \<Rightarrow> Some (Page_done (chunk_size 0xFFF start n) c bytes, s)
       | Vi_page sys start \<Rightarrow> if dst = 0 then Some (Page_done (chunk_size 0xFFF start n) c bytes, s)
           else page_data E sys start (chunk_size 0xFFF start n) dst bytes w c s)"
      by (cases v) (simp_all add: returns_on_return data returns_on_if)
  qed
  have "page_loop (vi_page E C w) () (address - vi_start C) n dst bytes s1 \<noteq> None"
    using page \<open>I s1\<close> by (rule vi.loop_returns)
  then show ?thesis using ctx by (auto simp: umr_access_vram_vi_def)
qed

text \<open>A device whose accesses always succeed, without any register.\<close>

definition quiet_env :: "unit vm_env" where
  "quiet_env = \<lparr>env_funcs = \<lparr>read_reg = \<lambda>a t s. Some (0, s), write_reg = \<lambda>a v t s. Some (0, s),
       access_sram = \<lambda>a d w s. Some ((0, d), s), access_linear_vram = \<lambda>a d w s. Some ((0, d), s),
       gpu_bus_to_cpu_address = \<lambda>a s. Some (a, s)\<rparr>,
     env_nodes = [], env_node_vram = \<lambda>n a d w s. Some ((0, d), s), env_process = \<lambda>a d w s. Some (d, s)\<rparr>"

lemma quiet_linear: "returns_on (\<lambda>s. \<not> opt_use_xgmi (asic_options (fst s))) (access_linear quiet_env a d data w)"
  by (simp add: returns_on_def access_linear_def quiet_env_def)

theorem vi_access_returns_witness:
  "umr_access_vram_vi quiet_env 3 0x1000 8 0 [] False (demo_dev, ()) \<noteq> None"
proof -
  have "map_option (\<lambda>(C, s1). (vi_depth C, opt_use_xgmi (asic_options (fst s1))))
      (vi_read_context (env_funcs quiet_env) 3 (demo_dev, ())) = Some (0, False)"
    by code_simp
  then obtain C s1 where "vi_read_context (env_funcs quiet_env) 3 (demo_dev, ()) = Some (C, s1)"
    "\<not> opt_use_xgmi (asic_options (fst s1))" "vi_depth C = 0" by auto
  then show ?thesis
    by (intro vi_access_returns [OF quiet_linear, of _ _ C s1]) (simp_all add: quiet_env_def returns_on_def)
qed

text \<open>
  A page table in video memory that maps the first two pages of a context to system memory,
  and a read across the page boundary.
\<close>

definition demo_tables :: umr_test_harness where
  "demo_tables = fold add_line [Log_sysram 0x1000 [1, 2, 3, 4, 5, 6, 7, 8], Log_sysram 0x2FFC [9, 9, 9, 9],
     Log_vram 0 [3, 0x20, 0, 0, 0, 0, 0, 0, 3, 0x10, 0, 0, 0, 0, 0, 0]] zero_harness"


end
