(* ===== verification/Vm_Ai.thy ===== *)
theory Vm_Ai
  imports Vm_Vi
begin

text \<open>
  The page walk of GFX9 and later (\<^verbatim>\<open>umr_access_vram_ai\<close> in \<^verbatim>\<open>src/lib/read_vram.c\<close>): the registers
  of a hub, the system aperture of context 0, several levels of directories, directory
  entries that are used as table entries and table entries that point to a further
  table, and the dispatcher \<^verbatim>\<open>umr_access_vram\<close>.  Values that are only printed
  (\<^verbatim>\<open>va_mask\<close>) and the display callback are left out.
\<close>

subsection \<open>Page walk data for the caller\<close>

record umr_vm_pagewalk =
  vd_levels :: nat
  vd_sys_or_vram :: u32
  vd_vmid :: u32
  vd_va :: u64
  vd_phys :: u64
  vd_pde :: "u64 list"
  vd_pte :: u64
  vd_pde_fields :: "pde_fields list"
  vd_pte_fields :: pte_fields
  vd_base :: u64

definition zero_pagewalk :: umr_vm_pagewalk where
  "zero_pagewalk = \<lparr>vd_levels = 0, vd_sys_or_vram = 0, vd_vmid = 0, vd_va = 0, vd_phys = 0, vd_pde = replicate 8 0,
     vd_pte = 0, vd_pde_fields = replicate 8 zero_pde, vd_pte_fields = zero_pte, vd_base = 0\<rparr>"

text \<open>What every call of \<^verbatim>\<open>umr_access_vram\<close> does to the structure first: only the base address stays.\<close>

definition reset_pagewalk :: "umr_vm_pagewalk option \<Rightarrow> umr_vm_pagewalk option" where
  "reset_pagewalk = map_option (\<lambda>v. zero_pagewalk\<lparr>vd_base := vd_base v\<rparr>)"

text \<open>Appending an entry; the arrays have eight elements, behind which the store is undefined.\<close>

definition note_entry :: "u64 \<Rightarrow> umr_vm_pagewalk option \<Rightarrow> umr_vm_pagewalk option option" where
  "note_entry e vm =
     (case vm of
        None \<Rightarrow> Some None
      | Some v \<Rightarrow> if vd_levels v < 8
          then Some (Some (v\<lparr>vd_pde := (vd_pde v)[vd_levels v := e], vd_levels := vd_levels v + 1\<rparr>)) else None)"

definition note_pde :: "u64 \<Rightarrow> pde_fields \<Rightarrow> umr_vm_pagewalk option \<Rightarrow> umr_vm_pagewalk option option" where
  "note_pde e f vm =
     note_entry e (map_option (\<lambda>v. v\<lparr>vd_pde_fields := (vd_pde_fields v)[vd_levels v := f]\<rparr>) vm)"

definition note_pte :: "u64 \<Rightarrow> umr_vm_pagewalk option \<Rightarrow> umr_vm_pagewalk option" where
  "note_pte e = map_option (\<lambda>v. v\<lparr>vd_pte := e\<rparr>)"

subsection \<open>Hubs\<close>

record ai_hub =
  hub_name :: string
  hub_regprefix :: string
  hub_vm0prefix :: string

definition ai_hub_of :: "umr_asic \<Rightarrow> u32 \<Rightarrow> ai_hub option" where
  "ai_hub_of asic hubid =
     (if hubid = UMR_MM_VC0 then
        Some (if asic_family asic = FAMILY_AI
              then \<lparr>hub_name = ''mmhub'', hub_regprefix = ''VML2VC0_'', hub_vm0prefix = ''VMSHAREDVC0_''\<rparr>
              else \<lparr>hub_name = ''mmhub'', hub_regprefix = '''', hub_vm0prefix = ''''\<rparr>)
      else if hubid = UMR_MM_VC1 then
        Some (if asic_family asic = FAMILY_AI
              then \<lparr>hub_name = ''mmhub'', hub_regprefix = ''VML2VC1_'', hub_vm0prefix = ''VMSHAREDVC1_''\<rparr>
              else \<lparr>hub_name = ''mmhub'', hub_regprefix = '''', hub_vm0prefix = ''''\<rparr>)
      else if hubid = UMR_MM_HUB then
        Some (if asic_family asic \<ge> FAMILY_NV
              then \<lparr>hub_name = ''mmhub'', hub_regprefix = ''MM'', hub_vm0prefix = ''MM''\<rparr>
              else \<lparr>hub_name = ''mmhub'', hub_regprefix = '''', hub_vm0prefix = ''''\<rparr>)
      else if hubid = UMR_GFX_HUB then
        Some (if asic_family asic \<ge> FAMILY_NV
              then \<lparr>hub_name = ''gfx'', hub_regprefix = ''GC'', hub_vm0prefix = ''GC''\<rparr>
              else \<lparr>hub_name = ''gfx'', hub_regprefix = '''', hub_vm0prefix = ''''\<rparr>)
      else if hubid = UMR_USER_HUB then
        Some \<lparr>hub_name = opt_hub_name (asic_options asic), hub_regprefix = '''', hub_vm0prefix = ''''\<rparr>
      else None)"

subsection \<open>The registers of a context\<close>

record ai_context =
  ai_sam_low :: u64
  ai_sam_high :: u64
  ai_tlb_cntl :: u64
  ai_fb_bottom :: u64
  ai_fb_top :: u64
  ai_zfb :: bool
  ai_agp_base :: u64
  ai_agp_bot :: u64
  ai_agp_top :: u64
  ai_start :: u64
  ai_end :: u64
  ai_depth :: int
  ai_block_size :: u64
  ai_base :: u64
  ai_fb_offset :: u64

definition zero_context :: ai_context where
  "zero_context = \<lparr>ai_sam_low = 0, ai_sam_high = 0, ai_tlb_cntl = 0, ai_fb_bottom = 0, ai_fb_top = 0, ai_zfb = False,
     ai_agp_base = 0, ai_agp_bot = 0, ai_agp_top = 0, ai_start = 0, ai_end = 0, ai_depth = 0, ai_block_size = 0,
     ai_base = 0, ai_fb_offset = 0\<rparr>"

text \<open>A register of the hub, stored in 32 bits.\<close>

definition hub_read :: "'w umr_funcs \<Rightarrow> ai_hub \<Rightarrow> int \<Rightarrow> string \<Rightarrow> string \<Rightarrow> ('w, u64) dev_op" where
  "hub_read F H part prefix reg s = do {
     (v, s) \<leftarrow> umr_read_reg_by_name_by_ip_by_instance F (Some (hub_name H)) part (''mm'' @ prefix @ reg) s;
     Some (ucast (lo32 v), s) }"

definition hub_slice :: "ai_hub \<Rightarrow> int \<Rightarrow> string \<Rightarrow> string \<Rightarrow> string \<Rightarrow> u64 \<Rightarrow> ('w, u64) dev_op" where
  "hub_slice H part prefix reg bitname v s = do {
     (x, asic) \<leftarrow> umr_bitslice_reg_by_name_by_ip_by_instance (fst s) (Some (hub_name H)) part (''mm'' @ prefix @ reg) bitname v;
     Some (x, (asic, snd s)) }"

text \<open>The system aperture, the frame buffer, and the AGP window when there is no frame buffer.\<close>

definition ai_read_sam :: "'w umr_funcs \<Rightarrow> ai_hub \<Rightarrow> int \<Rightarrow> u32 \<Rightarrow> ai_context \<Rightarrow> ('w, ai_context) dev_op" where
  "ai_read_sam F H part vmid C s =
     (if vmid = 0 then do {
        (hi, s) \<leftarrow> hub_read F H part (hub_vm0prefix H) ''MC_VM_SYSTEM_APERTURE_HIGH_ADDR'' s;
        (lo, s) \<leftarrow> hub_read F H part (hub_vm0prefix H) ''MC_VM_SYSTEM_APERTURE_LOW_ADDR'' s;
        (tlb, s) \<leftarrow> hub_read F H part (hub_vm0prefix H) ''MC_VM_MX_L1_TLB_CNTL'' s;
        Some (C\<lparr>ai_sam_low := push_bit 18 lo, ai_sam_high := push_bit 18 (hi + 1), ai_tlb_cntl := tlb\<rparr>, s) }
      else Some (C, s))"

definition ai_read_fb :: "'w umr_funcs \<Rightarrow> ai_hub \<Rightarrow> int \<Rightarrow> ai_context \<Rightarrow> ('w, ai_context) dev_op" where
  "ai_read_fb F H part C s = do {
     (b, s) \<leftarrow> hub_read F H part (hub_vm0prefix H) ''MC_VM_FB_LOCATION_BASE'' s;
     (t, s) \<leftarrow> hub_read F H part (hub_vm0prefix H) ''MC_VM_FB_LOCATION_TOP'' s;
     let bottom = push_bit 24 b;
     let top_addr = push_bit 24 (t + 1);
     let C = C\<lparr>ai_fb_bottom := bottom, ai_fb_top := top_addr, ai_zfb := top_addr < bottom\<rparr>;
     if top_addr < bottom then do {
       (ab, s) \<leftarrow> hub_read F H part (hub_regprefix H) ''MC_VM_AGP_BASE'' s;
       (abot, s) \<leftarrow> hub_read F H part (hub_regprefix H) ''MC_VM_AGP_BOT'' s;
       (atop, s) \<leftarrow> hub_read F H part (hub_regprefix H) ''MC_VM_AGP_TOP'' s;
       Some (C\<lparr>ai_agp_base := push_bit 24 ab, ai_agp_bot := push_bit 24 abot,
               ai_agp_top := push_bit 24 (atop + 1) OR 0xFFFFFF\<rparr>, s) }
     else Some (C\<lparr>ai_agp_base := 0, ai_agp_bot := 0, ai_agp_top := 0\<rparr>, s) }"

text \<open>The page table of the context; the caller may impose the base address.\<close>

definition ctx_reg :: "u32 \<Rightarrow> string \<Rightarrow> string" where
  "ctx_reg vmid what = ''VM_CONTEXT'' @ dec_digits (unat vmid) @ what"

definition ai_read_tables ::
    "'w umr_funcs \<Rightarrow> ai_hub \<Rightarrow> int \<Rightarrow> u32 \<Rightarrow> u64 \<Rightarrow> ai_context \<Rightarrow> ('w, ai_context) dev_op" where
  "ai_read_tables F H part vmid base_override C s = do {
     (slo, s) \<leftarrow> hub_read F H part (hub_regprefix H) (ctx_reg vmid ''_PAGE_TABLE_START_ADDR_LO32'') s;
     (shi, s) \<leftarrow> hub_read F H part (hub_regprefix H) (ctx_reg vmid ''_PAGE_TABLE_START_ADDR_HI32'') s;
     (elo, s) \<leftarrow> hub_read F H part (hub_regprefix H) (ctx_reg vmid ''_PAGE_TABLE_END_ADDR_LO32'') s;
     (ehi, s) \<leftarrow> hub_read F H part (hub_regprefix H) (ctx_reg vmid ''_PAGE_TABLE_END_ADDR_HI32'') s;
     (cntl, s) \<leftarrow> hub_read F H part (hub_regprefix H) (ctx_reg vmid ''_CNTL'') s;
     (depth, s) \<leftarrow> hub_slice H part (hub_regprefix H) (ctx_reg vmid ''_CNTL'') ''PAGE_TABLE_DEPTH'' cntl s;
     (bs, s) \<leftarrow> hub_slice H part (hub_regprefix H) (ctx_reg vmid ''_CNTL'') ''PAGE_TABLE_BLOCK_SIZE'' cntl s;
     (base, s) \<leftarrow>
       (if base_override \<noteq> 0 then Some (base_override, s)
        else do {
          (lo, s) \<leftarrow> hub_read F H part (hub_regprefix H) (ctx_reg vmid ''_PAGE_TABLE_BASE_ADDR_LO32'') s;
          (hi, s) \<leftarrow> hub_read F H part (hub_regprefix H) (ctx_reg vmid ''_PAGE_TABLE_BASE_ADDR_HI32'') s;
          Some (lo OR push_bit 32 hi, s) });
     Some (C\<lparr>ai_start := push_bit 12 slo OR push_bit 44 shi, ai_end := push_bit 12 elo OR push_bit 44 ehi,
             ai_depth := sint (lo32 depth), ai_block_size := bs, ai_base := base\<rparr>, s) }"

text \<open>The VGA registers of an APU are read for the messages only.\<close>

definition ai_read_vga :: "'w umr_funcs \<Rightarrow> ('w, unit) dev_op" where
  "ai_read_vga F s =
     (if asic_is_apu (fst s) \<noteq> 0 then do {
        (r, asic) \<leftarrow> umr_find_reg (fst s) ''@mmVGA_MEMORY_BASE_ADDRESS'';
        if r \<noteq> 0xFFFFFFFF then do {
          (_, s) \<leftarrow> umr_read_reg_by_name F ''mmVGA_MEMORY_BASE_ADDRESS'' (asic, snd s);
          (_, s) \<leftarrow> umr_read_reg_by_name F ''mmVGA_MEMORY_BASE_ADDRESS_HIGH'' s;
          Some ((), s) }
        else Some ((), (asic, snd s)) }
      else Some ((), s))"

text \<open>All of them; a base address in video memory is made relative to the frame buffer.\<close>

definition ai_read_context :: "'w umr_funcs \<Rightarrow> ai_hub \<Rightarrow> int \<Rightarrow> u32 \<Rightarrow> u64 \<Rightarrow> ('w, ai_context) dev_op" where
  "ai_read_context F H part vmid base_override s = do {
     (C, s) \<leftarrow> ai_read_sam F H part vmid zero_context s;
     (C, s) \<leftarrow> ai_read_fb F H part C s;
     (C, s) \<leftarrow> ai_read_tables F H part vmid base_override C s;
     (_, s) \<leftarrow> ai_read_vga F s;
     (off, s) \<leftarrow> hub_read F H part (hub_regprefix H) ''MC_VM_FB_OFFSET'' s;
     let C = C\<lparr>ai_fb_offset := push_bit 24 off\<rparr>;
     Some (if pde_system (decode_pde_entry (fst s) (ai_base C)) = 0
           then C\<lparr>ai_base := ai_base C - ai_fb_offset C\<rparr> else C, s) }"

subsection \<open>Directories\<close>

text \<open>
  The variables of the walk that later steps use: the fragment size of the last directory
  entry (which persists from page to page), the two masks, the number of remembered
  entries, and the data for the caller.
\<close>

record ai_walk =
  aw_frag :: u32
  aw_ptb_mask :: u64
  aw_page_mask :: u64
  aw_cnt :: nat
  aw_vm :: "umr_vm_pagewalk option"

definition in_agp :: "ai_context \<Rightarrow> u64 \<Rightarrow> bool" where
  "in_agp C a \<longleftrightarrow> ai_zfb C \<and> ai_agp_bot C \<le> a \<and> a < ai_agp_top C"

definition agp_to_sys :: "ai_context \<Rightarrow> u64 \<Rightarrow> u64" where
  "agp_to_sys C a = a - ai_agp_bot C + ai_agp_base C"

text \<open>An entry of a table in system memory, in the AGP window, or in video memory.\<close>

definition ai_read_entry :: "'w vm_env \<Rightarrow> ai_context \<Rightarrow> u64 \<Rightarrow> u64 \<Rightarrow> ('w, int \<times> u64) dev_op" where
  "ai_read_entry E C sys a s =
     (if sys = 0 then
        (if in_agp C a then do {
           ((r, bs), s) \<leftarrow> access_sram (env_funcs E) (agp_to_sys C a) (replicate 8 0) False s;
           Some ((r, of_le64 bs), s) }
         else read_entry E a s)
      else do {
        ((r, bs), s) \<leftarrow> access_sram (env_funcs E) a (replicate 8 0) False s;
        Some ((r, of_le64 bs), s) })"

text \<open>
  The bits above the top directory's index.  The number of index bits of the top directory
  is computed in 64 bits and stored in an \<^verbatim>\<open>int\<close>.
\<close>

definition ai_top_shift :: "ai_context \<Rightarrow> nat \<Rightarrow> int" where
  "ai_top_shift C total_vm_bits =
     int total_vm_bits -
     sint (ucast (word_of_int (int total_vm_bits - 9 * (ai_depth C - 1)) - (ai_block_size C + 21) :: u64) :: u32)"

text \<open>The additional rules for the last directory level.\<close>

definition pde0_masks :: "ai_context \<Rightarrow> pde_fields \<Rightarrow> ai_walk \<Rightarrow> ai_walk option" where
  "pde0_masks C f W = do {
     let frag = (ucast (pde_frag_size f) :: u32);
     ptb \<leftarrow> shl64 1 (uint (9 + (ai_block_size C - ucast frag)));
     pg \<leftarrow> shl64 1 (uint (frag + 12));
     Some (W\<lparr>aw_frag := frag, aw_ptb_mask := ptb - 1, aw_page_mask := pg - 1\<rparr>) }"

definition rebase :: "ai_context \<Rightarrow> pde_fields \<Rightarrow> pde_fields" where
  "rebase C f = (if pde_system f = 0 then f\<lparr>pde_pte_base_addr := pde_pte_base_addr f - ai_fb_offset C\<rparr> else f)"

datatype ai_pde = Pde_fail | Pde_skip | Pde_is_pte u64 pde_fields nat | Pde_table pde_fields

text \<open>
  One round of \<^verbatim>\<open>while (current_depth)\<close>, which ends the descent or gives the next directory.  The
  index of the top level keeps all upper bits of the address; an entry with the P bit
  ends the descent.
\<close>

definition ai_dir_step ::
    "'w vm_env \<Rightarrow> ai_context \<Rightarrow> bool \<Rightarrow> int \<Rightarrow> u64 \<Rightarrow> nat \<Rightarrow> pde_fields \<Rightarrow> ai_walk \<Rightarrow>
     ('w, (ai_pde + pde_fields) \<times> ai_walk) dev_op" where
  "ai_dir_step E C use_dst shift address cur f W s = do {
     i \<leftarrow> shr64 address (shift - (ai_depth C - int cur) * 9);
     let i = (if int cur \<noteq> ai_depth C then i AND 511 else i);
     ((r, e), s) \<leftarrow> ai_read_entry E C (pde_system f) (pde_pte_base_addr f + i * 8) s;
     if r < 0 then Some ((Inl Pde_fail, W), s)
     else do {
       let f = decode_pde_entry (fst s) e;
       W \<leftarrow> (if cur = 1 then pde0_masks C f W else Some W);
       if pde_pte f \<noteq> 0 then Some ((Inl (Pde_is_pte e f cur), W), s)
       else do {
         vm \<leftarrow> note_pde e f (aw_vm W);
         if aw_cnt W \<ge> 8 then None
         else Some ((if pde_valid f = 0 then Inl (if use_dst then Pde_fail else Pde_skip) else Inr (rebase C f),
                     W\<lparr>aw_vm := vm, aw_cnt := aw_cnt W + 1\<rparr>), s) } } }"

fun ai_descend ::
    "'w vm_env \<Rightarrow> ai_context \<Rightarrow> bool \<Rightarrow> int \<Rightarrow> u64 \<Rightarrow> nat \<Rightarrow> pde_fields \<Rightarrow> ai_walk \<Rightarrow> ('w, ai_pde \<times> ai_walk) dev_op" where
  "ai_descend E C use_dst shift address 0 f W s = Some ((Pde_table f, W), s)"
| "ai_descend E C use_dst shift address (Suc d) f W s = do {
     ((r, W), s) \<leftarrow> ai_dir_step E C use_dst shift address (Suc d) f W s;
     case r of
       Inl x \<Rightarrow> Some ((x, W), s)
     | Inr g \<Rightarrow> ai_descend E C use_dst shift address d g W s }"

subsection \<open>Tables\<close>

datatype ai_leaf = Leaf_fail | Leaf_page pte_fields u64

text \<open>Whether a table entry points to a further table.\<close>

definition pte_goes_further :: "int \<Rightarrow> pte_fields \<Rightarrow> bool" where
  "pte_goes_further maj t \<longleftrightarrow> pte_further t \<noteq> 0 \<and> pte_valid t \<noteq> 0 \<or> maj \<ge> 12 \<and> pte_pte t = 0 \<and> pte_valid t \<noteq> 0"

text \<open>
  The further table and the index into it.  On GFX11 and later a directory entry with the
  TFS bit gives the address that the entry's address is relative to.  The number of
  index bits is an unsigned difference and shifts an \<^verbatim>\<open>int\<close>.
\<close>

definition further_table :: "umr_asic \<Rightarrow> ai_context \<Rightarrow> int \<Rightarrow> nat \<Rightarrow> bool \<Rightarrow> pde_fields \<Rightarrow> u64 \<Rightarrow> pde_fields" where
  "further_table asic C maj cur was_pte f e =
     (let g = decode_pde_entry asic e in
      if maj \<ge> 11 \<and> pde_tfs_addr f \<noteq> 0 \<and> cur = 0 \<and> \<not> was_pte
      then g\<lparr>pde_pte_base_addr := pde_pte_base_addr g + pde_pte_base_addr f\<rparr>
      else rebase C g)"

definition further_index :: "u32 \<Rightarrow> pde_fields \<Rightarrow> u64 \<Rightarrow> (u64 \<times> u64) option" where
  "further_index frag0 g address = do {
     let frag = (ucast (pde_frag_size g) :: u32);
     let last_bits = uint (12 + frag);
     i \<leftarrow> shr64 address last_bits;
     let entry_bits = unat (frag0 - frag);
     pg \<leftarrow> shl64 1 last_bits;
     if entry_bits < 31 then Some (i AND mask entry_bits, pg - 1) else None }"

text \<open>
  The start address of the page.  The variable \<^verbatim>\<open>pte_block_fragment_size\<close> is declared, and set
  to 0, between the label that a further entry jumps back to and its use here, so
  the offset into a page behind a further entry always has 12 bits.
\<close>

definition offset_mask :: "ai_context \<Rightarrow> nat \<Rightarrow> bool \<Rightarrow> bool \<Rightarrow> u32 \<Rightarrow> u64 option" where
  "offset_mask C cur was_pte further frag0 =
     map_option (\<lambda>w. w - 1)
       (if was_pte \<and> cur \<noteq> 0 then shl64 1 (uint (of_nat ((cur - 1) * 9) + (21 + ai_block_size C)))
        else if \<not> further then shl64 1 (uint (of_nat (cur * 9) + (12 + frag0)))
        else shl64 1 (uint (12 + (0 :: u32))))"

definition ai_leaf_page ::
    "'w umr_funcs \<Rightarrow> ai_context \<Rightarrow> bool \<Rightarrow> u64 \<Rightarrow> nat \<Rightarrow> bool \<Rightarrow> bool \<Rightarrow> u64 \<Rightarrow> pte_fields \<Rightarrow> ai_walk \<Rightarrow>
     ('w, ai_leaf \<times> ai_walk) dev_op" where
  "ai_leaf_page F C use_dst address cur was_pte further e t W s = do {
     let t = (if pte_system t = 0 then t\<lparr>pte_page_base_addr := pte_page_base_addr t - ai_fb_offset C\<rparr> else t);
     if use_dst \<and> pte_prt t = 0 \<and> pte_valid t = 0 then Some ((Leaf_fail, W), s)
     else do {
       om \<leftarrow> offset_mask C cur was_pte further (aw_frag W);
       (pa, s) \<leftarrow> gpu_bus_to_cpu_address F (pte_page_base_addr t) s;
       let vm = map_option (\<lambda>v. v\<lparr>vd_pte := e, vd_pte_fields := t\<rparr>) (aw_vm W);
       Some ((Leaf_page t (pa + (address AND om)), W\<lparr>aw_vm := vm\<rparr>), s) } }"

text \<open>
  From the label \<^verbatim>\<open>pte_further\<close> on, or, with the entry given, from \<^verbatim>\<open>pde_is_pte\<close>.  Nothing bounds the
  number of further tables.
\<close>

partial_function (option) ai_tables ::
    "'w vm_env \<Rightarrow> ai_context \<Rightarrow> bool \<Rightarrow> u64 \<Rightarrow> nat \<Rightarrow> bool \<Rightarrow> bool \<Rightarrow> pde_fields \<Rightarrow> u64 option \<Rightarrow> u64 \<Rightarrow> ai_walk \<Rightarrow>
     ('w, ai_leaf \<times> ai_walk) dev_op" where
  "ai_tables E C use_dst address cur was_pte further f entry i W s = do {
     ((r, e), s1) \<leftarrow> (case entry of
        Some e \<Rightarrow> Some ((0, e), s)
      | None \<Rightarrow> ai_read_entry E C (pde_system f) (pde_pte_base_addr f + i * 8) s);
     if r < 0 then Some ((Leaf_fail, W), s1)
     else do {
       ip \<leftarrow> gfx_ip (fst s1);
       let t = decode_pte_entry (fst s1) e;
       if pte_goes_further (ip_maj ip) t then do {
         let g = further_table (fst s1) C (ip_maj ip) cur was_pte f e;
         (j, pg) \<leftarrow> further_index (aw_frag W) g address;
         ai_tables E C use_dst address cur was_pte True g None j
           (W\<lparr>aw_page_mask := pg, aw_cnt := aw_cnt W + 1\<rparr>) s1 }
       else ai_leaf_page (env_funcs E) C use_dst address cur was_pte further e t W s1 } }"

subsection \<open>A page\<close>

text \<open>
  The translation with one level or more, up to the label \<^verbatim>\<open>next_page\<close>.  Without a buffer an
  invalid directory entry skips the page.
\<close>

definition ai_deep :: "'w vm_env \<Rightarrow> ai_context \<Rightarrow> bool \<Rightarrow> u64 \<Rightarrow> ai_walk \<Rightarrow> ('w, ai_leaf \<times> ai_walk) dev_op" where
  "ai_deep E C use_dst address W s = do {
     let f = decode_pde_entry (fst s) (ai_base C);
     total \<leftarrow> log2_vm_size (ai_start C) (ai_end C);
     vm \<leftarrow> note_entry (ai_base C) (aw_vm W);
     ((d, W), s) \<leftarrow> ai_descend E C use_dst (ai_top_shift C total) address (nat (ai_depth C)) f
       (W\<lparr>aw_vm := vm, aw_cnt := 1\<rparr>) s;
     case d of
       Pde_fail \<Rightarrow> Some ((Leaf_fail, W), s)
     | Pde_skip \<Rightarrow> Some ((Leaf_page zero_pte (address AND 0xFFF), W), s)
     | Pde_is_pte e f cur \<Rightarrow> ai_tables E C use_dst address cur True False f (Some e) 0 W s
     | Pde_table f \<Rightarrow> do {
         i \<leftarrow> shr64 address (uint (12 + aw_frag W));
         ai_tables E C use_dst address 0 False False f None (i AND aw_ptb_mask W) W s } }"

text \<open>The translation without directories: the base address is the entry that points to the table.\<close>

definition ai_flat :: "'w vm_env \<Rightarrow> ai_context \<Rightarrow> bool \<Rightarrow> u64 \<Rightarrow> ai_walk \<Rightarrow> ('w, ai_leaf \<times> ai_walk) dev_op" where
  "ai_flat E C use_dst address W s = do {
     vm \<leftarrow> note_entry (ai_base C) (aw_vm W);
     let f = decode_pde_entry (fst s) (ai_base C);
     let frag = (ucast (pde_frag_size f) :: u32);
     pg \<leftarrow> shl64 1 (uint (12 + frag));
     let W = W\<lparr>aw_vm := vm, aw_frag := frag, aw_page_mask := pg - 1\<rparr>;
     if pde_valid f = 0 then Some ((Leaf_fail, W), s)
     else do {
       i \<leftarrow> shr64 address (uint (12 + frag));
       ((r, e), s) \<leftarrow>
         (if pde_system f = 0 then read_entry E (pde_pte_base_addr f + i * 8) s
          else do {
            ((r, bs), s) \<leftarrow> access_sram (env_funcs E) (pde_pte_base_addr f + i * 8) (replicate 8 0) False s;
            Some ((r, of_le64 bs), s) });
       if r < 0 then Some ((Leaf_fail, W), s)
       else do {
         let W = W\<lparr>aw_vm := note_pte e vm\<rparr>;
         let t = decode_pte_entry (fst s) e;
         if use_dst \<and> pte_valid t = 0 then Some ((Leaf_fail, W), s)
         else do {
           (pa, s) \<leftarrow> gpu_bus_to_cpu_address (env_funcs E) (pte_page_base_addr t) s;
           Some ((Leaf_page t (pa + (address AND (pg - 1))), W), s) } } } }"

text \<open>The verbose walk tells the caller where the page is.\<close>

definition note_target :: "bool \<Rightarrow> ai_context \<Rightarrow> pte_fields \<Rightarrow> u64 \<Rightarrow> umr_vm_pagewalk option \<Rightarrow> umr_vm_pagewalk option" where
  "note_target verbose C t start vm =
     (if verbose then map_option (\<lambda>v. if pte_system t = 1 then v\<lparr>vd_sys_or_vram := 1, vd_phys := start\<rparr>
        else v\<lparr>vd_sys_or_vram := 0, vd_phys := start + ai_fb_offset C\<rparr>) vm
      else vm)"

text \<open>
  From \<^verbatim>\<open>next_page\<close> on.  The loop carries the fragment size and the caller's data; the access to
  video memory resets that data.  A page that is not valid is skipped.
\<close>

definition ai_page ::
    "'w vm_env \<Rightarrow> ai_context \<Rightarrow> bool \<Rightarrow> u32 \<times> umr_vm_pagewalk option \<Rightarrow> u64 \<Rightarrow> u32 \<Rightarrow> u64 \<Rightarrow> u8 list \<Rightarrow>
     ('w, (u32 \<times> umr_vm_pagewalk option) page_result) dev_op" where
  "ai_page E C write_en c address n dst bytes s = do {
     let W = \<lparr>aw_frag = fst c, aw_ptb_mask = mask 9, aw_page_mask = mask 12, aw_cnt = 0, aw_vm = snd c\<rparr>;
     ((l, W), s) \<leftarrow> (if ai_depth C \<ge> 1 then ai_deep E C (dst \<noteq> 0) address W s else ai_flat E C (dst \<noteq> 0) address W s);
     case l of
       Leaf_fail \<Rightarrow> Some (Page_error (aw_frag W, aw_vm W) bytes, s)
     | Leaf_page t start \<Rightarrow>
         let k = chunk_size (aw_page_mask W) start n;
             vm = note_target (opt_verbose (asic_options (fst s))) C t start (aw_vm W) in
         if pte_valid t \<noteq> 0 \<and> dst \<noteq> 0 then
           (if pte_system t \<noteq> 0 then page_data E True start k dst bytes write_en (aw_frag W, vm) s
            else if in_agp C start then page_data E True (agp_to_sys C start) k dst bytes write_en (aw_frag W, vm) s
            else page_data E False start k dst bytes write_en (aw_frag W, reset_pagewalk vm) s)
         else Some (Page_done k (aw_frag W, vm) bytes, s) }"

subsection \<open>The access\<close>

text \<open>Where context 0 accesses memory without translation, by the mode of the system aperture.\<close>

definition ai_untranslated :: "ai_context \<Rightarrow> u32 \<Rightarrow> u64 \<Rightarrow> u64 option" where
  "ai_untranslated C sam address =
     (let inside = (ai_sam_low C \<le> address \<and> address < ai_sam_high C);
          phys = (if ai_fb_bottom C \<le> address \<and> address < ai_fb_top C then address - ai_fb_bottom C else address) in
      if sam = 0 then Some address
      else if sam = 2 \<and> \<not> inside then Some phys
      else if sam = 3 \<and> inside then Some phys
      else None)"

definition ai_translated ::
    "'w vm_env \<Rightarrow> ai_context \<Rightarrow> u64 \<Rightarrow> u32 \<Rightarrow> u64 \<Rightarrow> u8 list \<Rightarrow> bool \<Rightarrow> umr_vm_pagewalk option \<Rightarrow>
     ('w, int \<times> u8 list \<times> umr_vm_pagewalk option) dev_op" where
  "ai_translated E C address n dst bytes write_en vm s =
     (if address < ai_start C \<or> ai_end C + 0xFFF < address then Some ((- 1, bytes, vm), s)
      else do {
        ((r, bytes, c), s) \<leftarrow> page_loop (ai_page E C write_en) (0, vm) (address - ai_start C) n dst bytes s;
        Some ((r, bytes, snd c), s) })"

definition umr_access_vram_ai ::
    "'w vm_env \<Rightarrow> int \<Rightarrow> u32 \<Rightarrow> u64 \<Rightarrow> u32 \<Rightarrow> u64 \<Rightarrow> u8 list \<Rightarrow> bool \<Rightarrow> umr_vm_pagewalk option \<Rightarrow>
     ('w, int \<times> u8 list \<times> umr_vm_pagewalk option) dev_op" where
  "umr_access_vram_ai E part vmid address n dst bytes write_en vm s = do {
     let vm = map_option (\<lambda>v. v\<lparr>vd_va := address, vd_vmid := vmid\<rparr>) vm;
     case ai_hub_of (fst s) (vmid AND 0xFF00) of
       None \<Rightarrow> Some ((- 1, bytes, vm), s)
     | Some H \<Rightarrow> do {
         let vmid = vmid AND 0xFF;
         (C, s) \<leftarrow> ai_read_context (env_funcs E) H part vmid (case vm of None \<Rightarrow> 0 | Some v \<Rightarrow> vd_base v) s;
         (direct, s) \<leftarrow>
           (if vmid = 0 then do {
              (sam, s) \<leftarrow> hub_slice H part (hub_vm0prefix H) ''MC_VM_MX_L1_TLB_CNTL'' ''SYSTEM_ACCESS_MODE'' (ai_tlb_cntl C) s;
              Some (ai_untranslated C (lo32 sam) address, s) }
            else Some (None, s));
         case direct of
           Some a \<Rightarrow>
             if dst = 0 then Some ((0, bytes, vm), s)
             else do {
               ((r, bytes), s) \<leftarrow> access_linear E a dst bytes write_en s;
               Some ((r, bytes, reset_pagewalk vm), s) }
         | None \<Rightarrow> ai_translated E C address n dst bytes write_en vm s } }"

text \<open>
  The dispatcher.  Without a buffer only a page walk is defined; the copy from or to the
  process's own memory, and the callbacks, would use a null pointer.
\<close>

definition umr_access_vram ::
    "'w vm_env \<Rightarrow> int \<Rightarrow> u32 \<Rightarrow> u64 \<Rightarrow> u32 \<Rightarrow> u64 \<Rightarrow> u8 list \<Rightarrow> bool \<Rightarrow> umr_vm_pagewalk option \<Rightarrow>
     ('w, int \<times> u8 list \<times> umr_vm_pagewalk option) dev_op" where
  "umr_access_vram E part vmid address n dst bytes write_en vm s =
     (let vm = reset_pagewalk vm; hub = vmid AND 0xFF00 in
      if address AND 3 \<noteq> 0 \<or> n AND 3 \<noteq> 0 \<or> dst AND 3 \<noteq> 0 then Some ((- 1, bytes, vm), s)
      else if hub = UMR_PROCESS_HUB then
        (if dst = 0 \<and> n \<noteq> 0 then None
         else do { (bytes, s) \<leftarrow> env_process E address bytes write_en s; Some ((0, bytes, vm), s) })
      else if hub = UMR_LINEAR_HUB then
        (if dst = 0 \<and> n \<noteq> 0 then None
         else do { ((r, bytes), s) \<leftarrow> access_linear E address dst bytes write_en s; Some ((r, bytes, vm), s) })
      else do {
        (maj, mnr) \<leftarrow> umr_gfx_get_ip_ver (fst s);
        let address = (if asic_family (fst s) > FAMILY_VI then address AND 0xFFFFFFFFFFFF else address);
        if maj \<le> 8 then do {
          ((r, bytes), s) \<leftarrow> umr_access_vram_vi E vmid address n dst bytes write_en s;
          Some ((r, bytes, vm), s) }
        else umr_access_vram_ai E part vmid address n dst bytes write_en vm s })"

subsection \<open>Every page makes progress\<close>

text \<open>The mask of a page always has the form \<open>2 ^ k - 1\<close>, with at most 43 bits.\<close>

definition page_mask_ok :: "u64 \<Rightarrow> bool" where
  "page_mask_ok m \<longleftrightarrow> (\<exists>k \<le> 43. m = mask k)"

lemma pde_frag_size_bound: "pde_frag_size (decode_pde_entry asic e) \<le> 31"
  by (auto simp: decode_pde_entry_def decode_pde_gfx_def pde_common_def zero_pde_def shr_and_le split: option.splits)

lemma unat_frag: "unat (ucast (pde_frag_size (decode_pde_entry asic e)) :: u32) \<le> 31"
proof -
  have b: "unat (pde_frag_size (decode_pde_entry asic e)) \<le> 31"
    using pde_frag_size_bound by (simp add: word_le_nat_alt)
  then have "unat (ucast (pde_frag_size (decode_pde_entry asic e)) :: u32) = unat (pde_frag_size (decode_pde_entry asic e))"
    by (simp add: unsigned_ucast_eq take_bit_nat_eq_self)
  with b show ?thesis by simp
qed

lemma shl64_int: "n < 64 \<Longrightarrow> shl64 x (int n) = Some (push_bit n x)" "n < 64 \<Longrightarrow> shr64 x (int n) = Some (drop_bit n x)"
  by (simp_all add: shl64_def shr64_def)

lemma shl64_page:
  assumes "unat (frag :: u32) \<le> 31"
  shows "shl64 1 (uint (frag + 12)) = Some (2 ^ (unat frag + 12))" "shl64 1 (uint (12 + frag)) = Some (2 ^ (unat frag + 12))"
proof -
  have u: "unat (frag + 12) = unat frag + 12" using assms by (subst unat_add_no_wrap) simp_all
  then have "uint (frag + 12) = int (unat frag + 12)" by (simp only: uint_nat)
  then show "shl64 1 (uint (frag + 12)) = Some (2 ^ (unat frag + 12))"
    using assms shl64_int(1) [of "unat frag + 12" 1] by (simp only: push_bit_of_1)
  then show "shl64 1 (uint (12 + frag)) = Some (2 ^ (unat frag + 12))" by (simp only: add.commute)
qed

lemma page_mask_okI: "k \<le> 43 \<Longrightarrow> page_mask_ok (2 ^ k - 1)"
  by (auto simp: page_mask_ok_def mask_eq_exp_minus_1)

lemma shl64_page_ok:
  assumes "shl64 1 (uint ((ucast (pde_frag_size (decode_pde_entry asic e)) :: u32) + 12)) = Some pg \<or>
    shl64 1 (uint (12 + (ucast (pde_frag_size (decode_pde_entry asic e)) :: u32))) = Some pg"
  shows "page_mask_ok (pg - 1)"
  using assms shl64_page [OF unat_frag, of asic e] page_mask_okI unat_frag [of asic e] by fastforce

lemma pde0_masks_ok:
  assumes "pde0_masks C (decode_pde_entry asic e) W = Some W'"
  shows "page_mask_ok (aw_page_mask W')"
  using assms shl64_page_ok [of asic e] by (auto simp: pde0_masks_def bind_eq_Some_conv Let_def)

lemma ai_dir_step_mask:
  assumes "ai_dir_step E C u sh a cur f W s = Some ((r, W'), s')" and "page_mask_ok (aw_page_mask W)"
  shows "page_mask_ok (aw_page_mask W')"
proof -
  obtain i r1 e s1 where "shr64 a (sh - (ai_depth C - int cur) * 9) = Some i"
    "ai_read_entry E C (pde_system f) (pde_pte_base_addr f + (if int cur \<noteq> ai_depth C then i AND 511 else i) * 8) s =
      Some ((r1, e), s1)"
    using assms(1) by (auto simp: ai_dir_step_def bind_eq_Some_conv Let_def)
  note step = assms(1) [unfolded ai_dir_step_def Let_def this bind.bind_lunit prod.case]
  show ?thesis
  proof (cases "r1 < 0")
    case True
    then show ?thesis using step assms(2) by simp
  next
    case False
    then obtain W1 where W1: "(if cur = 1 then pde0_masks C (decode_pde_entry (fst s1) e) W else Some W) = Some W1"
      using step by (auto simp: bind_eq_Some_conv)
    have "page_mask_ok (aw_page_mask W1)"
      using W1 assms(2) pde0_masks_ok [of C "fst s1" e W W1] by (cases "cur = 1") auto
    then show ?thesis
      using step False unfolding W1 bind.bind_lunit if_not_P [OF False]
      by (auto simp: bind_eq_Some_conv split: if_splits)
  qed
qed

lemma ai_descend_mask:
  "ai_descend E C u sh a d f W s = Some ((r, W'), s') \<Longrightarrow> page_mask_ok (aw_page_mask W) \<Longrightarrow> page_mask_ok (aw_page_mask W')"
proof (induction d arbitrary: f W s)
  case (Suc d)
  then obtain x W1 s1 where step: "ai_dir_step E C u sh a (Suc d) f W s = Some ((x, W1), s1)"
    and rest: "(case x of Inl x \<Rightarrow> Some ((x, W1), s1) | Inr g \<Rightarrow> ai_descend E C u sh a d g W1 s1) = Some ((r, W'), s')"
    by (auto simp: bind_eq_Some_conv)
  from ai_dir_step_mask [OF step Suc.prems(2)] rest Suc.IH show ?case by (cases x) auto
qed simp

lemma further_index_mask:
  assumes "further_index frag0 g a = Some (j, pg)" and "pde_frag_size g = pde_frag_size (decode_pde_entry asic e)"
  shows "page_mask_ok pg"
  using assms shl64_page_ok [of asic e] by (auto simp: further_index_def bind_eq_Some_conv Let_def split: if_splits)

lemma further_table_frag: "pde_frag_size (further_table asic C maj cur w f e) = pde_frag_size (decode_pde_entry asic e)"
  by (simp add: further_table_def rebase_def Let_def)

lemma ai_leaf_mask:
  "ai_leaf_page F C u a cur w fu e t W s = Some ((l, W'), s') \<Longrightarrow> aw_page_mask W' = aw_page_mask W"
  by (auto simp: ai_leaf_page_def bind_eq_Some_conv Let_def split: if_splits)

lemma ai_tables_mask:
  assumes "ai_tables E C u a cur w fu f en i W s = Some r"
  shows "page_mask_ok (aw_page_mask W) \<Longrightarrow> page_mask_ok (aw_page_mask (snd (fst r)))"
proof (rule ai_tables.raw_induct [of "\<lambda>E C u a cur w fu f en i W s r. page_mask_ok (aw_page_mask W) \<longrightarrow>
    page_mask_ok (aw_page_mask (snd (fst r)))", OF _ assms, THEN mp])
  fix h E C u a cur w fu f en i W s r
  assume IH: "\<And>E C u a cur w fu f en i W s r. h E C u a cur w fu f en i W s = Some r \<Longrightarrow>
      page_mask_ok (aw_page_mask W) \<longrightarrow> page_mask_ok (aw_page_mask (snd (fst r)))"
    and body: "do {
     ((r, e), s1) \<leftarrow> (case en of Some e \<Rightarrow> Some ((0, e), s)
      | None \<Rightarrow> ai_read_entry E C (pde_system f) (pde_pte_base_addr f + i * 8) s);
     if r < 0 then Some ((Leaf_fail, W), s1)
     else do {
       ip \<leftarrow> gfx_ip (fst s1);
       let t = decode_pte_entry (fst s1) e;
       if pte_goes_further (ip_maj ip) t then do {
         let g = further_table (fst s1) C (ip_maj ip) cur w f e;
         (j, pg) \<leftarrow> further_index (aw_frag W) g a;
         h E C u a cur w True g None j (W\<lparr>aw_page_mask := pg, aw_cnt := aw_cnt W + 1\<rparr>) s1 }
       else ai_leaf_page (env_funcs E) C u a cur w fu e t W s1 } } = Some r"
  show "page_mask_ok (aw_page_mask W) \<longrightarrow> page_mask_ok (aw_page_mask (snd (fst r)))"
  proof
    assume W: "page_mask_ok (aw_page_mask W)"
    obtain r1 e s1 where entry: "(case en of Some e \<Rightarrow> Some ((0, e), s)
      | None \<Rightarrow> ai_read_entry E C (pde_system f) (pde_pte_base_addr f + i * 8) s) = Some ((r1, e), s1)"
      using body by (auto simp: bind_eq_Some_conv simp del: option.case)
    note body = body [unfolded entry bind.bind_lunit prod.case Let_def]
    show "page_mask_ok (aw_page_mask (snd (fst r)))"
    proof (cases "r1 < 0")
      case True
      then show ?thesis using body W by auto
    next
      case False
      then obtain ip where ip: "gfx_ip (fst s1) = Some ip" using body by (auto simp: bind_eq_Some_conv)
      note body = body [unfolded ip bind.bind_lunit if_not_P [OF False]]
      show ?thesis
      proof (cases "pte_goes_further (ip_maj ip) (decode_pte_entry (fst s1) e)")
        case True
        then obtain j pg where fi: "further_index (aw_frag W) (further_table (fst s1) C (ip_maj ip) cur w f e) a = Some (j, pg)"
          using body by (auto simp: bind_eq_Some_conv)
        note body = body [unfolded if_P [OF True] fi bind.bind_lunit prod.case]
        show ?thesis using IH [OF body] further_index_mask [OF fi further_table_frag] by simp
      next
        case False
        then show ?thesis using body W by (cases r) (auto dest: ai_leaf_mask)
      qed
    qed
  qed
qed

lemma ai_deep_mask:
  assumes "ai_deep E C u a W s = Some ((l, W'), s')" and "page_mask_ok (aw_page_mask W)"
  shows "page_mask_ok (aw_page_mask W')"
proof -
  obtain total vm d W1 s1 where "log2_vm_size (ai_start C) (ai_end C) = Some total"
    "note_entry (ai_base C) (aw_vm W) = Some vm"
    and d: "ai_descend E C u (ai_top_shift C total) a (nat (ai_depth C)) (decode_pde_entry (fst s) (ai_base C))
       (W\<lparr>aw_vm := vm, aw_cnt := 1\<rparr>) s = Some ((d, W1), s1)"
    using assms(1) by (auto simp: ai_deep_def bind_eq_Some_conv Let_def)
  note step = assms(1) [unfolded ai_deep_def Let_def this bind.bind_lunit prod.case]
  have "page_mask_ok (aw_page_mask W1)" using ai_descend_mask [OF d] assms(2) by simp
  then show ?thesis using step by (cases d) (auto simp: bind_eq_Some_conv dest: ai_tables_mask)
qed

lemma ai_flat_mask:
  assumes "ai_flat E C u a W s = Some ((l, W'), s')"
  shows "page_mask_ok (aw_page_mask W')"
proof -
  let ?f = "decode_pde_entry (fst s) (ai_base C)"
  obtain vm pg where n: "note_entry (ai_base C) (aw_vm W) = Some vm"
    and pg: "shl64 1 (uint (12 + (ucast (pde_frag_size ?f) :: u32))) = Some pg"
    using assms by (auto simp: ai_flat_def bind_eq_Some_conv Let_def)
  have ok: "page_mask_ok (pg - 1)" using shl64_page_ok pg by blast
  note step = assms [unfolded ai_flat_def Let_def n pg bind.bind_lunit]
  show ?thesis
  proof (cases "pde_valid ?f = 0")
    case True
    then show ?thesis using step ok by auto
  next
    case False
    note step = step [unfolded if_not_P [OF False]]
    then obtain i r e s1 where "shr64 a (uint (12 + (ucast (pde_frag_size ?f) :: u32))) = Some i"
      "(if pde_system ?f = 0 then read_entry E (pde_pte_base_addr ?f + i * 8) s
          else do {
            ((r, bs), s) \<leftarrow> access_sram (env_funcs E) (pde_pte_base_addr ?f + i * 8) (replicate 8 0) False s;
            Some ((r, of_le64 bs), s) }) = Some ((r, e), s1)"
      by (auto simp: bind_eq_Some_conv simp del: split_paired_Ex split del: if_split)
    note step = step [unfolded this bind.bind_lunit prod.case]
    show ?thesis
      by (cases "r < 0"; cases "u \<and> pte_valid (decode_pte_entry (fst s1) e) = 0")
        (use step ok in \<open>auto simp: bind_eq_Some_conv\<close>)
  qed
qed

lemma ai_page_chunk:
  assumes "ai_page E C w c a n dst bytes s = Some (Page_done k c' bytes', s')"
  shows "\<exists>j \<le> 43. \<exists>start. k = chunk_size (mask j) start n"
proof -
  let ?W = "\<lparr>aw_frag = fst c, aw_ptb_mask = mask 9, aw_page_mask = mask 12, aw_cnt = 0, aw_vm = snd c\<rparr>"
  obtain l W1 s1 where l: "(if ai_depth C \<ge> 1 then ai_deep E C (dst \<noteq> 0) a ?W s else ai_flat E C (dst \<noteq> 0) a ?W s) =
      Some ((l, W1), s1)"
    using assms by (auto simp: ai_page_def bind_eq_Some_conv Let_def)
  have "page_mask_ok (mask 12)" unfolding page_mask_ok_def by (rule exI [of _ 12]) simp
  then have "page_mask_ok (aw_page_mask W1)"
    using l ai_deep_mask [of E C "dst \<noteq> 0" a ?W s l W1 s1] ai_flat_mask [of E C "dst \<noteq> 0" a ?W s l W1 s1]
    by (simp split: if_splits)
  then obtain j where j: "j \<le> 43" "aw_page_mask W1 = mask j" by (auto simp: page_mask_ok_def)
  note step = assms [unfolded ai_page_def Let_def l bind.bind_lunit prod.case]
  show ?thesis
  proof (cases l)
    case Leaf_fail
    then show ?thesis using step by simp
  next
    case (Leaf_page t st)
    then have "k = chunk_size (mask j) st n"
      by (cases "pte_valid t \<noteq> 0 \<and> dst \<noteq> 0"; cases "pte_system t \<noteq> 0"; cases "in_agp C st")
        (use step j(2) in \<open>auto dest: page_data_done\<close>)
    then show ?thesis using j(1) by blast
  qed
qed

interpretation ai: page_handler "ai_page E C w" for E C w
proof unfold_locales
  fix c a n dst bytes s k c' bytes' s'
  assume "ai_page E C w c a n dst bytes s = Some (Page_done k c' bytes', s')"
  from ai_page_chunk [OF this] obtain j start where "j \<le> 43" and k: "k = chunk_size (mask j) start n" by blast
  then have "j \<le> 62" by simp
  from chunk_size_bounds(1,2) [OF this] show "n \<noteq> 0 \<Longrightarrow> k \<noteq> 0" and "unat k \<le> unat n" unfolding k by simp_all
qed

text \<open>The page loop of GFX9 and later never stalls and never leaves the range: whatever the tables
  hold, a page that is handled takes at least one and at most all of the remaining
  bytes.\<close>

theorem ai_page_progress:
  assumes "ai_page E C w c a n dst bytes s = Some (Page_done k c' bytes', s')" and "n \<noteq> 0"
  shows "0 < unat k \<and> unat k \<le> unat n"
  using ai.progress [OF assms] ai.within [OF assms(1)] by (simp add: unat_gt_0)

theorem ai_page_progress_witness:
  "\<exists>k c' b s'. ai_page quiet_env (zero_context\<lparr>ai_base := 1\<rparr>) False (0, None) 0xFFC 8 0 [] (demo_dev, ()) =
     Some (Page_done k c' b, s') \<and> 0 < unat k \<and> unat k \<le> 8"
proof -
  let ?p = "ai_page quiet_env (zero_context\<lparr>ai_base := 1\<rparr>) False (0, None) 0xFFC 8 0 [] (demo_dev, ())"
  have "case ?p of Some (Page_done k c b, s) \<Rightarrow> True | _ \<Rightarrow> False" by code_simp
  then obtain k c b s where p: "?p = Some (Page_done k c b, s)"
    by (auto split: option.splits prod.splits page_result.splits)
  from ai_page_progress [OF p] have "0 < unat k \<and> unat k \<le> 8" by simp
  with p show ?thesis by blast
qed

subsection \<open>The offset into a page behind a further entry\<close>

text \<open>Behind a table entry that points to a further table, only the lowest 12 bits of the address
  reach the physical address, whatever the size of the page: two addresses of the same
  large page that agree in those bits translate to the same place.\<close>

theorem further_offset_truncated:
  assumes "address AND 0xFFF = address' AND 0xFFF"
  shows "ai_leaf_page F C use_dst address 0 False True e t W s = ai_leaf_page F C use_dst address' 0 False True e t W s"
proof -
  have "offset_mask C 0 False True (aw_frag W) = Some 0xFFF" by (simp add: offset_mask_def shl64_def)
  then show ?thesis using assms unfolding ai_leaf_page_def by (simp only: bind.bind_lunit)
qed

theorem further_offset_truncated_witness:
  "ai_leaf_page harness_funcs zero_context True 0x1004 0 False True 1 (zero_pte\<lparr>pte_valid := 1\<rparr>)
     \<lparr>aw_frag = 4, aw_ptb_mask = 0, aw_page_mask = 0xFFFF, aw_cnt = 2, aw_vm = None\<rparr> (demo_dev, demo_tables) =
   ai_leaf_page harness_funcs zero_context True 0xF004 0 False True 1 (zero_pte\<lparr>pte_valid := 1\<rparr>)
     \<lparr>aw_frag = 4, aw_ptb_mask = 0, aw_page_mask = 0xFFFF, aw_cnt = 2, aw_vm = None\<rparr> (demo_dev, demo_tables)"
  by (rule further_offset_truncated) simp

subsection \<open>The walk refines a radix tree over the contents of memory\<close>

text \<open>The word of an entry, in system or in video memory.\<close>

definition ai_word :: "umr_test_harness \<Rightarrow> u64 \<Rightarrow> u64 \<Rightarrow> u64" where
  "ai_word th sys a = (if sys = 0 then mem64 (th_vram th) a else mem64 (th_sysram th) a)"

definition ai_readable :: "umr_test_harness \<Rightarrow> u64 \<Rightarrow> u64 \<Rightarrow> bool" where
  "ai_readable th sys a \<longleftrightarrow> (if sys = 0 then readable (th_vram th) a else blocks_mapped (th_sysram th) a 8)"

lemma ai_read_entry_harness:
  assumes "on_harness E s" and "\<not> ai_zfb C" and "ai_readable (snd s) sys a"
  shows "ai_read_entry E C sys a s = Some ((0, ai_word (snd s) sys a), s)"
proof (cases "sys = 0")
  case True
  then show ?thesis using assms read_entry_harness [OF assms(1), of a]
    by (simp add: ai_read_entry_def in_agp_def ai_readable_def ai_word_def)
next
  case False
  then have "blocks_mapped (th_sysram (snd s)) a (length (replicate 8 (0 :: u8)))"
    using assms(3) by (simp add: ai_readable_def)
  from th_sram.mem_read [OF this] show ?thesis
    using False assms(1) by (simp add: ai_read_entry_def ai_word_def mem64_def on_harness_def harness_funcs_def)
qed

text \<open>
  The indices of an address: nine bits per level above the table, counted from the 21 bits
  and the block size that a table covers.
\<close>

definition ai_level_shift :: "ai_context \<Rightarrow> nat \<Rightarrow> nat" where
  "ai_level_shift C lev = 9 * (lev - 1) + 21 + unat (ai_block_size C)"

definition ai_level_index :: "ai_context \<Rightarrow> u64 \<Rightarrow> nat \<Rightarrow> u64" where
  "ai_level_index C a lev =
     (if int lev = ai_depth C then drop_bit (ai_level_shift C lev) a else drop_bit (ai_level_shift C lev) a AND 511)"

text \<open>
  Following valid directory entries without the P bit from level \<open>lev\<close> down to the table.
\<close>

fun ai_directory :: "ai_context \<Rightarrow> umr_asic \<Rightarrow> umr_test_harness \<Rightarrow> u64 \<Rightarrow> nat \<Rightarrow> pde_fields \<Rightarrow> pde_fields option" where
  "ai_directory C asic th a 0 f = Some f"
| "ai_directory C asic th a (Suc d) f =
     (let p = pde_pte_base_addr f + ai_level_index C a (Suc d) * 8;
          g = decode_pde_entry asic (ai_word th (pde_system f) p) in
      if ai_readable th (pde_system f) p \<and> pde_pte g = 0 \<and> pde_valid g \<noteq> 0
      then ai_directory C asic th a d (rebase C g) else None)"

definition ai_entry_index :: "ai_context \<Rightarrow> u64 \<Rightarrow> nat \<Rightarrow> u64" where
  "ai_entry_index C a frag = drop_bit (12 + frag) a AND mask (9 + unat (ai_block_size C) - frag)"

text \<open>The contexts whose index arithmetic stays inside 64 bits.\<close>

definition ai_sane :: "ai_context \<Rightarrow> bool" where
  "ai_sane C \<longleftrightarrow> 1 \<le> ai_depth C \<and> ai_depth C \<le> 7 \<and> ai_level_shift C (nat (ai_depth C)) < 64 \<and> \<not> ai_zfb C"

lemma sint_u32_small: "- 1000 \<le> x \<Longrightarrow> x < 1000 \<Longrightarrow> sint (word_of_int x :: u32) = x"
  by (simp add: signed_of_int signed_take_bit_int_eq_self)

lemma ai_top_shift_eq:
  assumes "ai_sane C" and "tot \<le> 63"
  shows "ai_top_shift C tot = int (ai_level_shift C (nat (ai_depth C)))"
proof -
  define d b where "d = nat (ai_depth C)" and "b = unat (ai_block_size C)"
  have d: "ai_depth C = int d" "1 \<le> d" "d \<le> 7" and sh: "9 * (d - 1) + 21 + b < 64"
    using assms(1) by (auto simp: ai_sane_def ai_level_shift_def d_def b_def)
  have bs: "ai_block_size C = word_of_int (int b)" by (simp add: b_def)
  have low: "(ucast (word_of_int x :: u64) :: u32) = word_of_int x" for x
    by (rule bit_word_eqI) (simp add: bit_simps)
  let ?x = "int tot - 9 * (int d - 1) - (int b + 21)"
  have "(word_of_int (int tot - 9 * (ai_depth C - 1)) - (ai_block_size C + 21) :: u64) = word_of_int ?x"
    unfolding d bs by simp
  then have "sint (ucast (word_of_int (int tot - 9 * (ai_depth C - 1)) - (ai_block_size C + 21) :: u64) :: u32) =
      sint (word_of_int ?x :: u32)"
    by (simp only: low)
  also have "\<dots> = ?x"
  proof -
    have "b < 64" using sh by linarith
    then have "- 1000 \<le> ?x" using d(3) by presburger
    moreover have "?x < 1000" using d(2) assms(2) by presburger
    ultimately show ?thesis by (rule sint_u32_small)
  qed
  finally have t: "ai_top_shift C tot = 9 * (int d - 1) + int b + 21" unfolding ai_top_shift_def by (simp only:)
  have "int (9 * (d - 1) + 21 + b) = 9 * (int d - 1) + int b + 21" using d(2) by (simp add: of_nat_diff)
  then show ?thesis unfolding t ai_level_shift_def d_def [symmetric] b_def [symmetric] by simp
qed

lemma shr64_level:
  assumes "ai_sane C" and "tot \<le> 63" and "0 < lev" and "int lev \<le> ai_depth C"
  shows "shr64 a (ai_top_shift C tot - (ai_depth C - int lev) * 9) = Some (drop_bit (ai_level_shift C lev) a)"
proof -
  obtain d where d: "ai_depth C = int d" "lev \<le> d" using assms(1,4) by (metis ai_sane_def int_nat_eq nat_int_comparison(3) nonneg_int_cases order_trans zero_le_one)
  have "ai_top_shift C tot - (ai_depth C - int lev) * 9 = int (ai_level_shift C lev)"
    using ai_top_shift_eq [OF assms(1,2)] assms(3) d by (simp add: ai_level_shift_def of_nat_diff)
  moreover have "ai_level_shift C lev < 64" 
  proof -
    have "9 * (lev - 1) \<le> 9 * (d - 1)" using d by simp
    moreover have "9 * (d - 1) + 21 + unat (ai_block_size C) < 64"
      using assms(1) d by (simp add: ai_sane_def ai_level_shift_def)
    ultimately show ?thesis unfolding ai_level_shift_def by linarith
  qed
  ultimately show ?thesis using shl64_int(2) by simp
qed

lemma pde0_masks_eq:
  assumes "unat (pde_frag_size f) \<le> 9 + unat (ai_block_size C)" and "unat (pde_frag_size f) \<le> 31" and "unat (ai_block_size C) < 50"
  shows "pde0_masks C f W = Some (W\<lparr>aw_frag := ucast (pde_frag_size f),
    aw_ptb_mask := mask (9 + unat (ai_block_size C) - unat (pde_frag_size f)), aw_page_mask := mask (12 + unat (pde_frag_size f))\<rparr>)"
proof -
  let ?k = "unat (pde_frag_size f)" and ?b = "unat (ai_block_size C)"
  have uf: "unat (ucast (pde_frag_size f) :: u32) = ?k"
    using assms(2) by (simp add: unsigned_ucast_eq take_bit_nat_eq_self)
  have uu: "(ucast (ucast (pde_frag_size f) :: u32) :: u64) = pde_frag_size f"
    by (simp add: word_unat_eq_iff unat_ucast_u32 uf)
  have "unat (9 + (ai_block_size C - pde_frag_size f)) = 9 + ?b - ?k"
  proof -
    have "9 + (ai_block_size C - pde_frag_size f) = (9 + ai_block_size C) - pde_frag_size f" by simp
    moreover have "unat (9 + ai_block_size C) = 9 + ?b" using assms(3) by (subst unat_add_no_wrap) simp_all
    ultimately show ?thesis using assms(1) unat_sub [of "pde_frag_size f" "9 + ai_block_size C"]
      by (simp only: word_le_nat_alt)
  qed
  then have i: "uint (9 + (ai_block_size C - pde_frag_size f)) = int (9 + ?b - ?k)" by (simp only: uint_nat)
  have "9 + ?b - ?k < 64" using assms(3) by simp
  then have "shl64 1 (uint (9 + (ai_block_size C - pde_frag_size f))) = Some (2 ^ (9 + ?b - ?k))"
    unfolding i using shl64_int(1) [of _ 1] by (simp only: push_bit_of_1)
  moreover have "shl64 1 (uint ((ucast (pde_frag_size f) :: u32) + 12)) = Some (2 ^ (?k + 12))"
    using shl64_page(1) [of "ucast (pde_frag_size f)"] uf assms(2) by simp
  ultimately show ?thesis by (simp add: pde0_masks_def Let_def uu mask_eq_exp_minus_1 add.commute)
qed

lemma rebase_simps [simp]:
  "pde_frag_size (rebase C f) = pde_frag_size f" "pde_system (rebase C f) = pde_system f"
  by (simp_all add: rebase_def)

lemma note_pde_None [simp]: "note_pde e f None = Some None" "note_entry e None = Some None"
  by (simp_all add: note_pde_def note_entry_def)

lemma ai_dir_step_harness:
  assumes "on_harness E s" and "ai_sane C" and "tot \<le> 63" and "int (Suc d) \<le> ai_depth C"
    and "aw_vm W = None" and "aw_cnt W < 8"
    and "p = pde_pte_base_addr f + ai_level_index C a (Suc d) * 8" and "ai_readable (snd s) (pde_system f) p"
    and "g = decode_pde_entry (fst s) (ai_word (snd s) (pde_system f) p)" and "pde_pte g = 0" and "pde_valid g \<noteq> 0"
    and "(if d = 0 then pde0_masks C g W else Some W) = Some W1" and "aw_vm W1 = None" and "aw_cnt W1 = aw_cnt W"
  shows "ai_dir_step E C u (ai_top_shift C tot) a (Suc d) f W s =
    Some ((Inr (rebase C g), W1\<lparr>aw_cnt := aw_cnt W + 1\<rparr>), s)"
proof -
  have i: "(if int (Suc d) \<noteq> ai_depth C then drop_bit (ai_level_shift C (Suc d)) a AND 511
      else drop_bit (ai_level_shift C (Suc d)) a) = ai_level_index C a (Suc d)"
    by (simp add: ai_level_index_def)
  have sh: "shr64 a (ai_top_shift C tot - (ai_depth C - int (Suc d)) * 9) = Some (drop_bit (ai_level_shift C (Suc d)) a)"
    using shr64_level [OF assms(2,3) _ assms(4)] by simp
  have z: "\<not> ai_zfb C" using assms(2) by (simp add: ai_sane_def)
  have r: "ai_read_entry E C (pde_system f) (pde_pte_base_addr f + ai_level_index C a (Suc d) * 8) s =
      Some ((0, ai_word (snd s) (pde_system f) p), s)"
    using ai_read_entry_harness [OF assms(1) z assms(8)] assms(7) by simp
  have c: "(Suc d = 1) = (d = 0)" by simp
  show ?thesis
    unfolding ai_dir_step_def sh bind.bind_lunit Let_def i r prod.case assms(9) [symmetric] c assms(12)
    using assms(5,6,10,11,13,14) by simp
qed

definition with_masks :: "ai_context \<Rightarrow> pde_fields \<Rightarrow> ai_walk \<Rightarrow> ai_walk" where
  "with_masks C g W = W\<lparr>aw_frag := ucast (pde_frag_size g),
     aw_ptb_mask := mask (9 + unat (ai_block_size C) - unat (pde_frag_size g)),
     aw_page_mask := mask (12 + unat (pde_frag_size g))\<rparr>"

lemma ai_sane_block: "ai_sane C \<Longrightarrow> unat (ai_block_size C) < 43"
  by (simp add: ai_sane_def ai_level_shift_def)

lemma ai_directory_frag:
  "ai_directory C asic th a d f = Some g \<Longrightarrow> d \<noteq> 0 \<or> unat (pde_frag_size f) \<le> 31 \<Longrightarrow> unat (pde_frag_size g) \<le> 31"
proof (induction d arbitrary: f)
  case (Suc d)
  have "unat (pde_frag_size (decode_pde_entry asic e)) \<le> 31" for e
    using pde_frag_size_bound [of asic e] by (simp add: word_le_nat_alt)
  then show ?case using Suc by (auto simp: Let_def split: if_splits)
qed simp

lemma ai_descend_harness:
  assumes "on_harness E s" and sane: "ai_sane C" and "tot \<le> 63" and frag: "unat (pde_frag_size g) \<le> 9 + unat (ai_block_size C)"
  shows "ai_directory C (fst s) (snd s) a (Suc d) f = Some g \<Longrightarrow> int (Suc d) \<le> ai_depth C \<Longrightarrow> aw_vm W = None \<Longrightarrow>
    aw_cnt W + Suc d \<le> 8 \<Longrightarrow>
    ai_descend E C u (ai_top_shift C tot) a (Suc d) f W s =
      Some ((Pde_table g, (with_masks C g W)\<lparr>aw_cnt := aw_cnt W + Suc d\<rparr>), s)"
proof (induction d arbitrary: f W)
  case 0
  let ?p = "pde_pte_base_addr f + ai_level_index C a 1 * 8"
  let ?g = "decode_pde_entry (fst s) (ai_word (snd s) (pde_system f) ?p)"
  have g: "g = rebase C ?g" "ai_readable (snd s) (pde_system f) ?p" "pde_pte ?g = 0" "pde_valid ?g \<noteq> 0"
    using "0.prems"(1) by (auto simp: Let_def split: if_splits)
  have "unat (pde_frag_size ?g) \<le> 31" using pde_frag_size_bound by (simp add: word_le_nat_alt)
  then have "pde0_masks C ?g W = Some (with_masks C g W)"
    using pde0_masks_eq [of ?g C W] frag ai_sane_block [OF sane] g(1) by (simp add: with_masks_def)
  then have "ai_dir_step E C u (ai_top_shift C tot) a (Suc 0) f W s =
      Some ((Inr (rebase C ?g), (with_masks C g W)\<lparr>aw_cnt := aw_cnt W + 1\<rparr>), s)"
    using ai_dir_step_harness [OF assms(1-3) "0.prems"(2,3) _ _ g(2) refl g(3,4), where ?W1.0 = "with_masks C g W" and u = u] "0.prems"(3,4)
    by (simp add: with_masks_def)
  then show ?case using g(1) by simp
next
  case (Suc d)
  let ?p = "pde_pte_base_addr f + ai_level_index C a (Suc (Suc d)) * 8"
  let ?g = "decode_pde_entry (fst s) (ai_word (snd s) (pde_system f) ?p)"
  have g: "ai_directory C (fst s) (snd s) a (Suc d) (rebase C ?g) = Some g" "ai_readable (snd s) (pde_system f) ?p"
    "pde_pte ?g = 0" "pde_valid ?g \<noteq> 0"
    using Suc.prems(1) unfolding ai_directory.simps(2) [of C "fst s" "snd s" a "Suc d" f] Let_def by (simp_all split: if_splits)
  have "ai_dir_step E C u (ai_top_shift C tot) a (Suc (Suc d)) f W s =
      Some ((Inr (rebase C ?g), W\<lparr>aw_cnt := aw_cnt W + 1\<rparr>), s)"
    using ai_dir_step_harness [OF assms(1-3) Suc.prems(2,3) _ refl g(2) refl g(3,4), where ?W1.0 = W and u = u] Suc.prems(3,4) by simp
  moreover have "ai_descend E C u (ai_top_shift C tot) a (Suc d) (rebase C ?g) (W\<lparr>aw_cnt := aw_cnt W + 1\<rparr>) s =
      Some ((Pde_table g, (with_masks C g (W\<lparr>aw_cnt := aw_cnt W + 1\<rparr>))\<lparr>aw_cnt := aw_cnt W + 1 + Suc d\<rparr>), s)"
    using Suc.IH [OF g(1), of "W\<lparr>aw_cnt := aw_cnt W + 1\<rparr>"] Suc.prems(2-4) by simp
  ultimately show ?case
    unfolding ai_descend.simps(2) [of E C u _ a "Suc d"] by (simp add: with_masks_def)
qed

text \<open>The translation of an address: the memory, the physical address and the fragment size.\<close>

definition ai_translate :: "ai_context \<Rightarrow> umr_asic \<Rightarrow> umr_test_harness \<Rightarrow> u64 \<Rightarrow> (bool \<times> u64 \<times> nat) option" where
  "ai_translate C asic th a = do {
     g \<leftarrow> ai_directory C asic th a (nat (ai_depth C)) (decode_pde_entry asic (ai_base C));
     let k = unat (pde_frag_size g);
     let p = pde_pte_base_addr g + ai_entry_index C a k * 8;
     let t = decode_pte_entry asic (ai_word th (pde_system g) p);
     ip \<leftarrow> gfx_ip asic;
     if k \<le> 9 + unat (ai_block_size C) \<and> ai_readable th (pde_system g) p \<and>
        \<not> pte_goes_further (ip_maj ip) t \<and> pte_valid t \<noteq> 0
     then Some (pte_system t \<noteq> 0,
       pte_page_base_addr t - (if pte_system t = 0 then ai_fb_offset C else 0) + (a AND mask (12 + k)), k)
     else None }"

lemma ai_deep_harness:
  assumes "on_harness E s" and sane: "ai_sane C" and size: "log2_vm_size (ai_start C) (ai_end C) \<noteq> None"
    and tr: "ai_translate C (fst s) (snd s) a = Some (sys, st, k)" and vm: "aw_vm W = None"
  shows "\<exists>t W'. ai_deep E C True a W s = Some ((Leaf_page t st, W'), s) \<and> pte_valid t \<noteq> 0 \<and>
    (pte_system t \<noteq> 0) = sys \<and> aw_page_mask W' = mask (12 + k) \<and> aw_vm W' = None \<and> k \<le> 31"
proof -
  obtain tot where tot: "log2_vm_size (ai_start C) (ai_end C) = Some tot" and le: "tot \<le> 63"
    using size log2_vm_size_le by blast
  obtain g ip where dir: "ai_directory C (fst s) (snd s) a (nat (ai_depth C)) (decode_pde_entry (fst s) (ai_base C)) = Some g"
    and ip: "gfx_ip (fst s) = Some ip"
    using tr by (auto simp: ai_translate_def bind_eq_Some_conv Let_def)
  let ?p = "pde_pte_base_addr g + ai_entry_index C a (unat (pde_frag_size g)) * 8"
  let ?e = "ai_word (snd s) (pde_system g) ?p"
  let ?t = "decode_pte_entry (fst s) ?e"
  have k: "k = unat (pde_frag_size g)" and kb: "unat (pde_frag_size g) \<le> 9 + unat (ai_block_size C)"
    and rd: "ai_readable (snd s) (pde_system g) ?p" and nf: "\<not> pte_goes_further (ip_maj ip) ?t"
    and valid: "pte_valid ?t \<noteq> 0" and sys: "sys = (pte_system ?t \<noteq> 0)"
    and st: "st = pte_page_base_addr ?t - (if pte_system ?t = 0 then ai_fb_offset C else 0) + (a AND mask (12 + unat (pde_frag_size g)))"
    using tr by (auto simp: ai_translate_def dir ip Let_def split: if_splits)
  obtain d where d: "nat (ai_depth C) = Suc d" "int (Suc d) \<le> ai_depth C" "Suc d \<le> 7"
    using sane by (cases "nat (ai_depth C)") (auto simp: ai_sane_def)
  have k31: "unat (pde_frag_size g) \<le> 31" using ai_directory_frag [OF dir] d(1) by simp
  let ?W = "(with_masks C g (W\<lparr>aw_vm := None, aw_cnt := 1\<rparr>))\<lparr>aw_cnt := 1 + Suc d\<rparr>"
  have desc: "ai_descend E C True (ai_top_shift C tot) a (nat (ai_depth C)) (decode_pde_entry (fst s) (ai_base C))
      (W\<lparr>aw_vm := None, aw_cnt := 1\<rparr>) s = Some ((Pde_table g, ?W), s)"
    using ai_descend_harness [OF assms(1) sane le kb, of a d "decode_pde_entry (fst s) (ai_base C)"
        "W\<lparr>aw_vm := None, aw_cnt := 1\<rparr>" True] dir d by simp
  have frag: "unat (ucast (pde_frag_size g) :: u32) = unat (pde_frag_size g)"
    using k31 by (simp add: unsigned_ucast_eq take_bit_nat_eq_self)
  have "unat (12 + (ucast (pde_frag_size g) :: u32)) = 12 + unat (pde_frag_size g)"
    using k31 frag by (subst unat_add_no_wrap) simp_all
  then have "uint (12 + (ucast (pde_frag_size g) :: u32)) = int (12 + unat (pde_frag_size g))" by (simp only: uint_nat)
  then have sh: "shr64 a (uint (12 + aw_frag ?W)) = Some (drop_bit (12 + unat (pde_frag_size g)) a)"
    using shl64_int(2) [of "12 + unat (pde_frag_size g)" a] k31 by (simp add: with_masks_def)
  have idx: "drop_bit (12 + unat (pde_frag_size g)) a AND aw_ptb_mask ?W = ai_entry_index C a (unat (pde_frag_size g))"
    by (simp add: ai_entry_index_def with_masks_def)
  have z: "\<not> ai_zfb C" using sane by (simp add: ai_sane_def)
  have om: "offset_mask C 0 False False (aw_frag ?W) = Some (mask (12 + unat (pde_frag_size g)))"
    using shl64_page(2) [of "ucast (pde_frag_size g)"] k31 frag
    by (simp add: offset_mask_def with_masks_def mask_eq_exp_minus_1 add.commute)
  define t where "t = (if pte_system ?t = 0 then ?t\<lparr>pte_page_base_addr := pte_page_base_addr ?t - ai_fb_offset C\<rparr> else ?t)"
  have bus: "gpu_bus_to_cpu_address (env_funcs E) = th_gpu_bus_to_cpu_address"
    using assms(1) by (simp add: on_harness_def harness_funcs_def)
  have leaf: "ai_leaf_page (env_funcs E) C True a 0 False False ?e ?t ?W s = Some ((Leaf_page t st, ?W), s)"
    unfolding ai_leaf_page_def Let_def om bus th_gpu_bus_to_cpu_address_def t_def [symmetric]
    using valid st by (auto simp: t_def with_masks_def)
  have tab: "ai_tables E C True a 0 False False g None (ai_entry_index C a (unat (pde_frag_size g))) ?W s =
      Some ((Leaf_page t st, ?W), s)"
    by (subst ai_tables.simps)
      (simp only: option.case ai_read_entry_harness [OF assms(1) z rd] bind.bind_lunit prod.case ip Let_def nf if_False
        order_less_irrefl leaf)
  have "ai_deep E C True a W s = Some ((Leaf_page t st, ?W), s)"
    unfolding ai_deep_def Let_def tot bind.bind_lunit vm note_pde_None desc prod.case ai_pde.case sh idx tab ..
  moreover have "pte_valid t \<noteq> 0" "(pte_system t \<noteq> 0) = sys" using valid sys by (simp_all add: t_def)
  ultimately show ?thesis using k k31 by (auto simp: with_masks_def)
qed

definition ai_start_of :: "ai_context \<Rightarrow> umr_asic \<Rightarrow> umr_test_harness \<Rightarrow> u64 \<Rightarrow> u64 \<times> u64" where
  "ai_start_of C asic th a =
     (case ai_translate C asic th a of Some (sys, st, k) \<Rightarrow> (st, mask (12 + k)) | None \<Rightarrow> (0, mask 12))"

definition ai_bytes :: "ai_context \<Rightarrow> umr_asic \<Rightarrow> umr_test_harness \<Rightarrow> u64 \<Rightarrow> u64 \<Rightarrow> nat \<Rightarrow> u8 list" where
  "ai_bytes C asic th a st k =
     (case ai_translate C asic th a of
        Some (True, _) \<Rightarrow> blocks_peek (th_sysram th) st k
      | _ \<Rightarrow> blocks_peek (th_vram th) st k)"

definition ai_good :: "ai_context \<Rightarrow> umr_asic \<Rightarrow> umr_test_harness \<Rightarrow> u64 \<times> u64 \<times> u32 \<Rightarrow> bool" where
  "ai_good C asic th = (\<lambda>(a, st, k).
     k AND 3 = 0 \<and>
     (case ai_translate C asic th a of
        None \<Rightarrow> False
      | Some (sys, st', _) \<Rightarrow> st = st' \<and>
          (if sys then blocks_mapped (th_sysram th) st (unat k)
           else st AND 3 = 0 \<and> blocks_mapped (th_vram th) st (unat k))))"

lemma ai_page_harness:
  assumes "on_harness E s" and sane: "ai_sane C" and size: "log2_vm_size (ai_start C) (ai_end C) \<noteq> None"
    and tr: "ai_translate C (fst s) (snd s) a = Some (sys, st, f)" and k: "k = chunk_size (mask (12 + f)) st n"
    and "dst \<noteq> 0" "dst AND 3 = 0" "k AND 3 = 0" "length bytes = unat n" "snd c = None"
    and tgt: "if sys then blocks_mapped (th_sysram (snd s)) st (unat k)
         else st AND 3 = 0 \<and> blocks_mapped (th_vram (snd s)) st (unat k)"
  shows "\<exists>c'. snd c' = None \<and> ai_page E C False c a n dst bytes s =
    Some (Page_done k c' (blocks_peek (if sys then th_sysram (snd s) else th_vram (snd s)) st (unat k) @ drop (unat k) bytes), s)"
proof -
  let ?W = "\<lparr>aw_frag = fst c, aw_ptb_mask = mask 9, aw_page_mask = mask 12, aw_cnt = 0, aw_vm = snd c\<rparr>"
  obtain t W' where d: "ai_deep E C True a ?W s = Some ((Leaf_page t st, W'), s)" "pte_valid t \<noteq> 0"
    "(pte_system t \<noteq> 0) = sys" "aw_page_mask W' = mask (12 + f)" "aw_vm W' = None" "f \<le> 31"
    using ai_deep_harness [OF assms(1) sane size tr, of ?W] assms(10) by auto
  have "12 + f \<le> 62" using d(6) by simp
  from chunk_size_bounds(1) [OF this, of st n] have "unat k \<le> length bytes" using k assms(9) by simp
  note data = page_data_harness [OF assms(1,8,7) this tgt, of "(aw_frag W', None)"]
  have depth: "ai_depth C \<ge> 1" and z: "\<not> in_agp C st" using sane by (auto simp: ai_sane_def in_agp_def)
  have dst: "(dst \<noteq> 0) = True" using assms(6) by simp
  have vm: "note_target v C t st None = None" "reset_pagewalk None = None" for v
    by (simp_all add: note_target_def reset_pagewalk_def)
  show ?thesis
    unfolding ai_page_def Let_def if_P [OF depth] dst d(1,4,5) bind.bind_lunit prod.case ai_leaf.case vm k [symmetric]
    using d(2,3) z data by (cases sys) auto
qed

interpretation ai_th: page_reader "ai_page E C False" "ai_start_of C (fst s) (snd s)" "ai_bytes C (fst s) (snd s)"
  "\<lambda>p. on_harness E s \<and> ai_sane C \<and> log2_vm_size (ai_start C) (ai_end C) \<noteq> None \<and> ai_good C (fst s) (snd s) p"
  "\<lambda>c. snd c = None" s for E C s
proof unfold_locales
  fix dst a st m :: u64 and n k :: u32 and bytes :: "u8 list" and c :: "u32 \<times> umr_vm_pagewalk option"
  assume c: "snd c = None" and dst: "dst \<noteq> 0" "dst AND 3 = 0" and len: "length bytes = unat n"
    and tr: "ai_start_of C (fst s) (snd s) a = (st, m)" and k: "k = chunk_size m st n"
    and good: "on_harness E s \<and> ai_sane C \<and> log2_vm_size (ai_start C) (ai_end C) \<noteq> None \<and> ai_good C (fst s) (snd s) (a, st, k)"
  then obtain sys f where t: "ai_translate C (fst s) (snd s) a = Some (sys, st, f)" and k3: "k AND 3 = 0"
    and tgt: "if sys then blocks_mapped (th_sysram (snd s)) st (unat k)
         else st AND 3 = 0 \<and> blocks_mapped (th_vram (snd s)) st (unat k)"
    by (auto simp: ai_good_def split: option.splits if_splits)
  have m: "k = chunk_size (mask (12 + f)) st n" using tr t k by (simp add: ai_start_of_def)
  have b: "ai_bytes C (fst s) (snd s) a st (unat k) = blocks_peek (if sys then th_sysram (snd s) else th_vram (snd s)) st (unat k)"
    by (cases sys) (simp_all add: ai_bytes_def t)
  show "\<exists>c'. snd c' = None \<and> ai_page E C False c a n dst bytes s =
      Some (Page_done k c' (ai_bytes C (fst s) (snd s) a st (unat k) @ drop (unat k) bytes), s)"
    unfolding b using ai_page_harness [OF _ _ _ t m dst k3 len c tgt] good by blast
next
  fix a st k
  assume "on_harness E s \<and> ai_sane C \<and> log2_vm_size (ai_start C) (ai_end C) \<noteq> None \<and> ai_good C (fst s) (snd s) (a, st, k)"
  then show "length (ai_bytes C (fst s) (snd s) a st (unat k)) = unat k"
    by (auto simp: ai_good_def ai_bytes_def length_blocks_peek split: option.splits if_splits bool.splits)
qed (auto simp: ai_good_def)

text \<open>C22: Reading a virtual range through page directories on GFX9 and later: when every page of the
  range is mapped by valid entries, the access succeeds and delivers, page after page,
  the bytes at the physical addresses that the radix tree in memory assigns, and leaves
  the device unchanged.\<close>

theorem ai_read_range:
  assumes "on_harness E s" and "ai_sane C" and "log2_vm_size (ai_start C) (ai_end C) \<noteq> None"
    and "ai_start C \<le> address" and "address \<le> ai_end C + 0xFFF" and "(address - ai_start C) AND 3 = 0"
    and "n AND 3 = 0" and "dst AND 3 = 0" and "dst \<noteq> 0" and "unat dst + unat n < 2 ^ 64" and "length bytes = unat n"
    and "list_all (ai_good C (fst s) (snd s)) (range_pages (ai_start_of C (fst s) (snd s)) (address - ai_start C) n)"
  shows "ai_translated E C address n dst bytes False None s =
    Some ((0, concat (map (\<lambda>(a, st, k). ai_bytes C (fst s) (snd s) a st (unat k))
      (range_pages (ai_start_of C (fst s) (snd s)) (address - ai_start C) n)), None), s)"
proof -
  obtain c' where "page_loop (ai_page E C False) (0, None) (address - ai_start C) n dst bytes s =
    Some ((0, concat (map (\<lambda>(a, st, k). ai_bytes C (fst s) (snd s) a st (unat k))
      (range_pages (ai_start_of C (fst s) (snd s)) (address - ai_start C) n)), c'), s)" "snd c' = None"
    using ai_th.loop_reads [of "address - ai_start C" n dst bytes C s E "(0, None)"] assms(1-3,6-12)
    by (auto simp: list_all_iff)
  then show ?thesis using assms(4,5) by (simp add: ai_translated_def not_less)
qed

text \<open>
  A context with one level of directories: the words at 0 in video memory are directory and
  table at once, and map the first page to video and the second to system memory.
\<close>

definition demo_paging :: umr_test_harness where
  "demo_paging = fold add_line [Log_sysram 0x1000 [1, 2, 3, 4], Log_vram 0xFFC [9, 9, 9, 9],
     Log_vram 0 [1, 0, 0, 0, 0, 0, 0, 0, 3, 0x10, 0, 0, 0, 0, 0, 0]] zero_harness"

definition demo_ai_context :: ai_context where
  "demo_ai_context = zero_context\<lparr>ai_end := 0x1000, ai_depth := 1\<rparr>"

theorem ai_read_range_witness:
  "ai_translated demo_env demo_ai_context 0xFFC 8 0x100 (replicate 8 0) False None (demo_dev, demo_paging) =
     Some ((0, [9, 9, 9, 9, 1, 2, 3, 4], None), (demo_dev, demo_paging))"
proof -
  let ?C = demo_ai_context and ?s = "(demo_dev, demo_paging)"
  have ctx: "ai_start ?C = 0" "ai_end ?C = 0x1000" "ai_sane ?C"
    by (simp_all add: demo_ai_context_def zero_context_def ai_sane_def ai_level_shift_def)
  have h: "on_harness demo_env ?s" by (simp add: on_harness_def demo_env_def demo_dev_def zero_options_def)
  have l: "log2_vm_size (ai_start ?C) (ai_end ?C) \<noteq> None"
    using log2_vm_size_cases [of "0x1000" 0] by (auto simp: ctx Let_def)
  have d: "decode_pde_entry demo_dev 0 = zero_pde" "decode_pde_entry demo_dev 1 = zero_pde\<lparr>pde_valid := 1\<rparr>"
    "decode_pte_entry demo_dev 1 = zero_pte\<lparr>pte_valid := 1\<rparr>"
    "decode_pte_entry demo_dev 0x1003 = zero_pte\<lparr>pte_valid := 1, pte_system := 1, pte_page_base_addr := 0x1000\<rparr>"
    by code_simp+
  have "map_option (\<lambda>ip. ip_maj ip) (gfx_ip demo_dev) = Some 9" by code_simp
  then obtain ip where ip: "gfx_ip demo_dev = Some ip" "ip_maj ip = 9" by auto
  have w: "mem64 (th_vram demo_paging) 0 = 1" "mem64 (th_vram demo_paging) 8 = 0x1003" by code_simp+
  have m: "readable (th_vram demo_paging) 0" "readable (th_vram demo_paging) 8"
    "blocks_mapped (th_vram demo_paging) 0xFFC 4" "blocks_mapped (th_sysram demo_paging) 0x1000 4"
    by (simp_all add: demo_paging_def demo_harness_eval blocks_mapped_def block_fits_def ram_covers_def readable_def)
  have t: "ai_translate ?C demo_dev demo_paging 0xFFC = Some (False, 0xFFC, 0)"
    "ai_translate ?C demo_dev demo_paging 0x1000 = Some (True, 0x1000, 0)"
    by (simp_all add: ai_translate_def demo_ai_context_def zero_context_def d ip w m Let_def ai_word_def ai_readable_def
        zero_pde_def zero_pte_def rebase_def ai_level_index_def ai_level_shift_def ai_entry_index_def pte_goes_further_def
        mask_eq_exp_minus_1 drop_bit_eq_div)
  have p: "range_pages (ai_start_of ?C demo_dev demo_paging) (0xFFC - ai_start ?C) 8 = [(0xFFC, 0xFFC, 4), (0x1000, 0x1000, 4)]"
    by (simp add: range_pages.simps ctx ai_start_of_def t chunk_size_def mask_eq_exp_minus_1)
  have g: "list_all (ai_good ?C demo_dev demo_paging) (range_pages (ai_start_of ?C demo_dev demo_paging) (0xFFC - ai_start ?C) 8)"
    unfolding p by (simp add: ai_good_def t m)
  have b: "blocks_peek (th_vram demo_paging) 0xFFC 4 = [9, 9, 9, 9]" "blocks_peek (th_sysram demo_paging) 0x1000 4 = [1, 2, 3, 4]"
    by code_simp+
  show ?thesis
    using ai_read_range [OF h ctx(3) l, of "0xFFC" 8 "0x100" "replicate 8 0"] g ctx unfolding fst_conv snd_conv p
    by (simp add: ai_bytes_def t b)
qed

subsection \<open>Walks that do not end or overrun\<close>

text \<open>C39: Nothing bounds the chain of further tables: a table entry that points back to its own table
  makes the walk run for ever.\<close>

theorem further_cycle_hangs:
  assumes "ai_read_entry E C (pde_system f) (pde_pte_base_addr f + i * 8) s = Some ((0, e), s)"
    and "gfx_ip (fst s) = Some ip" and "pte_goes_further (ip_maj ip) (decode_pte_entry (fst s) e)"
    and "further_table (fst s) C (ip_maj ip) cur w f e = f" and "further_index (aw_frag W) f a = Some (i, pg)"
  shows "ai_tables E C u a cur w fu f None i W s = None"
proof (rule ccontr)
  assume "ai_tables E C u a cur w fu f None i W s \<noteq> None"
  then obtain r where r: "ai_tables E C u a cur w fu f None i W s = Some r" by blast
  let ?P = "\<lambda>E' C' u' a' cur' w' fu' f' en' i' W' s' r'. \<not> (u' = u \<and> E' = E \<and> C' = C \<and> a' = a \<and> cur' = cur \<and> w' = w \<and>
      f' = f \<and> en' = (None :: u64 option) \<and> i' = i \<and> aw_frag W' = aw_frag W \<and> s' = s)"
  have "?P E C u a cur w fu f None i W s r"
  proof (rule ai_tables.raw_induct [of ?P, OF _ r])
    fix h E' C' u' a' cur' w' fu' f' en' i' W' s' r'
    assume IH: "\<And>E' C' u' a' cur' w' fu' f' en' i' W' s' r'. h E' C' u' a' cur' w' fu' f' en' i' W' s' = Some r' \<Longrightarrow>
        ?P E' C' u' a' cur' w' fu' f' en' i' W' s' r'"
      and body: "do {
     ((r, e), s1) \<leftarrow> (case en' of Some e \<Rightarrow> Some ((0, e), s')
      | None \<Rightarrow> ai_read_entry E' C' (pde_system f') (pde_pte_base_addr f' + i' * 8) s');
     if r < 0 then Some ((Leaf_fail, W'), s1)
     else do {
       ip \<leftarrow> gfx_ip (fst s1);
       let t = decode_pte_entry (fst s1) e;
       if pte_goes_further (ip_maj ip) t then do {
         let g = further_table (fst s1) C' (ip_maj ip) cur' w' f' e;
         (j, pg) \<leftarrow> further_index (aw_frag W') g a';
         h E' C' u' a' cur' w' True g None j (W'\<lparr>aw_page_mask := pg, aw_cnt := aw_cnt W' + 1\<rparr>) s1 }
       else ai_leaf_page (env_funcs E') C' u' a' cur' w' fu' e t W' s1 } } = Some r'"
    show "?P E' C' u' a' cur' w' fu' f' en' i' W' s' r'"
    proof
      assume eq: "u' = u \<and> E' = E \<and> C' = C \<and> a' = a \<and> cur' = cur \<and> w' = w \<and> f' = f \<and> en' = (None :: u64 option) \<and> i' = i \<and>
          aw_frag W' = aw_frag W \<and> s' = s"
      then have "h E C u' a cur w True f None i (W'\<lparr>aw_page_mask := pg, aw_cnt := aw_cnt W' + 1\<rparr>) s = Some r'"
        using body assms by (simp add: Let_def)
      from IH [OF this] eq show False by simp
    qed
  qed
  then show False by simp
qed

text \<open>A table at \<open>0x40\<close> in video memory whose first entry is valid, has the F bit, and points to \<open>0x40\<close>.\<close>

definition demo_cycle :: umr_test_harness where
  "demo_cycle = fold add_line [Log_vram 0x40 [0x41, 0, 0, 0, 0, 0, 0, 1]] zero_harness"

theorem further_cycle_hangs_witness:
  "ai_tables demo_env zero_context True 0 0 False False (zero_pde\<lparr>pde_valid := 1, pde_further := 1, pde_pte_base_addr := 0x40\<rparr>)
     None 0 \<lparr>aw_frag = 0, aw_ptb_mask = 0, aw_page_mask = 0, aw_cnt = 0, aw_vm = None\<rparr> (demo_dev, demo_cycle) = None"
proof -
  let ?f = "zero_pde\<lparr>pde_valid := 1, pde_further := 1, pde_pte_base_addr := 0x40\<rparr>"
  have h: "on_harness demo_env (demo_dev, demo_cycle)" by (simp add: on_harness_def demo_env_def demo_dev_def zero_options_def)
  have w: "mem64 (th_vram demo_cycle) 0x40 = 0x0100000000000041" by code_simp
  have "readable (th_vram demo_cycle) 0x40"
    by (simp add: demo_cycle_def demo_harness_eval blocks_mapped_def block_fits_def ram_covers_def readable_def)
  then have r: "ai_read_entry demo_env zero_context (pde_system ?f) (pde_pte_base_addr ?f + 0 * 8) (demo_dev, demo_cycle) =
      Some ((0, 0x0100000000000041), (demo_dev, demo_cycle))"
    using ai_read_entry_harness [OF h, of zero_context 0 "0x40"]
    by (simp add: zero_context_def ai_readable_def ai_word_def w zero_pde_def)
  have "map_option (\<lambda>ip. ip_maj ip) (gfx_ip demo_dev) = Some 9" by code_simp
  then obtain ip where ip: "gfx_ip demo_dev = Some ip" "ip_maj ip = 9" by auto
  have g: "pte_goes_further 9 (decode_pte_entry demo_dev 0x0100000000000041)" by code_simp
  have t: "further_table demo_dev zero_context 9 0 False ?f 0x0100000000000041 = ?f" by code_simp
  show ?thesis
    by (rule further_cycle_hangs [OF r, of ip 0 False _ 0 "0xFFF"])
      (simp_all add: ip g t, simp add: further_index_def zero_pde_def shl64_def shr64_def)
qed

text \<open>An access through the dispatcher with an address or size that is not a multiple of four, or a
  buffer that is not aligned, fails with -1 on every hub and touches neither the device
  nor the buffer.\<close>

theorem unaligned_access_rejected:
  assumes "address AND 3 \<noteq> 0 \<or> n AND 3 \<noteq> 0 \<or> dst AND 3 \<noteq> 0"
  shows "umr_access_vram E part vmid address n dst bytes write_en vm s = Some ((- 1, bytes, reset_pagewalk vm), s)"
  using assms by (simp add: umr_access_vram_def Let_def)

theorem unaligned_access_rejected_witness:
  "umr_access_vram demo_env (- 1) 0x103 0x1002 4 0x100 [0, 0, 0, 0] False None (demo_dev, demo_harness) =
   Some ((- 1, [0, 0, 0, 0], None), (demo_dev, demo_harness))"
  using unaligned_access_rejected [of "0x1002" 4 "0x100" demo_env "- 1" "0x103" "[0, 0, 0, 0]" False None "(demo_dev, demo_harness)"]
  by (simp add: reset_pagewalk_def)

end
