(* ===== verification/Packet_Frame.thy ===== *)
theory Packet_Frame
  imports Vm_Ai
begin

unbundle bit_operations_syntax

text \<open>
  What the packet stream decoders share: buffers of words, the read of an indirect buffer
  from the memory of the GPU, and the loop that cuts a buffer into packets.  Every decoder
  (\<^verbatim>\<open>read_pm4_stream.c\<close>, \<^verbatim>\<open>pm4_lite.c\<close>, \<^verbatim>\<open>read_sdma_stream.c\<close>, \<^verbatim>\<open>read_vpe_stream.c\<close>,
  \<^verbatim>\<open>read_hsa_stream.c\<close>, \<^verbatim>\<open>read_mes_stream.c\<close>, \<^verbatim>\<open>read_vcn_enc_stream.c\<close>,
  \<^verbatim>\<open>read_vcn_dec_stream.c\<close>) is this loop around a body of its own.  A linked list of packets is
  a HOL list, and a null pointer is the empty one.
\<close>

subsection \<open>Buffers of words\<close>

text \<open>A read of an array element, and of a run from the start; \<open>None\<close> is a read outside the array.\<close>

definition word_at :: "'a list \<Rightarrow> nat \<Rightarrow> 'a option" where
  "word_at ws k = (if k < length ws then Some (ws ! k) else None)"

definition take_words :: "u32 \<Rightarrow> 'a list \<Rightarrow> 'a list option" where
  "take_words n ws = (if unat n \<le> length ws then Some (take (unat n) ws) else None)"

fun dwords_of_bytes :: "u8 list \<Rightarrow> u32 list" where
  "dwords_of_bytes (a # b # c # d # bs) = of_le32 [a, b, c, d] # dwords_of_bytes bs"
| "dwords_of_bytes _ = []"

definition bytes_of_dwords :: "u32 list \<Rightarrow> u8 list" where
  "bytes_of_dwords ws = concat (map le32 ws)"

lemma dwords_of_bytes_of_dwords [simp]: "dwords_of_bytes (bytes_of_dwords ws) = ws"
proof (induction ws)
  case (Cons w ws)
  have "of_le32 (le32 w) = w" by simp
  then show ?case using Cons by (simp add: bytes_of_dwords_def le32_def)
qed (simp add: bytes_of_dwords_def)

lemma length_bytes_of_dwords [simp]: "length (bytes_of_dwords ws) = 4 * length ws"
  by (induction ws) (simp_all add: bytes_of_dwords_def)

lemma length_dwords_of_bytes: "length (dwords_of_bytes bs) = length bs div 4"
  by (induction bs rule: dwords_of_bytes.induct) auto

lemma word_at_0 [simp]: "word_at (w # ws) 0 = Some w"
  by (simp add: word_at_def)

lemma word_at_Suc [simp]: "word_at (w # ws) (Suc k) = word_at ws k"
  by (simp add: word_at_def)

lemma word_at_Nil [simp]: "word_at [] k = None"
  by (simp add: word_at_def)

lemma word_at_Some_iff: "word_at ws k = Some w \<longleftrightarrow> k < length ws \<and> w = ws ! k"
  by (auto simp: word_at_def)

lemma word_at_None_iff: "word_at ws k = None \<longleftrightarrow> length ws \<le> k"
  by (simp add: word_at_def)

lemma word_at_0_Some_iff: "word_at ws 0 = Some w \<longleftrightarrow> (\<exists>rest. ws = w # rest)"
  by (cases ws) auto

lemma take_words_Some_iff: "take_words n ws = Some us \<longleftrightarrow> unat n \<le> length ws \<and> us = take (unat n) ws"
  by (auto simp: take_words_def)

lemma length_take_words: "take_words n ws = Some us \<Longrightarrow> length us = unat n"
  by (auto simp: take_words_Some_iff)

subsection \<open>Reading from the GPU\<close>

text \<open>
  \<^verbatim>\<open>umr_read_vram\<close> into a fresh zeroed buffer.  Its address only matters to the access by not
  being null and by its alignment, which is that of any block from \<^verbatim>\<open>calloc\<close>.
\<close>

definition heap_buffer :: u64 where
  "heap_buffer = 0x1000"

definition umr_read_vram :: "'w vm_env \<Rightarrow> int \<Rightarrow> u32 \<Rightarrow> u64 \<Rightarrow> u32 \<Rightarrow> ('w, int \<times> u8 list) dev_op" where
  "umr_read_vram E part vmid address n s = do {
     ((r, bytes, _), s) \<leftarrow> umr_access_vram E part vmid address n heap_buffer (replicate (unat n) 0) False None s;
     Some ((r, bytes), s) }"

text \<open>On the test harness a read of the linear hub returns what the script put there.\<close>

lemma read_vram_linear:
  assumes "on_harness E s" and "address AND 3 = 0" and "n AND 3 = 0" and "n \<noteq> 0" and "vmid AND 0xFF00 = UMR_LINEAR_HUB"
    and "blocks_mapped (th_vram (snd s)) address (unat n)" and "unat n mod 4 = 0"
  shows "umr_read_vram E part vmid address n s = Some ((0, blocks_peek (th_vram (snd s)) address (unat n)), s)"
  using access_linear_harness [OF assms(1,2), of "replicate (unat n) 0" heap_buffer] assms
  by (simp add: umr_read_vram_def umr_access_vram_def heap_buffer_def Let_def)

text \<open>
  What a decoder reaches besides the device: the memory, the table for the search by address, the
  terminal's colour codes that \<^verbatim>\<open>umr_reg_name\<close> puts around a name, and the callback that sizes
  opcodes unknown to the SDMA decoder (\<open>None\<close> without one, or where it fails).
\<close>

record 'w pkt_env =
  pe_vm :: "'w vm_env"
  pe_accel :: "umr_mmio_accel_data list option"
  pe_red :: string
  pe_rst :: string
  pe_unhandled_size :: "u32 \<Rightarrow> u32 \<Rightarrow> u32 \<Rightarrow> u32 option"

definition reg_name :: "'w pkt_env \<Rightarrow> umr_asic \<Rightarrow> u64 \<Rightarrow> string" where
  "reg_name E asic addr = umr_reg_name (pe_red E) (pe_rst E) (asic_blocks asic) (pe_accel E) addr"

subsection \<open>The decoding loop\<close>

text \<open>
  One round either gives up and frees everything, or finds the packet cut off and drops it, or
  yields a packet and the number of words that it takes.  \<open>'c\<close> is what the body carries from
  round to round.  The last guard is never taken by a body that keeps the law below; it makes
  the loop total for any other.
\<close>

datatype 'p frame = Reject | Cut_off | Frame 'p u32

function decode_loop ::
    "('c \<Rightarrow> 'a list \<Rightarrow> u32 \<Rightarrow> ('w, 'c \<times> 'p frame) dev_op) \<Rightarrow> 'c \<Rightarrow> 'a list \<Rightarrow> u32 \<Rightarrow> ('w, 'p list option \<times> 'c) dev_op" where
  "decode_loop body c stream nwords s =
     (if nwords = 0 then Some ((Some [], c), s)
      else do {
        ((c, f), s) \<leftarrow> body c stream nwords s;
        case f of
          Reject \<Rightarrow> Some ((None, c), s)
        | Cut_off \<Rightarrow> Some ((Some [], c), s)
        | Frame p n \<Rightarrow>
            if n = 0 \<or> nwords < n then None
            else do {
              ((ps, c), s) \<leftarrow> decode_loop body c (drop (unat n) stream) (nwords - n) s;
              Some ((map_option ((#) p) ps, c), s) } })"
  by pat_completeness auto
termination
proof (relation "measure (\<lambda>(_, _, _, nwords, _). unat nwords)", goal_cases)
  case (2 body c stream nwords s x y xa ya xb yb p n)
  then have "unat (nwords - n) = unat nwords - unat n" "0 < unat n" "0 < unat nwords"
    by (simp_all add: unat_sub_if' word_le_nat_alt not_less unat_gt_0)
  then show ?case by simp
qed simp

declare decode_loop.simps [simp del]

text \<open>An empty buffer leaves the first packet as \<^verbatim>\<open>calloc\<close> made it; a rejected one leaves nothing.\<close>

definition stream_of :: "'p \<Rightarrow> u32 \<Rightarrow> 'p list option \<Rightarrow> 'p list" where
  "stream_of zero nwords r = (if nwords = 0 then [zero] else case r of None \<Rightarrow> [] | Some ps \<Rightarrow> ps)"

lemma decode_loop_cases [consumes 1, case_names Done Reject Cut_off Frame]:
  assumes "decode_loop body c stream nwords s = Some ((r, c'), s')"
  obtains "nwords = 0" "r = Some []" "c' = c" "s' = s"
  | "nwords \<noteq> 0" "body c stream nwords s = Some ((c', Reject), s')" "r = None"
  | "nwords \<noteq> 0" "body c stream nwords s = Some ((c', Cut_off), s')" "r = Some []"
  | c1 p n s1 q where "nwords \<noteq> 0" "body c stream nwords s = Some ((c1, Frame p n), s1)" "n \<noteq> 0" "n \<le> nwords"
      "decode_loop body c1 (drop (unat n) stream) (nwords - n) s1 = Some ((q, c'), s')" "r = map_option ((#) p) q"
  using assms by (subst (asm) decode_loop.simps) (auto split: bind_splits frame.splits if_splits simp: not_less)

lemma decode_loop_Frame:
  assumes "nwords \<noteq> 0" and "body c stream nwords s = Some ((c1, Frame p n), s1)" and "n \<noteq> 0" and "n \<le> nwords"
  shows "decode_loop body c stream nwords s =
    map_option (\<lambda>((ps, c), s). ((map_option ((#) p) ps, c), s)) (decode_loop body c1 (drop (unat n) stream) (nwords - n) s1)"
  using assms by (subst decode_loop.simps) (auto simp: not_less split: bind_splits option.splits)

lemma decode_loop_0 [simp]: "decode_loop body c stream 0 s = Some ((Some [], c), s)"
  by (simp add: decode_loop.simps)

lemma unat_less_sub: "n \<noteq> 0 \<Longrightarrow> n \<le> nwords \<Longrightarrow> unat (nwords - n) < unat nwords" for n nwords :: u32
  using unat_gt_0 [of n] by (simp add: unat_sub word_le_nat_alt)

lemma unat_of_length: "k < 2 ^ 32 \<Longrightarrow> unat (of_nat k :: u32) = k"
  by (simp add: unat_of_nat take_bit_nat_eq_self)

lemma unat_1_plus: "k \<le> 0xFFFFFF \<Longrightarrow> unat (1 + k) = Suc (unat k)" for k :: u32
proof (rule unatSuc, rule notI)
  assume le: "k \<le> 0xFFFFFF" and "1 + k = 0"
  then have "k = 0xFFFFFFFF" by (simp add: add_eq_0_iff)
  with le show False by simp
qed

text \<open>A body that simulates another, and one that returns at least where another does.\<close>

lemma decode_loop_sim:
  assumes step: "\<And>c d stream nwords s t c' f s'. body c stream nwords s = Some ((c', f), s') \<Longrightarrow> nwords \<noteq> 0 \<Longrightarrow> keep t \<Longrightarrow>
      \<exists>d' g t'. body' d stream nwords t = Some ((d', g), t') \<and> rel_frame R f g \<and> keep t'"
  shows "decode_loop body c stream nwords s = Some ((ps, c'), s') \<Longrightarrow> keep t \<Longrightarrow>
    \<exists>qs d' t'. decode_loop body' d stream nwords t = Some ((qs, d'), t') \<and> rel_option (list_all2 R) ps qs \<and> keep t'"
proof (induction "unat nwords" arbitrary: c d stream nwords s t ps rule: less_induct)
  case less
  from less.prems(1) show ?case
  proof (cases rule: decode_loop_cases)
    case Reject
    then show ?thesis
      using step [OF Reject(2,1) less.prems(2), of d] by (auto simp: decode_loop.simps [of body'] elim: frame.rel_cases)
  next
    case Cut_off
    then show ?thesis
      using step [OF Cut_off(2,1) less.prems(2), of d] by (auto simp: decode_loop.simps [of body'] elim: frame.rel_cases)
  next
    case (Frame c1 p n s1 q)
    obtain d1 g t1 where b: "body' d stream nwords t = Some ((d1, g), t1)" and "rel_frame R (Frame p n) g" and i: "keep t1"
      using step [OF Frame(2,1) less.prems(2)] by blast
    then obtain p' where g: "g = Frame p' n" "R p p'" by (cases g) auto
    obtain qs d' t' where "decode_loop body' d1 (drop (unat n) stream) (nwords - n) t1 = Some ((qs, d'), t')"
      "rel_option (list_all2 R) q qs" "keep t'"
      using less.hyps [OF unat_less_sub [OF Frame(3,4)] Frame(5) i] by blast
    then show ?thesis using decode_loop_Frame [where body = body', OF Frame(1) b [unfolded g(1)] Frame(3,4)] g(2) Frame(6)
      by (cases q; cases qs) auto
  qed (use less.prems(2) in simp)
qed

lemma decode_loop_mono:
  assumes step: "\<And>c stream nwords s r. body c stream nwords s = Some r \<Longrightarrow> body' c stream nwords s = Some r"
  shows "decode_loop body c stream nwords s = Some r \<Longrightarrow> decode_loop body' c stream nwords s = Some r"
proof (induction "unat nwords" arbitrary: c stream nwords s r rule: less_induct)
  case less
  obtain rs c' s' where r: "r = ((rs, c'), s')" by (metis prod.exhaust)
  from less.prems [unfolded r] show ?case
  proof (cases rule: decode_loop_cases)
    case (Frame c1 p n s1 q)
    then have "decode_loop body' c1 (drop (unat n) stream) (nwords - n) s1 = Some ((q, c'), s')"
      using less.hyps [OF unat_less_sub [OF Frame(3,4)] Frame(5)] by simp
    then show ?thesis using decode_loop_Frame [where body = body', OF Frame(1) step [OF Frame(2)] Frame(3,4)] Frame(6) r by simp
  qed (use r in \<open>auto simp: decode_loop.simps [of body'] dest!: step\<close>)
qed

lemma decode_loop_pure:
  assumes step: "\<And>c stream nwords s c' f s'. body c stream nwords s = Some ((c', f), s') \<Longrightarrow> s' = s"
  shows "decode_loop body c stream nwords s = Some ((r, c'), s') \<Longrightarrow> s' = s"
proof (induction "unat nwords" arbitrary: c stream nwords s r rule: less_induct)
  case less
  from less.prems show ?case
  proof (cases rule: decode_loop_cases)
    case (Frame c1 p n s1 q)
    then show ?thesis using less.hyps [OF unat_less_sub [OF Frame(3,4)] Frame(5)] step [OF Frame(2)] by simp
  qed (auto dest: step)
qed

lemma decode_loop_all:
  assumes step: "\<And>c stream nwords s c' p n s'. body c stream nwords s = Some ((c', Frame p n), s') \<Longrightarrow> P p"
  shows "decode_loop body c stream nwords s = Some ((Some ps, c'), s') \<Longrightarrow> list_all P ps"
proof (induction "unat nwords" arbitrary: c stream nwords s ps rule: less_induct)
  case less
  from less.prems show ?case
  proof (cases rule: decode_loop_cases)
    case (Frame c1 p n s1 q)
    then obtain qs where "q = Some qs" "ps = p # qs" by (cases q) auto
    then show ?thesis using less.hyps [OF unat_less_sub [OF Frame(3,4)]] Frame(5) step [OF Frame(2)] by simp
  qed auto
qed

subsection \<open>The contracts of a body\<close>

text \<open>
  A round takes at least its header and no more than what is left, and the packet holds the
  words it takes (\<open>wire\<close>).
\<close>

locale packet_body =
  fixes body :: "'c \<Rightarrow> 'a list \<Rightarrow> u32 \<Rightarrow> ('w, 'c \<times> 'p frame) dev_op"
    and wire :: "'p \<Rightarrow> 'a list"
  assumes frame: "body c stream nwords s = Some ((c', Frame p n), s') \<Longrightarrow> nwords \<noteq> 0 \<Longrightarrow>
    n \<noteq> 0 \<and> n \<le> nwords \<and> length (wire p) = unat n \<and> take (unat n) stream = wire p"
begin

lemma loop_partitions:
  "decode_loop body c stream nwords s = Some ((Some ps, c'), s') \<Longrightarrow>
   \<exists>rest. take (unat nwords) stream = concat (map wire ps) @ rest"
proof (induction "unat nwords" arbitrary: c stream nwords s ps rule: less_induct)
  case less
  from less.prems show ?case
  proof (cases rule: decode_loop_cases)
    case (Frame c1 p n s1 q)
    then obtain qs where q: "q = Some qs" "ps = p # qs" by (cases q) auto
    have "unat n \<le> unat nwords" and d: "unat (nwords - n) = unat nwords - unat n"
      using Frame(4) by (simp_all add: word_le_nat_alt unat_sub)
    moreover obtain rest where "take (unat nwords - unat n) (drop (unat n) stream) = concat (map wire qs) @ rest"
      using less.hyps [OF unat_less_sub [OF Frame(3,4)]] Frame(5) d unfolding q by metis
    moreover have "take (unat n) stream = wire p" using frame [OF Frame(2,1)] by simp
    ultimately have "take (unat nwords) stream = wire p @ concat (map wire qs) @ rest"
      using take_add [of "unat n" "unat nwords - unat n" stream] by simp
    then show ?thesis by (simp add: q)
  qed simp_all
qed

end

text \<open>A body that never fails on a buffer that has the words it is told of: then neither does the loop.\<close>

locale total_body = packet_body +
  assumes total: "unat nwords \<le> length stream \<Longrightarrow> nwords \<noteq> 0 \<Longrightarrow> body c stream nwords s \<noteq> None"
begin

lemma loop_returns:
  "unat nwords \<le> length stream \<Longrightarrow> \<exists>r. decode_loop body c stream nwords s = Some r"
proof (induction "unat nwords" arbitrary: c stream nwords s rule: less_induct)
  case less
  show ?case
  proof (cases "nwords = 0")
    case False
    then obtain c1 f s1 where b: "body c stream nwords s = Some ((c1, f), s1)"
      using total [of nwords stream c s] less.prems by (auto)
    show ?thesis
    proof (cases f)
      case (Frame p n)
      note n = frame [OF b [unfolded Frame] False]
      have "unat (nwords - n) \<le> length (drop (unat n) stream)"
        using n less.prems by (auto simp: unat_sub word_le_nat_alt)
      then obtain r where "decode_loop body c1 (drop (unat n) stream) (nwords - n) s1 = Some r"
        using less.hyps [OF unat_less_sub] n by blast
      then show ?thesis using n decode_loop_Frame [of nwords body c stream s c1 p n s1] False b Frame by (auto simp del: split_paired_Ex)
    qed (use False b in \<open>auto simp: decode_loop.simps\<close>)
  qed simp
qed

end

text \<open>A body that reads back what \<open>wire\<close> writes for packets of the right form.\<close>

locale wire_body = packet_body body wire
  for body :: "'c \<Rightarrow> 'a list \<Rightarrow> u32 \<Rightarrow> ('w, 'c \<times> 'p frame) dev_op" and wire :: "'p \<Rightarrow> 'a list" +
  fixes ok :: "umr_asic \<times> 'w \<Rightarrow> 'p \<Rightarrow> bool"
  assumes reads: "ok s p \<Longrightarrow> length (wire p) \<le> unat nwords \<Longrightarrow> unat nwords \<le> length (wire p @ rest) \<Longrightarrow>
      \<exists>c'. body c (wire p @ rest) nwords s = Some ((c', Frame p (of_nat (length (wire p)))), s)"
    and wire_size: "ok s p \<Longrightarrow> wire p \<noteq> [] \<and> length (wire p) < 2 ^ 32"
begin

lemma loop_step:
  assumes "ok s p" and "length (wire p @ rest) < 2 ^ 32"
  obtains c' where "decode_loop body c (wire p @ rest) (of_nat (length (wire p @ rest))) s =
    map_option (\<lambda>((ps, c), s). ((map_option ((#) p) ps, c), s)) (decode_loop body c' rest (of_nat (length rest)) s)"
proof -
  let ?n = "of_nat (length (wire p)) :: u32" and ?N = "of_nat (length (wire p @ rest)) :: u32"
  have u: "unat ?n = length (wire p)" "unat ?N = length (wire p @ rest)"
    using assms(2) by (auto intro!: unat_of_length simp del: of_nat_add)
  obtain c' where b: "body c (wire p @ rest) ?N s = Some ((c', Frame p ?n), s)"
    using reads [OF assms(1), of ?N rest c] u by auto
  have le: "?n \<le> ?N" unfolding word_le_nat_alt u by simp
  have nz: "?n \<noteq> 0" "?N \<noteq> 0"
    using wire_size [OF assms(1)] u by (fastforce simp del: of_nat_add length_append)+
  have "?N - ?n = of_nat (length rest)" by simp
  then show ?thesis using that decode_loop_Frame [OF nz(2) _ nz(1) le, of body c "wire p @ rest" s c' p s] b u by simp
qed

lemma decode_wire:
  "list_all (ok s) ps \<Longrightarrow> length (concat (map wire ps) @ u) < 2 ^ 32 \<Longrightarrow>
   \<forall>c. \<exists>c'. decode_loop body c u (of_nat (length u)) s = Some ((Some [], c'), s) \<Longrightarrow>
   \<exists>c'. decode_loop body c (concat (map wire ps) @ u) (of_nat (length (concat (map wire ps) @ u))) s = Some ((Some ps, c'), s)"
proof (induction ps arbitrary: c)
  case (Cons p ps)
  let ?r = "concat (map wire ps) @ u"
  obtain c1 where "decode_loop body c (wire p @ ?r) (of_nat (length (wire p @ ?r))) s =
    map_option (\<lambda>((ps, c), s). ((map_option ((#) p) ps, c), s)) (decode_loop body c1 ?r (of_nat (length ?r)) s)"
    using loop_step [of s p ?r c] Cons.prems by auto
  moreover obtain c2 where "decode_loop body c1 ?r (of_nat (length ?r)) s = Some ((Some ps, c2), s)"
    using Cons.IH [of c1] Cons.prems by auto
  ultimately show ?case by simp
qed simp

end

text \<open>A body that moreover notices a packet of which the end is missing.\<close>

locale cut_body = wire_body body wire ok
  for body :: "'c \<Rightarrow> 'a list \<Rightarrow> u32 \<Rightarrow> ('w, 'c \<times> 'p frame) dev_op" and wire :: "'p \<Rightarrow> 'a list" and ok +
  assumes cut: "ok s p \<Longrightarrow> wire p = u @ v \<Longrightarrow> u \<noteq> [] \<Longrightarrow> v \<noteq> [] \<Longrightarrow>
      \<exists>c'. body c u (of_nat (length u)) s = Some ((c', Cut_off), s)"
begin

lemma decode_wire_cut:
  assumes "list_all (ok s) ps" and "ok s p" and "wire p = u @ v" and "v \<noteq> []" and "length (concat (map wire ps) @ u) < 2 ^ 32"
  shows "\<exists>c'. decode_loop body c (concat (map wire ps) @ u) (of_nat (length (concat (map wire ps) @ u))) s = Some ((Some ps, c'), s)"
proof (rule decode_wire [OF assms(1,5)], intro allI)
  fix c
  have "(of_nat (length u) :: u32) \<noteq> 0" if "u \<noteq> []"
    using that assms(5) unat_of_length [of "length u"] by fastforce
  then show "\<exists>c'. decode_loop body c u (of_nat (length u)) s = Some ((Some [], c'), s)"
    using cut [OF assms(2,3) _ assms(4), of c] by (cases "u = []") (auto simp: decode_loop.simps)
qed

end

end
