(* ===== verification/Sdma_Stream.thy ===== *)
theory Sdma_Stream
  imports Packet_Frame
begin

unbundle bit_operations_syntax

text \<open>
  The streams of the copy and video processing engines (\<^verbatim>\<open>src/lib/read_sdma_stream.c\<close>,
  \<^verbatim>\<open>src/lib/read_vpe_stream.c\<close>, and \<^verbatim>\<open>umr_sdma_get_ip_ver\<close> of \<^verbatim>\<open>src/lib/sdma_decode_opcodes.c\<close>).
  Both have packets of the same form, whose size follows from the opcode, and both follow indirect
  buffers by recursion; the first argument of a decoder bounds that recursion as for PM4.
\<close>

subsection \<open>Packets\<close>

record dma_fields =
  dp_opcode :: u32
  dp_sub_opcode :: u32
  dp_nwords :: u32
  dp_header_dw :: u32
  dp_words :: "u32 list"
  dp_ib_vmid :: u32
  dp_ib_size :: u32
  dp_ib_addr :: u64
  dp_from_vmid :: u32
  dp_from_addr :: u64

datatype dma_stream = Dma (dma_fields: dma_fields) (dma_next_ib: "dma_stream list")

definition zero_dma :: dma_fields where
  "zero_dma = \<lparr>dp_opcode = 0, dp_sub_opcode = 0, dp_nwords = 0, dp_header_dw = 0, dp_words = [],
     dp_ib_vmid = 0, dp_ib_size = 0, dp_ib_addr = 0, dp_from_vmid = 0, dp_from_addr = 0\<rparr>"

definition dma_header :: "u32 \<Rightarrow> dma_fields" where
  "dma_header w = zero_dma\<lparr>dp_opcode := w AND 0xFF, dp_sub_opcode := drop_bit 8 w AND 0xFF, dp_header_dw := w\<rparr>"

subsection \<open>Sizes of SDMA packets\<close>

text \<open>
  The number of words after the header; \<open>NO_SIZE\<close> marks a packet that has none.  The words that
  follow the header are read without regard to the end of the buffer.
\<close>

abbreviation (input) NO_SIZE :: u32 where "NO_SIZE \<equiv> 0xFFFFFFFF"

definition sdma_copy_size :: "chipfamily \<Rightarrow> u32 \<Rightarrow> u32 \<Rightarrow> u32 list \<Rightarrow> u32 option" where
  "sdma_copy_size family hdr sub stream =
     (if sub = 0 then Some (if hdr AND 0x8000000 \<noteq> 0 then 8 else 6)
      else if sub = 1 then Some (if hdr AND 0xC000000 \<noteq> 0
                                 then (if family \<ge> FAMILY_AI then 15 else 14)
                                 else (if family \<ge> FAMILY_AI then 12 else 11))
      else if sub = 3 then Some 7
      else if sub = 4 then Some 12
      else if sub = 5 then Some (if family \<ge> FAMILY_NV then 16 else 13)
      else if sub = 6 then Some (if family \<ge> FAMILY_NV then 17 else 14)
      else if sub = 7 then Some 6
      else if sub = 8 then map_option (\<lambda>w. 6 + 4 * drop_bit 24 w) (word_at stream 0)
      else if sub = 16 then Some 6
      else if sub = 17 then Some (if hdr AND 0xC000000 \<noteq> 0 then 15 else 12)
      else if sub = 20 then Some 12
      else if sub = 21 then Some 13
      else if sub = 22 then Some 14
      else if sub = 36 then Some 19
      else Some NO_SIZE)"

definition sdma_write_size :: "u32 \<Rightarrow> u32 list \<Rightarrow> u32 option" where
  "sdma_write_size sub stream =
     (if sub = 0 then map_option (\<lambda>w. 4 + (w AND 0xFFFFF)) (word_at stream 2)
      else if sub = 1 \<or> sub = 2 then map_option (\<lambda>w. 9 + (w AND 0xFFFFF)) (word_at stream 7)
      else Some NO_SIZE)"

text \<open>The sizes that depend on the opcode and sub-opcode alone.\<close>

definition sdma_fixed_sizes :: "((u32 \<times> u32) \<times> u32) list" where
  "sdma_fixed_sizes =
     [((8, 0), 5), ((8, 1), 3), ((8, 2), 4), ((8, 3), 12), ((8, 4), 3),
      ((11, 0), 4), ((11, 1), 5),
      ((12, 0), 9), ((12, 1), 7), ((12, 2), 7),
      ((13, 0), 2), ((13, 1), 2), ((13, 2), 2),
      ((14, 0), 2), ((14, 1), 3)]"

definition sdma_plain_sizes :: "(u32 \<times> u32) list" where
  "sdma_plain_sizes = [(5, 3), (6, 1), (7, 2), (9, 4), (10, 7), (15, 1), (16, 3), (17, 4)]"

definition sdma_size :: "'w pkt_env \<Rightarrow> chipfamily \<Rightarrow> dma_fields \<Rightarrow> u32 list \<Rightarrow> u32 option" where
  "sdma_size E family p stream =
     (let opc = dp_opcode p; sub = dp_sub_opcode p; hdr = dp_header_dw p in
      if opc = 0 then Some (drop_bit 16 hdr AND 0x3FFF)
      else if opc = 1 then sdma_copy_size family hdr sub stream
      else if opc = 2 then sdma_write_size sub stream
      else if opc \<in> {8, 11, 12, 13, 14} then
        Some (case map_of sdma_fixed_sizes (opc, sub) of Some n \<Rightarrow> n | None \<Rightarrow> NO_SIZE)
      else case map_of sdma_plain_sizes opc of
             Some n \<Rightarrow> Some n
           | None \<Rightarrow> Some (case pe_unhandled_size E opc sub hdr of Some n \<Rightarrow> n | None \<Rightarrow> NO_SIZE))"

subsection \<open>Indirect buffers\<close>

text \<open>
  The decoder \<open>dec\<close> gets the address and the VMID that the buffer is reached from, its words and
  their number.  The length of the read is the number of words times four in 32 bits; words that it
  does not reach stay zero.  \<open>here\<close> is the address of the word after the header.
\<close>

type_synonym 'w dma_decoder = "u64 \<Rightarrow> u32 \<Rightarrow> u32 list \<Rightarrow> u32 \<Rightarrow> ('w, dma_stream list) dev_op"

definition note_origin :: "u64 \<Rightarrow> u32 \<Rightarrow> dma_stream list \<Rightarrow> dma_stream list" where
  "note_origin addr vmid ib =
     (case ib of [] \<Rightarrow> [] | Dma p nx # rest \<Rightarrow> Dma (p\<lparr>dp_from_addr := addr, dp_from_vmid := vmid\<rparr>) nx # rest)"

definition dma_follow ::
    "'w dma_decoder \<Rightarrow> 'w vm_env \<Rightarrow> int \<Rightarrow> u64 \<Rightarrow> u32 \<Rightarrow> u32 \<Rightarrow> u64 \<Rightarrow> u32 \<Rightarrow> ('w, dma_stream list) dev_op" where
  "dma_follow dec E part here from_vmid vmid addr n s =
     (if opt_no_follow_ib (asic_options (fst s)) then Some ([], s)
      else do {
        ((r, bytes), s) \<leftarrow> umr_read_vram E part vmid addr (n * 4) s;
        if r = 0 then do {
          let data = dwords_of_bytes bytes;
          (ib, s) \<leftarrow> dec here vmid (data @ replicate (unat n - length data) 0) n s;
          Some (note_origin here from_vmid ib, s) }
        else Some ([], s) })"

definition sdma_indirect ::
    "'w dma_decoder \<Rightarrow> 'w pkt_env \<Rightarrow> int \<Rightarrow> u64 \<Rightarrow> u32 \<Rightarrow> dma_fields \<Rightarrow> u32 list \<Rightarrow> ('w, dma_fields \<times> dma_stream list) dev_op" where
  "sdma_indirect dec E part here from_vmid p stream s = do {
     w0 \<leftarrow> word_at stream 0;
     w1 \<leftarrow> word_at stream 1;
     w2 \<leftarrow> word_at stream 2;
     let vmid = (drop_bit 16 (dp_header_dw p) AND 0xF) OR
                (if asic_family (fst s) = FAMILY_AI then UMR_MM_HUB else from_vmid AND 0xFF00);
     let addr = mk64 w0 w1;
     (ib, s) \<leftarrow> dma_follow dec (pe_vm E) part here from_vmid vmid addr w2 s;
     Some ((p\<lparr>dp_nwords := 5, dp_ib_vmid := vmid, dp_ib_addr := addr, dp_ib_size := w2\<rparr>, ib), s) }"

definition sized_oss1_5 ::
    "'w dma_decoder \<Rightarrow> 'w pkt_env \<Rightarrow> int \<Rightarrow> u64 \<Rightarrow> u32 \<Rightarrow> dma_fields \<Rightarrow> u32 list \<Rightarrow> ('w, dma_fields \<times> dma_stream list) dev_op" where
  "sized_oss1_5 dec E part here from_vmid p stream s =
     (if dp_opcode p = 4 then sdma_indirect dec E part here from_vmid p stream s
      else do {
        n \<leftarrow> sdma_size E (asic_family (fst s)) p stream;
        Some ((p\<lparr>dp_nwords := n\<rparr>, []), s) })"

subsection \<open>The SDMA decoder\<close>

text \<open>
  The version of the block: \<open>Some None\<close> when there is none; \<open>None\<close> when the version of the
  graphics block is not in the table and the variable stays unset.
\<close>

fun first_ip :: "umr_ip_block list \<Rightarrow> (string \<times> int) list \<Rightarrow> umr_ip_block option" where
  "first_ip blocks [] = None"
| "first_ip blocks ((n, i) # ks) =
     (case umr_find_ip_block blocks n i of Some ip \<Rightarrow> Some ip | None \<Rightarrow> first_ip blocks ks)"

definition umr_sdma_get_ip_ver :: "umr_ip_block list \<Rightarrow> (int \<times> int) option option" where
  "umr_sdma_get_ip_ver blocks =
     (case first_ip blocks [(''oss'', 0), (''oss'', - 1), (''sdma'', 0), (''sdma'', - 1)] of
        Some ip \<Rightarrow> Some (Some (ip_maj ip, ip_min ip))
      | None \<Rightarrow>
          (case first_ip blocks [(''gfx'', 0), (''gfx'', - 1)] of
             None \<Rightarrow> Some None
           | Some ip \<Rightarrow> if 6 \<le> ip_maj ip \<and> ip_maj ip \<le> 12 then Some (Some (ip_maj ip - 5, 0)) else None))"

text \<open>The state of the loop is the number of words before the packet.\<close>

definition dma_grab :: "u64 \<Rightarrow> dma_fields \<Rightarrow> dma_stream list \<Rightarrow> u32 list \<Rightarrow> u32 \<Rightarrow> (u64 \<times> dma_stream frame) option" where
  "dma_grab k p ib rest nwords =
     (let n = dp_nwords p in
      if nwords < 1 + n then Some (k, Cut_off)
      else do {
        ws \<leftarrow> take_words n rest;
        Some (k + 1 + ucast n, Frame (Dma (p\<lparr>dp_words := ws\<rparr>) ib) (1 + n)) })"

definition sdma_body ::
    "'w dma_decoder \<Rightarrow> 'w pkt_env \<Rightarrow> int \<Rightarrow> int \<Rightarrow> u64 \<Rightarrow> u32 \<Rightarrow> u64 \<Rightarrow> u32 list \<Rightarrow> u32 \<Rightarrow> ('w, u64 \<times> dma_stream frame) dev_op" where
  "sdma_body dec E part ossmaj from_addr from_vmid k stream nwords s = do {
     w \<leftarrow> word_at stream 0;
     let p = dma_header w;
     ((p, ib), s) \<leftarrow> (if 1 \<le> ossmaj \<and> ossmaj \<le> 6
                     then sized_oss1_5 dec E part (from_addr + push_bit 2 (k + 1)) from_vmid p (tl stream) s
                     else Some ((p\<lparr>dp_nwords := NO_SIZE\<rparr>, []), s));
     if dp_nwords p = NO_SIZE then Some ((k, Reject), s)
     else do {
       r \<leftarrow> dma_grab k p ib (tl stream) nwords;
       Some (r, s) } }"

primrec umr_sdma_decode_stream :: "nat \<Rightarrow> 'w pkt_env \<Rightarrow> int \<Rightarrow> 'w dma_decoder" where
  "umr_sdma_decode_stream 0 E part from_addr from_vmid stream nwords s = None"
| "umr_sdma_decode_stream (Suc d) E part from_addr from_vmid stream nwords s = do {
     ver \<leftarrow> umr_sdma_get_ip_ver (asic_blocks (fst s));
     case ver of
       None \<Rightarrow> Some ([], s)
     | Some (ossmaj, ossmin) \<Rightarrow> do {
         ((ps, k), s) \<leftarrow> decode_loop (sdma_body (umr_sdma_decode_stream d E part) E part ossmaj from_addr from_vmid) 0 stream nwords s;
         Some (stream_of (Dma zero_dma []) nwords ps, s) } }"

subsection \<open>The VPE decoder\<close>

text \<open>\<open>None\<close> is an opcode that the decoder rejects, or a read outside the buffer.\<close>

definition vpe_plane_size :: "u32 \<Rightarrow> u32 \<Rightarrow> u32" where
  "vpe_plane_size sub hdr =
     (let nps0 = drop_bit 16 hdr AND 3; npd0 = drop_bit 18 hdr AND 3; nps1 = drop_bit 20 hdr AND 3; npd1 = drop_bit 22 hdr AND 3 in
      if sub = 0 then 2 + 5 * (1 + nps0) + 5 * (1 + npd0)
      else if sub = 1 then 2 + 5 * (1 + nps0) + 5 * (1 + nps1) + 5 * (1 + npd0)
      else if sub = 2 then 2 + 5 * (1 + nps0) + 5 * (1 + nps1) + 5 * (1 + npd0) + 5 * (1 + npd1)
      else 0)"

definition vpe_known :: "u32 \<Rightarrow> bool" where
  "vpe_known opc \<longleftrightarrow> opc \<le> 10 \<or> opc = 13"

definition vpe_size :: "dma_fields \<Rightarrow> u32 list \<Rightarrow> u32 option" where
  "vpe_size p stream =
     (let opc = dp_opcode p; sub = dp_sub_opcode p; hdr = dp_header_dw p in
      if opc = 0 then Some 0
      else if opc = 1 then map_option (\<lambda>w. 3 + ((w + 1) AND 0xFF) * 2) (word_at stream 2)
      else if opc = 2 then Some (vpe_plane_size sub hdr)
      else if opc = 3 then Some (if sub = 0 then drop_bit 16 hdr + 1 else if sub = 1 then 3 + (drop_bit 28 hdr + 1) * 3 else 0)
      else if opc = 5 then Some 3
      else if opc = 6 then Some 1
      else if opc = 7 then Some 2
      else if opc = 8 then Some (if sub \<noteq> 0 then 3 else 5)
      else if opc = 9 then Some 4
      else if opc = 10 then Some 7
      else Some (if sub \<le> 2 then 2 else 0))"

definition vpe_indirect ::
    "'w dma_decoder \<Rightarrow> 'w vm_env \<Rightarrow> int \<Rightarrow> u64 \<Rightarrow> u32 \<Rightarrow> dma_fields \<Rightarrow> u32 list \<Rightarrow> ('w, dma_fields \<times> dma_stream list) dev_op" where
  "vpe_indirect dec E part here from_vmid p stream s = do {
     w0 \<leftarrow> word_at stream 0;
     w1 \<leftarrow> word_at stream 1;
     w2 \<leftarrow> word_at stream 2;
     let vmid = (drop_bit 16 (dp_header_dw p) AND 0xF) OR (if asic_family (fst s) \<ge> FAMILY_AI then UMR_MM_HUB else 0);
     let addr = mk64 w0 w1;
     (ib, s) \<leftarrow> dma_follow dec E part here from_vmid vmid addr w2 s;
     Some ((p\<lparr>dp_nwords := 5, dp_ib_vmid := vmid, dp_ib_addr := addr, dp_ib_size := w2\<rparr>, ib), s) }"

definition vpe_body ::
    "'w dma_decoder \<Rightarrow> 'w vm_env \<Rightarrow> int \<Rightarrow> u64 \<Rightarrow> u32 \<Rightarrow> u64 \<Rightarrow> u32 list \<Rightarrow> u32 \<Rightarrow> ('w, u64 \<times> dma_stream frame) dev_op" where
  "vpe_body dec E part from_addr from_vmid k stream nwords s = do {
     w \<leftarrow> word_at stream 0;
     let p = dma_header w;
     if \<not> vpe_known (dp_opcode p) then Some ((k, Reject), s)
     else do {
       ((p, ib), s) \<leftarrow>
         (if dp_opcode p = 4 then vpe_indirect dec E part (from_addr + push_bit 2 (k + 1)) from_vmid p (tl stream) s
          else do { n \<leftarrow> vpe_size p (tl stream); Some ((p\<lparr>dp_nwords := n\<rparr>, []), s) });
       r \<leftarrow> dma_grab k p ib (tl stream) nwords;
       Some (r, s) } }"

primrec umr_vpe_decode_stream :: "nat \<Rightarrow> 'w vm_env \<Rightarrow> int \<Rightarrow> 'w dma_decoder" where
  "umr_vpe_decode_stream 0 E part from_addr from_vmid stream nwords s = None"
| "umr_vpe_decode_stream (Suc d) E part from_addr from_vmid stream nwords s = do {
     ((ps, k), s) \<leftarrow> decode_loop (vpe_body (umr_vpe_decode_stream d E part) E part from_addr from_vmid) 0 stream nwords s;
     Some (stream_of (Dma zero_dma []) nwords ps, s) }"

subsection \<open>Both decoders partition the buffer\<close>

definition dma_wire :: "dma_stream \<Rightarrow> u32 list" where
  "dma_wire q = dp_header_dw (dma_fields q) # dp_words (dma_fields q)"

lemma dma_header_simps [simp]: "dp_header_dw (dma_header w) = w" "dp_opcode (dma_header w) = w AND 0xFF"
  "dp_sub_opcode (dma_header w) = drop_bit 8 w AND 0xFF"
  by (simp_all add: dma_header_def)

lemma unat_1_plus_size: "n \<noteq> NO_SIZE \<Longrightarrow> unat (1 + n) = Suc (unat n)" for n :: u32
proof (rule unatSuc, rule notI)
  assume "n \<noteq> NO_SIZE" and "1 + n = 0"
  then show False by (simp add: add_eq_0_iff)
qed

lemma dma_grab_frame:
  assumes "dma_grab k p ib rest nwords = Some (k', Frame q n)" and "dp_nwords p \<noteq> NO_SIZE"
  shows "n \<noteq> 0 \<and> n \<le> nwords \<and> length (dma_wire q) = unat n \<and> take (unat n) (dp_header_dw p # rest) = dma_wire q"
  using assms unat_1_plus_size [OF assms(2)]
  by (auto simp: dma_grab_def Let_def take_words_def dma_wire_def not_less split: if_splits)

lemma sized_oss1_5_header:
  "sized_oss1_5 dec E part here vmid p stream s = Some ((q, ib), s') \<Longrightarrow> dp_header_dw q = dp_header_dw p"
  by (auto simp: sized_oss1_5_def sdma_indirect_def Let_def split: if_splits bind_splits)

interpretation sdma: packet_body "sdma_body dec E part maj from_addr from_vmid" dma_wire
  for dec :: "'w dma_decoder" and E part maj from_addr from_vmid
proof
  fix k stream nwords s k' q n s'
  assume b: "sdma_body dec E part maj from_addr from_vmid k stream nwords s = Some ((k', Frame q n), s')"
  obtain w rest where st: "stream = w # rest" using b by (cases stream) (simp_all add: sdma_body_def)
  have "\<exists>p ib. dp_header_dw p = w \<and> dp_nwords p \<noteq> NO_SIZE \<and> dma_grab k p ib rest nwords = Some (k', Frame q n)"
    using b by (auto simp: sdma_body_def st Let_def split: bind_splits if_splits dest!: sized_oss1_5_header) blast
  then show "n \<noteq> 0 \<and> n \<le> nwords \<and> length (dma_wire q) = unat n \<and> take (unat n) stream = dma_wire q"
    using dma_grab_frame [of k _ _ rest nwords k' q n] st by auto
qed

lemma and_bound: "x AND m \<le> m" for x m :: u32
  by (rule word_and_le1)

lemma vpe_plane_bound: "vpe_plane_size sub hdr \<noteq> NO_SIZE"
proof -
  have le: "unat (drop_bit k hdr AND 3) \<le> 3" for k
    using and_bound [of "drop_bit k hdr" 3] by (simp add: word_le_nat_alt)
  have "unat (vpe_plane_size sub hdr) \<le> 100"
    using le [of 16] le [of 18] le [of 20] le [of 22] by (simp add: vpe_plane_size_def Let_def unat_word_ariths)
  then show ?thesis by auto
qed

lemma unat_drop_bit32: "unat (drop_bit k (x :: u32)) = unat x div 2 ^ k"
  using unat_drop_bit_eq [of k x] by (simp only: drop_bit_eq_div [of k "unat x"])

lemma vpe_indirect_frame:
  "vpe_indirect dec E part here vmid p stream s = Some ((q, ib), s') \<Longrightarrow> dp_header_dw q = dp_header_dw p \<and> dp_nwords q = 5"
  by (auto simp: vpe_indirect_def Let_def split: bind_splits)

lemma vpe_size_bound: "vpe_size p stream = Some n \<Longrightarrow> n \<noteq> NO_SIZE"
proof
  assume v: "vpe_size p stream = Some n" and n: "n = NO_SIZE"
  have a: "unat ((w + 1) AND 0xFF) \<le> 255" for w :: u32
    using and_bound [of "w + 1" "0xFF"] by (simp add: word_le_nat_alt)
  have b: "unat (drop_bit 16 h) < 2 ^ 16" "unat (drop_bit 28 h) < 2 ^ 4" for h :: u32
    using unsigned_less [of h, where 'a = nat] by (simp_all add: unat_drop_bit32 less_mult_imp_div_less)
  have "3 + ((w + 1) AND 0xFF) * 2 \<noteq> NO_SIZE" for w :: u32
    using a [of w] by (simp add: word_unat_eq_iff unat_word_ariths)
  moreover have "drop_bit 16 h + 1 \<noteq> NO_SIZE" "3 + (drop_bit 28 h + 1) * 3 \<noteq> NO_SIZE" for h :: u32
    using b [of h] by (simp_all add: word_unat_eq_iff unat_word_ariths)
  ultimately show False
    using v vpe_plane_bound [of "dp_sub_opcode p" "dp_header_dw p"] unfolding n by (auto simp: vpe_size_def Let_def split: if_splits)
qed

interpretation vpe: packet_body "vpe_body dec E part from_addr from_vmid" dma_wire
  for dec :: "'w dma_decoder" and E part from_addr from_vmid
proof
  fix k stream nwords s k' q n s'
  assume b: "vpe_body dec E part from_addr from_vmid k stream nwords s = Some ((k', Frame q n), s')"
  obtain w rest where st: "stream = w # rest" using b by (cases stream) (simp_all add: vpe_body_def)
  have "\<exists>p ib. dp_header_dw p = w \<and> dp_nwords p \<noteq> NO_SIZE \<and> dma_grab k p ib rest nwords = Some (k', Frame q n)"
  proof (cases "w AND 0xFF = 4")
    case True
    then obtain p ib s1 where "vpe_indirect dec E part (from_addr + push_bit 2 (k + 1)) from_vmid (dma_header w) rest s = Some ((p, ib), s1)"
      "dma_grab k p ib rest nwords = Some (k', Frame q n)"
      using b by (auto simp: vpe_body_def st Let_def split: bind_splits if_splits)
    then show ?thesis using vpe_indirect_frame by fastforce
  next
    case False
    then obtain m where "vpe_size (dma_header w) rest = Some m" "dma_grab k ((dma_header w)\<lparr>dp_nwords := m\<rparr>) [] rest nwords = Some (k', Frame q n)"
      using b by (auto simp: vpe_body_def st Let_def split: bind_splits if_splits)
    then show ?thesis using vpe_size_bound by (intro exI [of _ "(dma_header w)\<lparr>dp_nwords := m\<rparr>"]) auto
  qed
  then show "n \<noteq> 0 \<and> n \<le> nwords \<and> length (dma_wire q) = unat n \<and> take (unat n) stream = dma_wire q"
    using dma_grab_frame [of k _ _ rest nwords k' q n] st by auto
qed

lemma sdma_decode_partitions:
  assumes a: "umr_sdma_decode_stream d E part from_addr from_vmid stream nwords s = Some (ps, s')" and "nwords \<noteq> 0"
  shows "\<exists>rest. take (unat nwords) stream = concat (map dma_wire ps) @ rest"
proof (cases "ps = []")
  case False
  obtain d' where d: "d = Suc d'" using a by (cases d) auto
  obtain maj qs k where l: "decode_loop (sdma_body (umr_sdma_decode_stream d' E part) E part maj from_addr from_vmid) 0 stream nwords s =
      Some ((Some qs, k), s')" "ps = qs"
    using a False assms(2) by (auto simp: d stream_of_def split: bind_splits option.splits prod.splits)
  show ?thesis using sdma.loop_partitions [OF l(1)] l(2) by simp
qed simp

lemma vpe_decode_partitions:
  assumes a: "umr_vpe_decode_stream d E part from_addr from_vmid stream nwords s = Some (ps, s')" and "nwords \<noteq> 0"
  shows "\<exists>rest. take (unat nwords) stream = concat (map dma_wire ps) @ rest"
proof (cases "ps = []")
  case False
  obtain d' where d: "d = Suc d'" using a by (cases d) auto
  obtain qs k where l: "decode_loop (vpe_body (umr_vpe_decode_stream d' E part) E part from_addr from_vmid) 0 stream nwords s =
      Some ((Some qs, k), s')" "ps = qs"
    using a False assms(2) by (auto simp: d stream_of_def split: bind_splits option.splits)
  show ?thesis using vpe.loop_partitions [OF l(1)] l(2) by simp
qed simp

text \<open>Whatever buffers they follow, the SDMA and VPE decoders return packets whose headers and words, put
  one after the other, are the beginning of the buffer: nothing is skipped, duplicated or made up.\<close>

theorem dma_decoders_partition:
  assumes "umr_sdma_decode_stream d E part from_addr from_vmid stream nwords s = Some (ps, s') \<or>
      umr_vpe_decode_stream d (pe_vm E) part from_addr from_vmid stream nwords s = Some (ps, s')" and "nwords \<noteq> 0"
  shows "\<exists>rest. take (unat nwords) stream = concat (map dma_wire ps) @ rest"
  using assms(1) by (elim disjE) (erule sdma_decode_partitions [OF _ assms(2)] vpe_decode_partitions [OF _ assms(2)])+

text \<open>The opcode decoder has a branch for version 7 of the engine, but the sizes of packets are only
  known up to version 6: every buffer that is not empty is rejected, and nothing reaches that branch.\<close>

theorem sdma_oss7_rejected:
  assumes "umr_sdma_get_ip_ver (asic_blocks (fst s)) = Some (Some (7, ossmin))" and "0 < unat nwords" and "unat nwords \<le> length stream"
  shows "umr_sdma_decode_stream (Suc d) E part from_addr from_vmid stream nwords s = Some ([], s)"
proof -
  obtain w rest where "stream = w # rest" using assms(2,3) by (cases stream) auto
  moreover have "nwords \<noteq> 0" using assms(2) by auto
  ultimately show ?thesis using assms(1) by (simp add: decode_loop.simps sdma_body_def stream_of_def)
qed

text \<open>The size of a linear write is read from its fourth word before the length of the buffer is
  looked at: a buffer that ends earlier is read past its end.\<close>

theorem sdma_write_overread:
  assumes "umr_sdma_get_ip_ver (asic_blocks (fst s)) = Some (Some (ossmaj, ossmin))" and "1 \<le> ossmaj" and "ossmaj \<le> 6"
    and "w AND 0xFF = 2" and "drop_bit 8 w AND 0xFF = 0" and "length rest < 3"
  shows "umr_sdma_decode_stream (Suc d) E part from_addr from_vmid (w # rest) (of_nat (Suc (length rest))) s = None"
proof -
  have "word_at rest 2 = None" using assms(6) by (simp add: word_at_None_iff)
  then have "sized_oss1_5 dec E part here from_vmid (dma_header w) rest s = None" for dec here
    using assms(4,5) by (simp add: sized_oss1_5_def sdma_size_def sdma_write_size_def)
  moreover have "(of_nat (Suc (length rest)) :: u32) \<noteq> 0"
    using unat_of_length [of "Suc (length rest)"] assms(6) by fastforce
  ultimately show ?thesis using assms(1-3) by (simp add: decode_loop.simps [of _ _ "w # rest"] sdma_body_def del: of_nat_Suc)
qed

subsection \<open>Writing packets out and decoding them\<close>

text \<open>A packet without an indirect buffer whose number of words is the one that its opcode asks for.\<close>

definition sdma_ok :: "'w pkt_env \<Rightarrow> umr_asic \<times> 'w \<Rightarrow> dma_stream \<Rightarrow> bool" where
  "sdma_ok E s q \<longleftrightarrow>
     (let w = dp_header_dw (dma_fields q); ws = dp_words (dma_fields q); n = dp_nwords (dma_fields q) in
      w AND 0xFF \<noteq> 4 \<and> sdma_size E (asic_family (fst s)) (dma_header w) ws = Some n \<and> n \<noteq> NO_SIZE \<and>
      length ws = unat n \<and> q = Dma ((dma_header w)\<lparr>dp_nwords := n, dp_words := ws\<rparr>) [])"

lemma word_at_append: "word_at ws k = Some w \<Longrightarrow> word_at (ws @ rest) k = Some w"
  by (auto simp: word_at_def nth_append split: if_splits)

lemma map_word_at_append:
  "map_option g (word_at ws k) = Some n \<Longrightarrow> map_option g (word_at (ws @ rest) k) = Some n"
  by (auto simp: word_at_append)

lemma sdma_copy_size_append:
  "sdma_copy_size f hdr sub ws = Some n \<Longrightarrow> sdma_copy_size f hdr sub (ws @ rest) = Some n"
proof (cases "sub = 8")
  case True
  then show "sdma_copy_size f hdr sub ws = Some n \<Longrightarrow> ?thesis" by (simp only: sdma_copy_size_def) (simp add: map_word_at_append)
next
  case False
  then show "sdma_copy_size f hdr sub ws = Some n \<Longrightarrow> ?thesis" by (simp only: sdma_copy_size_def if_False)
qed

lemma sdma_write_size_append:
  "sdma_write_size sub ws = Some n \<Longrightarrow> sdma_write_size sub (ws @ rest) = Some n"
  unfolding sdma_write_size_def by (simp only: map_word_at_append simp_thms if_True if_False split: if_splits; simp)

lemma sdma_size_append:
  assumes "sdma_size E f p ws = Some n" shows "sdma_size E f p (ws @ rest) = Some n"
proof (cases "dp_opcode p = 1 \<or> dp_opcode p = 2")
  case True
  then show ?thesis using assms by (auto simp: sdma_size_def Let_def sdma_copy_size_append sdma_write_size_append)
next
  case False
  then show ?thesis using assms by (simp only: sdma_size_def Let_def if_False de_Morgan_disj simp_thms)
qed

lemma sdma_body_reads:
  assumes ok: "sdma_ok E s q" and "length (dma_wire q) \<le> unat nwords" and maj: "1 \<le> maj" "maj \<le> 6"
  shows "\<exists>k'. sdma_body dec E part maj from_addr from_vmid k (dma_wire q @ rest) nwords s =
    Some ((k', Frame q (of_nat (length (dma_wire q)))), s)"
proof -
  let ?w = "dp_header_dw (dma_fields q)" and ?ws = "dp_words (dma_fields q)" and ?n = "dp_nwords (dma_fields q)"
  have o: "?w AND 0xFF \<noteq> 4" "sdma_size E (asic_family (fst s)) (dma_header ?w) (?ws @ rest) = Some ?n"
    "?n \<noteq> NO_SIZE" "length ?ws = unat ?n" and q: "q = Dma ((dma_header ?w)\<lparr>dp_nwords := ?n, dp_words := ?ws\<rparr>) []"
    using ok by (simp_all add: sdma_ok_def Let_def sdma_size_append)
  have u: "unat (1 + ?n) = Suc (unat ?n)" by (rule unat_1_plus_size [OF o(3)])
  have "\<not> nwords < 1 + ?n" using assms(2) u o(4) by (simp add: dma_wire_def word_less_nat_alt)
  moreover have "of_nat (Suc (unat ?n)) = 1 + ?n" by simp
  ultimately have "dma_grab k ((dma_header ?w)\<lparr>dp_nwords := ?n\<rparr>) [] (?ws @ rest) nwords =
      Some (k + 1 + ucast ?n, Frame q (of_nat (Suc (unat ?n))))"
    using q o(4) by (simp add: dma_grab_def Let_def take_words_def)
  then show ?thesis using o maj by (simp add: sdma_body_def dma_wire_def sized_oss1_5_def)
qed

text \<open>The versions that the decoder sizes keep the round trip contract.\<close>

interpretation sdma_rt: wire_body "sdma_body dec E part maj' from_addr from_vmid" dma_wire "\<lambda>s q. 1 \<le> maj' \<and> maj' \<le> 6 \<and> sdma_ok E s q"
  for dec :: "'w dma_decoder" and E part maj' from_addr from_vmid
proof
  fix s :: "umr_asic \<times> 'w" and q and nwords :: u32 and rest and k :: u64
  assume "1 \<le> maj' \<and> maj' \<le> 6 \<and> sdma_ok E s q" "length (dma_wire q) \<le> unat nwords"
  then show "\<exists>k'. sdma_body dec E part maj' from_addr from_vmid k (dma_wire q @ rest) nwords s =
      Some ((k', Frame q (of_nat (length (dma_wire q)))), s)"
    using sdma_body_reads by blast
next
  fix s :: "umr_asic \<times> 'w" and q
  assume "1 \<le> maj' \<and> maj' \<le> 6 \<and> sdma_ok E s q"
  then have "dp_nwords (dma_fields q) \<noteq> NO_SIZE" "length (dma_wire q) = Suc (unat (dp_nwords (dma_fields q)))"
    by (simp_all add: sdma_ok_def dma_wire_def Let_def)
  then show "dma_wire q \<noteq> [] \<and> length (dma_wire q) < 2 ^ 32"
    using unsigned_less [where 'a = nat, of "1 + dp_nwords (dma_fields q)"] by (simp add: unat_1_plus_size dma_wire_def)
qed


definition demo_dma_env :: "umr_test_harness pkt_env" where
  "demo_dma_env = \<lparr>pe_vm = demo_env, pe_accel = None, pe_red = '''', pe_rst = '''', pe_unhandled_size = (\<lambda>_ _ _. None)\<rparr>"

definition demo_fence :: dma_stream where
  "demo_fence = Dma ((dma_header 5)\<lparr>dp_nwords := 3, dp_words := [0x100, 0, 7]\<rparr>) []"

definition demo_write :: dma_stream where
  "demo_write = Dma ((dma_header 2)\<lparr>dp_nwords := 5, dp_words := [0x200, 0, 1, 8, 9]\<rparr>) []"

lemma demo_sdma_ver: "umr_sdma_get_ip_ver (asic_blocks demo_dev) = Some (Some (4, 0))"
  by code_simp


theorem dma_decoders_partition_witness:
  "\<exists>ps s' rest. umr_vpe_decode_stream 1 demo_env 0 0 0 [0, 5, 1, 2, 3, 5, 1] 7 (demo_dev, demo_harness) = Some (ps, s') \<and>
     take 7 [0, 5, 1, 2, 3, 5, 1] = concat (map dma_wire ps) @ rest \<and> length ps = 2"
proof -
  have v: "\<exists>p q s'. umr_vpe_decode_stream 1 demo_env 0 0 0 [0, 5, 1, 2, 3, 5, 1] 7 (demo_dev, demo_harness) = Some ([p, q], s')"
    by (simp add: decode_loop.simps vpe_body_def vpe_known_def vpe_size_def dma_grab_def take_words_def stream_of_def)
  then obtain p q s' where r: "umr_vpe_decode_stream 1 (pe_vm demo_dma_env) 0 0 0 [0, 5, 1, 2, 3, 5, 1] 7 (demo_dev, demo_harness) = Some ([p, q], s')"
    by (auto simp: demo_dma_env_def)
  have "\<exists>rest. take (unat (7 :: u32)) [0, 5, 1, 2, 3, 5, 1] = concat (map dma_wire [p, q]) @ rest"
    by (rule dma_decoders_partition [OF disjI2 [OF r]]) simp
  then show ?thesis using r by (auto simp: demo_dma_env_def)
qed

definition demo_oss7 :: umr_asic where
  "demo_oss7 = demo_dev\<lparr>asic_blocks := [(demo_block ''sdma0'' [])\<lparr>ip_discoverable := (ip_discoverable (demo_block ''sdma0'' []))\<lparr>disc_maj := 7\<rparr>\<rparr>]\<rparr>"

theorem sdma_oss7_rejected_witness:
  "umr_sdma_decode_stream 5 demo_dma_env 0 0 0 [5, 0x100, 0, 7] 4 (demo_oss7, demo_harness) = Some ([], (demo_oss7, demo_harness))"
proof -
  have "umr_sdma_get_ip_ver (asic_blocks demo_oss7) = Some (Some (7, 0))" by code_simp
  then show ?thesis
    using sdma_oss7_rejected [of "(demo_oss7, demo_harness)" 0 4 "[5, 0x100, 0, 7]" 4 demo_dma_env 0 0 0]
    unfolding eval_nat_numeral by simp
qed

theorem sdma_write_overread_witness:
  "umr_sdma_decode_stream 5 demo_dma_env 0 0 0 [2, 0x200] 2 (demo_dev, demo_harness) = None"
  using sdma_write_overread [of "(demo_dev, demo_harness)" 4 0 2 "[0x200]" 4 demo_dma_env 0 0 0] demo_sdma_ver
  unfolding eval_nat_numeral by simp

end
