(* ===== verification/Sched_Stream.thy ===== *)
theory Sched_Stream
  imports Packet_Frame
begin

unbundle bit_operations_syntax

text \<open>
  The streams of the user mode queues and of the schedulers (\<^verbatim>\<open>src/lib/read_hsa_stream.c\<close>,
  \<^verbatim>\<open>src/lib/read_mes_stream.c\<close>, \<^verbatim>\<open>src/lib/read_umsch_stream.c\<close>).  None of them follows
  indirect buffers.  For HSA the presentation of the packets is modelled too, as the list of
  calls that it makes to the user interface.
\<close>

subsection \<open>HSA packets\<close>

text \<open>HSA is made of 16 bit words, stored in 32 bits each; \<open>hs_nwords\<close> counts the header.\<close>

record umr_hsa_stream =
  hs_words :: "u32 list"
  hs_nwords :: u32
  hs_header :: u32
  hs_type :: u32
  hs_barrier :: u32
  hs_acquire_fence_scope :: u32
  hs_release_fence_scope :: u32
  hs_invalid :: bool

definition zero_hsa :: umr_hsa_stream where
  "zero_hsa = \<lparr>hs_words = [], hs_nwords = 0, hs_header = 0, hs_type = 0, hs_barrier = 0,
     hs_acquire_fence_scope = 0, hs_release_fence_scope = 0, hs_invalid = False\<rparr>"

definition halves :: "u32 list \<Rightarrow> u16 list" where
  "halves ws = concat (map (\<lambda>w. [ucast w, ucast (drop_bit 16 w)]) ws)"

definition hsa_size :: "u32 \<Rightarrow> u32" where
  "hsa_size t = (if t = 0 \<or> t = 1 then 1 else if t = 2 \<or> t = 3 \<or> t = 4 \<or> t = 5 then 32 else 0)"

definition hsa_header :: "u16 \<Rightarrow> umr_hsa_stream" where
  "hsa_header h =
     (let w = ucast h :: u32; t = w AND 0xFF in
      zero_hsa\<lparr>hs_header := w, hs_type := t, hs_barrier := drop_bit 8 w AND 1,
        hs_acquire_fence_scope := drop_bit 9 w AND 3, hs_release_fence_scope := drop_bit 11 w AND 3,
        hs_nwords := hsa_size t\<rparr>)"

definition hsa_body :: "unit \<Rightarrow> u16 list \<Rightarrow> u32 \<Rightarrow> ('w, unit \<times> umr_hsa_stream frame) dev_op" where
  "hsa_body c stream nwords s = do {
     h \<leftarrow> word_at stream 0;
     let p = hsa_header h;
     let n = hs_nwords p;
     if nwords < n \<or> n = 0 then Some ((c, Cut_off), s)
     else do {
       ws \<leftarrow> take_words (n - 1) (tl stream);
       Some ((c, Frame (p\<lparr>hs_words := map ucast ws\<rparr>) n), s) } }"

definition umr_hsa_decode_stream :: "u32 list \<Rightarrow> u32 \<Rightarrow> ('w, umr_hsa_stream list) dev_op" where
  "umr_hsa_decode_stream stream nwords s = do {
     ((ps, c), s) \<leftarrow> decode_loop hsa_body () (halves stream) (nwords * 2) s;
     Some (stream_of zero_hsa (nwords * 2) ps, s) }"

subsection \<open>Presenting HSA packets\<close>

text \<open>The calls to the user interface, with their arguments.\<close>

datatype ui_event =
    Start_ib u64 u32
  | Start_opcode u64 u32 u32 u32 string u32 "u32 list"
  | Add_field u64 u32 string u64 nat int
  | Done

text \<open>
  \<^verbatim>\<open>fetch_word\<close>: the bound is the number of words with the header, the array does not hold the
  header; \<open>None\<close> is a read past the array.
\<close>

definition hsa_fetch_word :: "umr_hsa_stream \<Rightarrow> u32 \<Rightarrow> (u32 \<times> umr_hsa_stream) option" where
  "hsa_fetch_word p off =
     (if hs_nwords p \<le> off then Some (0, p\<lparr>hs_invalid := True\<rparr>)
      else map_option (\<lambda>w. (w, p)) (word_at (hs_words p) (unat off)))"

text \<open>The words of a field are combined with the lowest first.\<close>

fun hsa_value :: "umr_hsa_stream \<Rightarrow> u32 \<Rightarrow> nat \<Rightarrow> (u64 \<times> umr_hsa_stream) option" where
  "hsa_value p i 0 = Some (0, p)"
| "hsa_value p i (Suc k) = do {
     (w, p) \<leftarrow> hsa_fetch_word p i;
     (v, p) \<leftarrow> hsa_value p (i + 1) k;
     Some (ucast w OR push_bit 16 v, p) }"

text \<open>The fields of a packet, with their width in words and the radix that they are shown in.\<close>

definition hsa_args :: "string \<Rightarrow> nat \<Rightarrow> (string \<times> nat \<times> nat) list" where
  "hsa_args name k = map (\<lambda>j. (name @ ''['' @ dec_digits j @ '']'', 4, 16)) [0..<k]"

definition hsa_fields :: "u32 \<Rightarrow> (string \<times> nat \<times> nat) list" where
  "hsa_fields t =
     (if t = 2 then
        [(''setup_dimensions'', 1, 10), (''workgroup_size_x'', 1, 10), (''workgroup_size_y'', 1, 10),
         (''workgroup_size_z'', 1, 10), (''reserved0'', 1, 10),
         (''grid_size_x'', 2, 10), (''grid_size_y'', 2, 10), (''grid_size_z'', 2, 10),
         (''private_segment_size'', 2, 10), (''group_segment_size'', 2, 10),
         (''kernel_object'', 4, 16), (''kernarg_address'', 4, 16), (''reserved2'', 4, 16), (''completion_signal'', 4, 16)]
      else if t = 4 then
        [(''type'', 1, 10), (''reserved0'', 2, 10), (''return_address'', 4, 16)] @ hsa_args ''arg'' 4 @
        [(''reserved2'', 4, 16), (''completion_signal'', 4, 16)]
      else if t = 3 \<or> t = 5 then
        [(''reserved0'', 1, 10), (''reserved1'', 2, 10)] @ hsa_args ''dep_signal'' 5 @
        [(''reserved2'', 4, 16), (''completion_signal'', 4, 16)]
      else [])"

fun hsa_add_fields ::
    "u64 \<Rightarrow> u32 \<Rightarrow> u32 \<Rightarrow> (string \<times> nat \<times> nat) list \<Rightarrow> umr_hsa_stream \<Rightarrow> (ui_event list \<times> umr_hsa_stream) option" where
  "hsa_add_fields ib_addr vmid i [] p = Some ([], p)"
| "hsa_add_fields ib_addr vmid i ((name, k, radix) # fs) p = do {
     (v, p) \<leftarrow> hsa_value p i k;
     let v = (if name = ''setup_dimensions'' then v AND 3 else v);
     (es, p) \<leftarrow> hsa_add_fields ib_addr vmid (i + of_nat k) fs p;
     Some (Add_field (ib_addr + 2 * ucast i) vmid name v radix (- 16 * int k) # es, p) }"

definition hsa_type_name :: "u32 \<Rightarrow> string" where
  "hsa_type_name t =
     (let names = [''HSA_VENDOR_SPECIFIC'', ''HSA_INVALID'', ''HSA_KERNEL_DISPATCH'', ''HSA_BARRIER_AND'',
        ''HSA_AGENT_DISPATCH'', ''HSA_BARRIER_OR''] in
      if unat t < length names then names ! unat t else ''HSA_UNK'')"

text \<open>The rest of the stream is what was not presented; a packet that ran out of bounds stops there.\<close>

fun hsa_opcodes :: "u64 \<Rightarrow> u32 \<Rightarrow> u64 \<Rightarrow> umr_hsa_stream list \<Rightarrow> (ui_event list \<times> umr_hsa_stream list) option" where
  "hsa_opcodes ib_addr vmid opcodes [] = Some ([], [])"
| "hsa_opcodes ib_addr vmid opcodes (p # ps) =
     (if opcodes = 0 \<or> hs_nwords p = 0 then Some ([], p # ps)
      else do {
        (es, q) \<leftarrow> hsa_add_fields (ib_addr + 2) vmid 0 (hsa_fields (hs_type p)) p;
        let e = Start_opcode ib_addr vmid (hs_type p) (hs_nwords p) (hsa_type_name (hs_type p)) (hs_header p) (hs_words p);
        if hs_invalid q then Some (e # es, q # ps)
        else do {
          (fs, r) \<leftarrow> hsa_opcodes (ib_addr + 2 + 2 * ucast (hs_nwords p - 1)) vmid (opcodes - 1) ps;
          Some (e # es @ fs, r) } })"

definition umr_hsa_decode_stream_opcodes ::
    "u64 \<Rightarrow> u32 \<Rightarrow> u64 \<Rightarrow> umr_hsa_stream list \<Rightarrow> (ui_event list \<times> umr_hsa_stream list) option" where
  "umr_hsa_decode_stream_opcodes ib_addr vmid opcodes stream = do {
     (es, r) \<leftarrow> hsa_opcodes ib_addr vmid opcodes stream;
     Some (Start_ib ib_addr vmid # es @ [Done], r) }"

subsection \<open>MES packets\<close>

record umr_mes_stream =
  ms_words :: "u32 list"
  ms_nwords :: u32
  ms_header :: u32
  ms_opcode :: u32
  ms_type :: u32
  ms_invalid :: bool

definition zero_mes :: umr_mes_stream where
  "zero_mes = \<lparr>ms_words = [], ms_nwords = 0, ms_header = 0, ms_opcode = 0, ms_type = 0, ms_invalid = False\<rparr>"

definition mes_header :: "u32 \<Rightarrow> umr_mes_stream" where
  "mes_header w = zero_mes\<lparr>ms_nwords := drop_bit 12 w AND 0xFF, ms_opcode := drop_bit 4 w AND 0xFF,
     ms_type := w AND 0xF, ms_header := w\<rparr>"

definition mes_supported :: "umr_asic \<Rightarrow> bool" where
  "mes_supported asic \<longleftrightarrow>
     (case umr_find_ip_block (asic_blocks asic) ''gfx'' (opt_vm_partition (asic_options asic)) of
        None \<Rightarrow> False
      | Some ip \<Rightarrow> ip_maj ip = 10 \<and> ip_min ip \<ge> 1 \<or> ip_maj ip = 11 \<or> ip_maj ip = 12)"

definition mes_body :: "unit \<Rightarrow> u32 list \<Rightarrow> u32 \<Rightarrow> ('w, unit \<times> umr_mes_stream frame) dev_op" where
  "mes_body c stream nwords s = do {
     w \<leftarrow> word_at stream 0;
     let p = mes_header w;
     let n = ms_nwords p;
     if nwords < n \<or> n = 0 then Some ((c, Cut_off), s)
     else do {
       ws \<leftarrow> take_words (n - 1) (tl stream);
       Some ((c, Frame (p\<lparr>ms_words := ws\<rparr>) n), s) } }"

definition umr_mes_decode_stream :: "u32 list \<Rightarrow> u32 \<Rightarrow> ('w, umr_mes_stream list) dev_op" where
  "umr_mes_decode_stream stream nwords s =
     (if mes_supported (fst s) then do {
        ((ps, c), s) \<leftarrow> decode_loop mes_body () stream nwords s;
        Some (stream_of zero_mes nwords ps, s) }
      else Some ([], s))"

definition mes_fetch_word :: "umr_mes_stream \<Rightarrow> u32 \<Rightarrow> (u32 \<times> umr_mes_stream) option" where
  "mes_fetch_word p off =
     (if ms_nwords p \<le> off then Some (0, p\<lparr>ms_invalid := True\<rparr>)
      else map_option (\<lambda>w. (w, p)) (word_at (ms_words p) (unat off)))"

subsection \<open>UMSCH packets\<close>

text \<open>This decoder never compares a packet with what is left, and subtracts in 32 bits.\<close>

record umr_umsch_stream =
  us_opcode :: u32
  us_type :: u32
  us_nwords :: u32
  us_header_dw :: u32
  us_words :: "u32 list"

definition zero_umsch :: umr_umsch_stream where
  "zero_umsch = \<lparr>us_opcode = 0, us_type = 0, us_nwords = 0, us_header_dw = 0, us_words = []\<rparr>"

definition umsch_header :: "u32 \<Rightarrow> umr_umsch_stream" where
  "umsch_header w = zero_umsch\<lparr>us_type := w AND 0xF, us_opcode := drop_bit 4 w AND 0xFF,
     us_nwords := drop_bit 12 w AND 0xFF, us_header_dw := w\<rparr>"

function umsch_loop :: "u32 list \<Rightarrow> u32 \<Rightarrow> umr_umsch_stream list option" where
  "umsch_loop stream nwords =
     (if nwords = 0 then Some []
      else case stream of
        [] \<Rightarrow> None
      | w # rest \<Rightarrow> do {
          let n = us_nwords (umsch_header w);
          ws \<leftarrow> take_words n rest;
          ps \<leftarrow> umsch_loop (drop (unat n) rest) (nwords - (1 + n));
          Some ((umsch_header w)\<lparr>us_words := ws\<rparr> # ps) })"
  by pat_completeness auto
termination
  by (relation "measure (\<lambda>(stream, _). length stream)") auto

declare umsch_loop.simps [simp del]

definition umr_umsch_decode_stream :: "u32 list \<Rightarrow> u32 \<Rightarrow> umr_umsch_stream list option" where
  "umr_umsch_decode_stream stream nwords =
     (if nwords = 0 then Some [zero_umsch] else umsch_loop stream nwords)"

subsection \<open>HSA: decoding and presenting are safe\<close>

text \<open>A packet as the decoder makes it.\<close>

definition hsa_ok :: "umr_hsa_stream \<Rightarrow> bool" where
  "hsa_ok p \<longleftrightarrow> hs_nwords p = hsa_size (hs_type p) \<and> hs_nwords p \<noteq> 0 \<and> Suc (length (hs_words p)) = unat (hs_nwords p) \<and>
     \<not> hs_invalid p"

definition hsa_wire :: "umr_hsa_stream \<Rightarrow> u16 list" where
  "hsa_wire p = ucast (hs_header p) # map ucast (hs_words p)"

lemma hsa_header_simps [simp]:
  "hs_header (hsa_header h) = ucast h" "hs_nwords (hsa_header h) = hsa_size (ucast h AND 0xFF)"
  "hs_type (hsa_header h) = ucast h AND 0xFF" "hs_invalid (hsa_header h) = False"
  by (simp_all add: hsa_header_def zero_hsa_def Let_def)

lemma ucast_u16_u32 [simp]: "ucast (ucast (h :: u16) :: u32) = h"
  by (rule bit_word_eqI) (simp add: bit_simps)

lemma unat_pred: "n \<noteq> 0 \<Longrightarrow> Suc (unat (n - 1)) = unat n" for n :: u32
  by (metis Suc_pred' unat_gt_0 unat_minus_one)

lemma hsa_body_frame:
  assumes "hsa_body c stream nwords s = Some ((c', Frame p n), s')"
  shows "hsa_ok p" "n = hs_nwords p" "n \<le> nwords" "take (unat n) stream = hsa_wire p"
proof -
  obtain h rest where st: "stream = h # rest" using assms by (cases stream) (simp_all add: hsa_body_def)
  let ?n = "hsa_size (ucast h AND 0xFF)"
  have n: "?n \<noteq> 0" "?n \<le> nwords" "unat (?n - 1) \<le> length rest" "n = ?n"
    "p = (hsa_header h)\<lparr>hs_words := map ucast (take (unat (?n - 1)) rest)\<rparr>"
    using assms by (auto simp: hsa_body_def st Let_def take_words_def not_less split: if_splits)
  show "hsa_ok p" "n = hs_nwords p" "n \<le> nwords" using n unat_pred [OF n(1)] by (simp_all add: hsa_ok_def)
  show "take (unat n) stream = hsa_wire p"
    using n unat_pred [OF n(1)] by (simp add: hsa_wire_def st comp_def flip: unat_pred)
qed

interpretation hsa: total_body "hsa_body :: unit \<Rightarrow> u16 list \<Rightarrow> u32 \<Rightarrow> ('w, unit \<times> umr_hsa_stream frame) dev_op" hsa_wire
proof
  fix c stream nwords s c' p n s'
  assume b: "(hsa_body :: unit \<Rightarrow> u16 list \<Rightarrow> u32 \<Rightarrow> ('w, unit \<times> umr_hsa_stream frame) dev_op) c stream nwords s = Some ((c', Frame p n), s')"
  show "n \<noteq> 0 \<and> n \<le> nwords \<and> length (hsa_wire p) = unat n \<and> take (unat n) stream = hsa_wire p"
    using hsa_body_frame [OF b] by (auto simp: hsa_ok_def hsa_wire_def)
next
  fix nwords :: u32 and stream :: "u16 list" and c and s :: "umr_asic \<times> 'w"
  assume a: "unat nwords \<le> length stream" "nwords \<noteq> 0"
  then obtain h rest where st: "stream = h # rest" by (cases stream) (simp_all add: unat_eq_zero)
  let ?n = "hsa_size (ucast h AND 0xFF)"
  have "unat (?n - 1) \<le> length rest" if "?n \<noteq> 0" "\<not> nwords < ?n"
    using that a unat_pred [OF that(1)] by (simp add: st not_less word_le_nat_alt)
  then show "hsa_body c stream nwords s \<noteq> None"
    by (auto simp: hsa_body_def st Let_def take_words_def)
qed

text \<open>Every format spends exactly the 31 words after the header.\<close>

lemma hsa_fields_width: "hsa_size t \<noteq> 0 \<Longrightarrow> sum_list (map (\<lambda>(_, k, _). k) (hsa_fields t)) < unat (hsa_size t)"
  by (auto simp: hsa_size_def hsa_fields_def hsa_args_def comp_def sum_list_triv upt_rec split: if_splits)

lemma hsa_value_in_bounds:
  "unat i + k \<le> length (hs_words p) \<Longrightarrow> length (hs_words p) < unat (hs_nwords p) \<Longrightarrow> \<exists>v. hsa_value p i k = Some (v, p)"
proof (induction k arbitrary: i)
  case (Suc k)
  have i: "unat i < length (hs_words p)" "unat i < unat (hs_nwords p)" using Suc.prems by simp_all
  then have "unat (i + 1) = Suc (unat i)"
    using unsigned_less [where 'a = nat, of "hs_nwords p"] by (simp add: unat_word_ariths)
  then obtain v where "hsa_value p (i + 1) k = Some (v, p)" using Suc by force
  moreover have "hsa_fetch_word p i = Some (hs_words p ! unat i, p)"
    using i by (simp add: hsa_fetch_word_def word_at_def word_le_nat_alt)
  ultimately show ?case by simp
qed simp

lemma hsa_add_fields_in_bounds:
  "unat i + sum_list (map (\<lambda>(_, k, _). k) fs) \<le> length (hs_words p) \<Longrightarrow> length (hs_words p) < unat (hs_nwords p) \<Longrightarrow>
   \<exists>es. hsa_add_fields a vmid i fs p = Some (es, p) \<and> list_all (\<lambda>e. \<exists>b n v r k. e = Add_field b vmid n v r k) es"
proof (induction fs arbitrary: i)
  case (Cons f fs)
  obtain name k radix where f: "f = (name, k, radix)" by (metis surj_pair)
  obtain v where v: "hsa_value p i k = Some (v, p)" using hsa_value_in_bounds [of i k p] Cons.prems by (auto simp: f)
  have "unat (i + of_nat k) = unat i + k"
    using Cons.prems unsigned_less [where 'a = nat, of "hs_nwords p"] by (simp add: f unat_word_ariths unat_of_nat)
  then obtain es where "hsa_add_fields a vmid (i + of_nat k) fs p = Some (es, p)"
    "list_all (\<lambda>e. \<exists>b n v r k. e = Add_field b vmid n v r k) es"
    using Cons.IH [of "i + of_nat k"] Cons.prems by (auto simp: f)
  then show ?case using v by (simp add: f)
qed simp

fun opcode_addrs :: "ui_event list \<Rightarrow> u64 list" where
  "opcode_addrs [] = []"
| "opcode_addrs (Start_opcode a _ _ _ _ _ _ # es) = a # opcode_addrs es"
| "opcode_addrs (_ # es) = opcode_addrs es"

fun hsa_addrs :: "u64 \<Rightarrow> umr_hsa_stream list \<Rightarrow> u64 list" where
  "hsa_addrs a [] = []"
| "hsa_addrs a (p # ps) = a # hsa_addrs (a + 2 * of_nat (length (hsa_wire p))) ps"

lemma opcode_addrs_append: "opcode_addrs (es @ fs) = opcode_addrs es @ opcode_addrs fs"
  by (induction es rule: opcode_addrs.induct) auto

lemma opcode_addrs_fields: "list_all (\<lambda>e. \<exists>b n v r k. e = Add_field b vmid n v r k) es \<Longrightarrow> opcode_addrs es = []"
  by (induction es) auto

lemma hsa_packet_presented:
  assumes "hsa_ok p"
  obtains es where "hsa_add_fields a vmid 0 (hsa_fields (hs_type p)) p = Some (es, p)" "opcode_addrs es = []"
proof -
  have "unat (0 :: u32) + sum_list (map (\<lambda>(_, k, _). k) (hsa_fields (hs_type p))) \<le> length (hs_words p)"
    "length (hs_words p) < unat (hs_nwords p)"
    using assms hsa_fields_width [of "hs_type p"] by (auto simp: hsa_ok_def)
  from hsa_add_fields_in_bounds [OF this, of a vmid] show ?thesis using that opcode_addrs_fields by blast
qed

lemma hsa_opcodes_all:
  "list_all hsa_ok ps \<Longrightarrow> length ps \<le> unat opcodes \<Longrightarrow>
   \<exists>es. hsa_opcodes a vmid opcodes ps = Some (es, []) \<and> opcode_addrs es = hsa_addrs a ps"
proof (induction ps arbitrary: a opcodes)
  case (Cons p ps)
  obtain es where es: "hsa_add_fields (a + 2) vmid 0 (hsa_fields (hs_type p)) p = Some (es, p)" "opcode_addrs es = []"
    using hsa_packet_presented [of p "a + 2" vmid] Cons.prems(1) by auto
  have o: "opcodes \<noteq> 0" using Cons.prems(2) by auto
  then have "unat (opcodes - 1) = unat opcodes - 1" by (metis unat_minus_one)
  then obtain fs where fs: "hsa_opcodes (a + 2 + 2 * ucast (hs_nwords p - 1)) vmid (opcodes - 1) ps = Some (fs, [])"
    "opcode_addrs fs = hsa_addrs (a + 2 + 2 * ucast (hs_nwords p - 1)) ps"
    using Cons.IH [of "opcodes - 1"] Cons.prems by fastforce
  have ok: "hs_nwords p \<noteq> 0" "\<not> hs_invalid p" "Suc (length (hs_words p)) = unat (hs_nwords p)"
    using Cons.prems(1) unfolding list.pred_inject hsa_ok_def by blast+
  have "unat (hs_nwords p - 1) = length (hs_words p)" using unat_pred [OF ok(1)] ok(3) by simp
  then have "(ucast (hs_nwords p - 1) :: u64) = of_nat (length (hs_words p))" by (metis of_nat_unat)
  then have e: "a + 2 + 2 * ucast (hs_nwords p - 1) = a + 2 * of_nat (length (hsa_wire p))"
    by (simp add: hsa_wire_def algebra_simps)
  show ?case using es fs [unfolded e] o ok by (simp add: opcode_addrs_append e)
qed simp

lemma unat_minus_1_u64: "unat (- 1 :: u64) = 2 ^ 64 - 1"
  by (simp add: unsigned_minus_1_eq_mask mask_eq_exp_minus_1)

lemma length_halves [simp]: "length (halves ws) = 2 * length ws"
  by (induction ws) (simp_all add: halves_def)

text \<open>C18: On every buffer, however garbled, the HSA decoder returns packets that are the beginning of the buffer,
  and presenting them reads no word outside a packet, flags none as invalid, reaches the end, and gives each
  packet the address at which it lies.\<close>

theorem hsa_pipeline_safe:
  assumes "0 < unat nwords" and "unat nwords < 2 ^ 31" and "unat nwords \<le> length stream"
  shows "\<exists>ps es rest. umr_hsa_decode_stream stream nwords s = Some (ps, s) \<and>
    take (2 * unat nwords) (halves stream) = concat (map hsa_wire ps) @ rest \<and>
    umr_hsa_decode_stream_opcodes addr vmid (- 1) ps = Some (es, []) \<and> opcode_addrs es = hsa_addrs addr ps"
proof -
  let ?n = "nwords * 2"
  have n: "unat ?n = 2 * unat nwords" using assms(2) by (simp add: unat_word_ariths)
  then have nz: "?n \<noteq> 0" using assms(1) by (metis mult_eq_0_iff neq0_conv unat_0 zero_neq_numeral)
  obtain r c s1 where l: "decode_loop hsa_body () (halves stream) ?n s = Some ((r, c), s1)"
    using hsa.loop_returns [of ?n "halves stream" "()" s] n assms(3) by auto
  have s: "s1 = s"
    by (rule decode_loop_pure [OF _ l]) (auto simp: hsa_body_def Let_def split: bind_splits if_splits)
  show ?thesis
  proof (cases r)
    case None
    then show ?thesis using l s nz n
      by - (rule exI [of _ "[]"], simp add: umr_hsa_decode_stream_def stream_of_def umr_hsa_decode_stream_opcodes_def)
  next
    case (Some ps)
    have all: "list_all hsa_ok ps" using decode_loop_all [OF hsa_body_frame(1) l [unfolded Some]] .
    obtain rest where p: "take (unat ?n) (halves stream) = concat (map hsa_wire ps) @ rest"
      using hsa.loop_partitions [OF l [unfolded Some]] by blast
    have "length ps \<le> length (concat (map hsa_wire ps))" by (induction ps) (simp_all add: hsa_wire_def)
    also have "\<dots> \<le> unat ?n" using arg_cong [OF p, of length] by simp
    finally have "length ps \<le> unat (- 1 :: u64)" using unsigned_less [where 'a = nat, of ?n] unat_minus_1_u64 by simp
    then obtain es where "hsa_opcodes addr vmid (- 1) ps = Some (es, [])" "opcode_addrs es = hsa_addrs addr ps"
      using hsa_opcodes_all [OF all] by blast
    then show ?thesis using l s nz Some p n
      by (simp add: umr_hsa_decode_stream_def stream_of_def umr_hsa_decode_stream_opcodes_def opcode_addrs_append)
  qed
qed

theorem hsa_pipeline_safe_witness:
  "\<exists>ps es rest. umr_hsa_decode_stream [0x00010001, 0xFFFF] 2 (demo_dev, ()) = Some (ps, (demo_dev, ())) \<and>
    take 4 (halves [0x00010001, 0xFFFF]) = concat (map hsa_wire ps) @ rest \<and>
    umr_hsa_decode_stream_opcodes 0x1000 3 (- 1) ps = Some (es, []) \<and> opcode_addrs es = hsa_addrs 0x1000 ps"
  using hsa_pipeline_safe [of 2 "[0x00010001, 0xFFFF]" "(demo_dev, ())" "0x1000" 3] by simp

subsection \<open>MES: round trip and the last word\<close>

definition mes_wire :: "umr_mes_stream \<Rightarrow> u32 list" where
  "mes_wire p = ms_header p # ms_words p"

definition mes_ok :: "umr_mes_stream \<Rightarrow> bool" where
  "mes_ok p \<longleftrightarrow> p = (mes_header (ms_header p))\<lparr>ms_words := ms_words p\<rparr> \<and> ms_nwords p \<noteq> 0 \<and> Suc (length (ms_words p)) = unat (ms_nwords p)"

lemma mes_header_simps [simp]:
  "ms_header (mes_header w) = w" "ms_nwords (mes_header w) = drop_bit 12 w AND 0xFF"
  by (simp_all add: mes_header_def)

lemma mes_body_frame:
  assumes "mes_body c stream nwords s = Some ((c', Frame p n), s')"
  shows "mes_ok p" "n = ms_nwords p" "n \<le> nwords" "take (unat n) stream = mes_wire p"
proof -
  obtain w rest where st: "stream = w # rest" using assms by (cases stream) (simp_all add: mes_body_def)
  let ?n = "drop_bit 12 w AND 0xFF"
  have n: "?n \<noteq> 0" "?n \<le> nwords" "unat (?n - 1) \<le> length rest" "n = ?n"
    "p = (mes_header w)\<lparr>ms_words := take (unat (?n - 1)) rest\<rparr>"
    using assms by (auto simp: mes_body_def st Let_def take_words_def not_less split: if_splits)
  show "mes_ok p" "n = ms_nwords p" "n \<le> nwords" using n unat_pred [OF n(1)] by (simp_all add: mes_ok_def)
  show "take (unat n) stream = mes_wire p"
    using n unat_pred [OF n(1)] by (simp add: mes_wire_def st flip: unat_pred)
qed

lemma mes_ok_header: "mes_ok p \<Longrightarrow> drop_bit 12 (ms_header p) AND 0xFF = ms_nwords p"
  by (metis mes_ok_def mes_header_simps(2) umr_mes_stream.select_convs(2) umr_mes_stream.surjective umr_mes_stream.update_convs(1))

interpretation mes: cut_body "mes_body :: unit \<Rightarrow> u32 list \<Rightarrow> u32 \<Rightarrow> ('w, unit \<times> umr_mes_stream frame) dev_op" mes_wire "\<lambda>_. mes_ok"
proof
  fix c stream nwords s c' p n s'
  assume b: "(mes_body :: unit \<Rightarrow> u32 list \<Rightarrow> u32 \<Rightarrow> ('w, unit \<times> umr_mes_stream frame) dev_op) c stream nwords s = Some ((c', Frame p n), s')"
  show "n \<noteq> 0 \<and> n \<le> nwords \<and> length (mes_wire p) = unat n \<and> take (unat n) stream = mes_wire p"
    using mes_body_frame [OF b] by (auto simp: mes_ok_def mes_wire_def)
next
  fix s :: "umr_asic \<times> 'w" and p and nwords :: u32 and rest c
  assume ok: "mes_ok p" and n: "length (mes_wire p) \<le> unat nwords"
  have k: "ms_nwords p \<noteq> 0" "Suc (length (ms_words p)) = unat (ms_nwords p)" and p: "(mes_header (ms_header p))\<lparr>ms_words := ms_words p\<rparr> = p"
    using ok unfolding mes_ok_def by metis+
  then have "unat (ms_nwords p - 1) = length (ms_words p)" "\<not> nwords < ms_nwords p" "of_nat (length (mes_wire p)) = ms_nwords p"
    using n unat_pred [OF k(1)] by (simp_all add: mes_wire_def word_less_nat_alt del: of_nat_Suc)
  then show "\<exists>c'. mes_body c (mes_wire p @ rest) nwords s = Some ((c', Frame p (of_nat (length (mes_wire p)))), s)"
    using k p mes_ok_header [OF ok] by (simp add: mes_body_def mes_wire_def Let_def take_words_def del: of_nat_Suc)
next
  fix s :: "umr_asic \<times> 'w" and p
  assume "mes_ok p"
  then show "mes_wire p \<noteq> [] \<and> length (mes_wire p) < 2 ^ 32"
    using unsigned_less [where 'a = nat, of "ms_nwords p"] by (simp add: mes_ok_def mes_wire_def)
next
  fix s :: "umr_asic \<times> 'w" and p u v c
  assume ok: "mes_ok p" and w: "mes_wire p = u @ v" and ne: "u \<noteq> []" "v \<noteq> []"
  obtain r where u: "u = ms_header p # r" using w ne by (cases u) (auto simp: mes_wire_def)
  have l: "length (u @ v) = unat (ms_nwords p)" unfolding w [symmetric] using ok by (simp add: mes_ok_def mes_wire_def)
  then have lt: "length u < unat (ms_nwords p)" using ne by (cases v) simp_all
  then have "unat (of_nat (length u) :: u32) = length u"
    using unsigned_less [where 'a = nat, of "ms_nwords p"] by (intro unat_of_length) simp
  then have "of_nat (length u) < ms_nwords p" using lt by (simp add: word_less_nat_alt)
  then show "\<exists>c'. mes_body c u (of_nat (length u)) s = Some ((c', Cut_off), s)"
    using mes_ok_header [OF ok] by (simp add: mes_body_def u Let_def)
qed

text \<open>MES packets written out decode to themselves, and a buffer that ends in the middle of a packet loses
  only that packet.\<close>

theorem mes_roundtrip:
  assumes "mes_supported (fst s)" and "list_all mes_ok ps" and "ps \<noteq> []" and "mes_ok p" and "mes_wire p = u @ v" and "v \<noteq> []"
    and "length (concat (map mes_wire ps) @ u) < 2 ^ 32"
  shows "umr_mes_decode_stream (concat (map mes_wire ps) @ u) (of_nat (length (concat (map mes_wire ps) @ u))) s = Some (ps, s)"
proof -
  let ?ws = "concat (map mes_wire ps) @ u"
  obtain c' where "decode_loop mes_body () ?ws (of_nat (length ?ws)) s = Some ((Some ps, c'), s)"
    using mes.decode_wire_cut [OF assms(2,4-7), of "()"] by blast
  moreover have "?ws \<noteq> []" using assms(3) by (cases ps) (simp_all add: mes_wire_def)
  then have "(of_nat (length ?ws) :: u32) \<noteq> 0" using unat_of_length [OF assms(7)] by (metis length_0_conv unat_0)
  ultimately show ?thesis using assms(1) by (simp add: umr_mes_decode_stream_def stream_of_def)
qed

text \<open>The bounds check of the MES presenter counts the header, which the array of words does not hold: asking
  for the word after the last one of any decoded packet passes the check and reads past the array.\<close>

theorem mes_fetch_overread:
  assumes "umr_mes_decode_stream stream nwords s = Some (ps, s')" and "nwords \<noteq> 0" and "p \<in> set ps"
  shows "mes_fetch_word p (ms_nwords p - 1) = None"
proof -
  obtain r c s1 where l: "decode_loop mes_body () stream nwords s = Some ((r, c), s1)" "ps = stream_of zero_mes nwords r" "s1 = s'"
    using assms(1,3) by (cases "mes_supported (fst s)"; cases "decode_loop mes_body () stream nwords s") (auto simp: umr_mes_decode_stream_def)
  then have l': "decode_loop mes_body () stream nwords s = Some ((Some ps, c), s')"
    using assms(2,3) by (cases r) (simp_all add: stream_of_def)
  have "list_all mes_ok ps" by (rule decode_loop_all [OF mes_body_frame(1) l'])
  then have "mes_ok p" using assms(3) by (simp add: list_all_iff)
  then have k: "ms_nwords p \<noteq> 0" "Suc (length (ms_words p)) = unat (ms_nwords p)" by (auto simp: mes_ok_def)
  then have "unat (ms_nwords p - 1) = length (ms_words p)" using unat_pred [OF k(1)] by simp
  then show ?thesis using k by (simp add: mes_fetch_word_def word_at_def word_le_nat_alt)
qed

definition demo_mes_dev :: umr_asic where
  "demo_mes_dev = demo_dev\<lparr>asic_blocks := [(demo_block ''gfx11'' [])\<lparr>ip_discoverable := (ip_discoverable (demo_block ''gfx11'' []))\<lparr>disc_maj := 11\<rparr>\<rparr>]\<rparr>"

definition demo_mes_packet :: umr_mes_stream where
  "demo_mes_packet = (mes_header 0x00003021)\<lparr>ms_words := [7, 8]\<rparr>"

lemma demo_mes_packet_ok: "mes_ok demo_mes_packet" "mes_wire demo_mes_packet = [0x3021, 7, 8]"
  by (simp_all add: mes_ok_def mes_wire_def demo_mes_packet_def)

lemma demo_mes_supported: "mes_supported demo_mes_dev"
  by code_simp

theorem mes_roundtrip_witness:
  "umr_mes_decode_stream [0x3021, 7, 8, 0x3021, 7] 5 (demo_mes_dev, ()) = Some ([demo_mes_packet], (demo_mes_dev, ()))"
  using mes_roundtrip [of "(demo_mes_dev, ())" "[demo_mes_packet]" demo_mes_packet "[0x3021, 7]" "[8]"]
    demo_mes_packet_ok demo_mes_supported by simp

theorem mes_fetch_overread_witness: "mes_fetch_word demo_mes_packet 2 = None"
proof -
  have "umr_mes_decode_stream [0x3021, 7, 8] 3 (demo_mes_dev, ()) = Some ([demo_mes_packet], (demo_mes_dev, ()))"
    by (simp add: umr_mes_decode_stream_def demo_mes_supported decode_loop.simps mes_body_def take_words_def demo_mes_packet_def stream_of_def)
  from mes_fetch_overread [OF this, of demo_mes_packet] show ?thesis by (simp add: demo_mes_packet_def)
qed

subsection \<open>UMSCH: what the missing check costs\<close>

definition umsch_wire :: "umr_umsch_stream \<Rightarrow> u32 list" where
  "umsch_wire p = us_header_dw p # us_words p"

definition umsch_ok :: "umr_umsch_stream \<Rightarrow> bool" where
  "umsch_ok p \<longleftrightarrow> p = (umsch_header (us_header_dw p))\<lparr>us_words := us_words p\<rparr> \<and> length (us_words p) = unat (us_nwords p)"

lemma umsch_header_simps [simp]:
  "us_header_dw (umsch_header w) = w" "us_nwords (umsch_header w) = drop_bit 12 w AND 0xFF"
  by (simp_all add: umsch_header_def)

lemma umsch_count: "unat (1 + (x AND 0xFF :: u32)) = Suc (unat (x AND 0xFF))"
  by (rule unat_1_plus, rule order_trans, rule word_and_le1) simp

lemma umsch_loop_sound:
  "umsch_loop stream nwords = Some ps \<Longrightarrow> length stream = unat nwords \<Longrightarrow>
   list_all umsch_ok ps \<and> stream = concat (map umsch_wire ps)"
proof (induction "length stream" arbitrary: stream nwords ps rule: less_induct)
  case less
  show ?case
  proof (cases stream)
    case Nil
    then have "nwords = 0" using less.prems(2) by (simp add: unat_eq_zero)
    then show ?thesis using less.prems(1) Nil by (simp add: umsch_loop.simps)
  next
    case (Cons w rest)
    let ?n = "drop_bit 12 w AND 0xFF"
    have "nwords \<noteq> 0" using less.prems(2) Cons by auto
    then obtain qs where n: "unat ?n \<le> length rest" and l: "umsch_loop (drop (unat ?n) rest) (nwords - (1 + ?n)) = Some qs"
      and ps: "ps = (umsch_header w)\<lparr>us_words := take (unat ?n) rest\<rparr> # qs"
      using less.prems(1) by (subst (asm) umsch_loop.simps) (auto simp: Cons Let_def take_words_def split: bind_splits if_splits)
    have "1 + ?n \<le> nwords" using n less.prems(2) by (simp add: word_le_nat_alt umsch_count Cons)
    then have "length (drop (unat ?n) rest) = unat (nwords - (1 + ?n))"
      using less.prems(2) by (simp add: unat_sub umsch_count Cons)
    then have q: "list_all umsch_ok qs" "drop (unat ?n) rest = concat (map umsch_wire qs)"
      using less.hyps [OF _ l] Cons by auto
    have "rest = take (unat ?n) rest @ concat (map umsch_wire qs)" unfolding q(2) [symmetric] by simp
    then show ?thesis using q(1) n by (simp add: ps Cons umsch_ok_def umsch_wire_def)
  qed
qed

lemma umsch_loop_complete:
  "list_all umsch_ok ps \<Longrightarrow> length (concat (map umsch_wire ps)) < 2 ^ 32 \<Longrightarrow>
   umsch_loop (concat (map umsch_wire ps)) (of_nat (length (concat (map umsch_wire ps)))) = Some ps"
proof (induction ps)
  case Nil
  then show ?case by (simp add: umsch_loop.simps)
next
  case (Cons p ps)
  let ?w = "us_header_dw p" and ?r = "concat (map umsch_wire ps)"
  have p: "(umsch_header ?w)\<lparr>us_words := us_words p\<rparr> = p" and len: "length (us_words p) = unat (us_nwords p)"
    using Cons.prems(1) unfolding list.pred_inject umsch_ok_def by metis+
  have n: "drop_bit 12 ?w AND 0xFF = us_nwords p"
    using arg_cong [OF p, of us_nwords] by simp
  let ?N = "of_nat (length (umsch_wire p @ ?r)) :: u32"
  have e: "?N - (1 + us_nwords p) = of_nat (length ?r)" using len by (simp add: umsch_wire_def)
  have "unat ?N = length (umsch_wire p @ ?r)" using Cons.prems(2) by (intro unat_of_length) simp
  then have "?N \<noteq> 0" by (auto simp: umsch_wire_def simp del: of_nat_Suc of_nat_add)
  moreover have "umsch_loop ?r (of_nat (length ?r)) = Some ps" using Cons by simp
  ultimately show ?case using p len n e
    by (subst umsch_loop.simps) (simp add: umsch_wire_def take_words_def Let_def del: of_nat_Suc of_nat_add)
qed

text \<open>C21: The UMSCH decoder returns exactly on the buffers that packets fill to the last word, and then with
  those packets; every other buffer, in particular one that ends inside a packet, is read past its end.\<close>

theorem umsch_returns_iff_tiled:
  assumes "0 < unat nwords" and "length stream = unat nwords"
  shows "umr_umsch_decode_stream stream nwords = Some ps \<longleftrightarrow> list_all umsch_ok ps \<and> stream = concat (map umsch_wire ps)"
proof
  assume "umr_umsch_decode_stream stream nwords = Some ps"
  then show "list_all umsch_ok ps \<and> stream = concat (map umsch_wire ps)"
    using umsch_loop_sound [of stream nwords ps] assms by (cases "nwords = 0") (simp_all add: umr_umsch_decode_stream_def)
next
  assume r: "list_all umsch_ok ps \<and> stream = concat (map umsch_wire ps)"
  have "length stream < 2 ^ 32" using assms(2) unsigned_less [where 'a = nat, of nwords] by simp
  moreover have "of_nat (length stream) = nwords" unfolding assms(2) by simp
  ultimately show "umr_umsch_decode_stream stream nwords = Some ps"
    using umsch_loop_complete [of ps] r assms(1) by (auto simp: umr_umsch_decode_stream_def)
qed

theorem umsch_returns_iff_tiled_witness:
  "\<not> (\<exists>ps. umr_umsch_decode_stream [0x2000, 7] 2 = Some ps)"
proof -
  have "\<not> (list_all umsch_ok ps \<and> [0x2000, 7] = concat (map umsch_wire ps))" for ps
  proof
    assume a: "list_all umsch_ok ps \<and> [0x2000, 7] = concat (map umsch_wire ps)"
    then obtain p qs where ps: "ps = p # qs" by (cases ps) auto
    then have h: "us_header_dw p = 0x2000" and ok: "umsch_ok p" and l: "length (us_words p) \<le> 1"
      using a by (auto simp: umsch_wire_def Cons_eq_append_conv dest: sym)
    have "us_nwords p = us_nwords (umsch_header 0x2000)"
      using ok h unfolding umsch_ok_def by (metis umr_umsch_stream.select_convs(3) umr_umsch_stream.surjective umr_umsch_stream.update_convs(5))
    then show False using ok l by (simp add: umsch_ok_def)
  qed
  then show ?thesis using umsch_returns_iff_tiled [of 2 "[0x2000, 7]"] by simp
qed

end
