(* ===== verification/Pm4_Stream.thy ===== *)
theory Pm4_Stream
  imports Packet_Frame
begin

unbundle bit_operations_syntax

text \<open>
  PM4 packets (\<^verbatim>\<open>src/lib/read_pm4_stream.c\<close>, \<^verbatim>\<open>src/lib/pm4_lite.c\<close>, and \<^verbatim>\<open>umr_compute_shader_size\<close>
  of \<^verbatim>\<open>src/lib/shader_disasm.c\<close>).  The full decoder follows indirect buffers and looks for
  shaders; the lite one only cuts the buffer into packets.  The first argument of the full
  decoder bounds the nesting of indirect buffers, as the C stack does: \<open>None\<close> is a stack that
  ran out, a read outside a buffer, or an access that does not return.
\<close>

subsection \<open>Packets\<close>

record umr_shaders_pgm =
  sh_vmid :: u32
  sh_size :: u32
  sh_rsrc1 :: u32
  sh_rsrc2 :: u32
  sh_type :: nat
  sh_addr :: u64

text \<open>A chain of VCN command messages is a list; the buffer holds whole words.\<close>

record umr_vcn_cmd_message =
  vcn_vmid :: u32
  vcn_size :: u32
  vcn_type :: u32
  vcn_addr :: u64
  vcn_from :: u64
  vcn_cmd :: u32
  vcn_buf :: "u32 list"

record pm4_fields =
  pf_pkttype :: u32
  pf_pkt0off :: u32
  pf_opcode :: u32
  pf_header :: u32
  pf_n_words :: u32
  pf_words :: "u32 list"
  pf_ib_source :: "u64 \<times> u32"
  pf_shader :: "umr_shaders_pgm option"
  pf_vcn :: "umr_vcn_cmd_message list"
  pf_invalid :: bool

datatype umr_pm4_stream = Pm4 (pm4_fields: pm4_fields) (pm4_ib: "umr_pm4_stream list")

definition zero_pm4 :: pm4_fields where
  "zero_pm4 = \<lparr>pf_pkttype = 0, pf_pkt0off = 0, pf_opcode = 0, pf_header = 0, pf_n_words = 0, pf_words = [],
     pf_ib_source = (0, 0), pf_shader = None, pf_vcn = [], pf_invalid = False\<rparr>"

definition fetch_word :: "pm4_fields \<Rightarrow> u32 \<Rightarrow> (u32 \<times> pm4_fields) option" where
  "fetch_word p off =
     (if pf_n_words p \<le> off then Some (0, p\<lparr>pf_invalid := True\<rparr>)
      else map_option (\<lambda>w. (w, p)) (word_at (pf_words p) (unat off)))"

subsection \<open>The size of a shader\<close>

text \<open>
  The scan reads pages of 256 bytes; \<open>x\<close> indexes the page, \<open>y\<close> counts the bytes scanned.
\<close>

abbreviation (input) S_ENDPGM :: u32 where "S_ENDPGM \<equiv> 0xbf810000"
abbreviation (input) S_ENDINV :: u32 where "S_ENDINV \<equiv> 0xbf9f0000"

definition is_endpgm :: "u32 \<Rightarrow> bool" where
  "is_endpgm w \<longleftrightarrow> w = S_ENDPGM \<or> w = S_ENDINV"

text \<open>The words of one page: either the scan ends with a size, or it goes on with new counters.\<close>

fun scan_page :: "bool \<Rightarrow> u32 list \<Rightarrow> u32 \<Rightarrow> u32 \<Rightarrow> nat \<Rightarrow> u32 + (u32 \<times> u32 \<times> nat)" where
  "scan_page early [] y lastendpgm cnt = Inr (y, lastendpgm, cnt)"
| "scan_page early (w # ws) y lastendpgm cnt =
     (let y = y + 4 in
      if is_endpgm w then
        (if cnt + 1 = 5 then Inl (y - 16)
         else if early then Inl (y - 4 + 4)
         else scan_page early ws y (y - 4) (cnt + 1))
      else scan_page early ws y lastendpgm 0)"

partial_function (option) shader_scan ::
    "'w vm_env \<Rightarrow> int \<Rightarrow> u32 \<Rightarrow> u64 \<Rightarrow> u32 \<Rightarrow> u32 \<Rightarrow> nat \<Rightarrow> ('w, u32) dev_op" where
  "shader_scan E part vmid addr y lastendpgm cnt s = do {
     ((r, bytes), s) \<leftarrow> umr_read_vram E part vmid addr 256 s;
     if r < 0 then Some (lastendpgm + 4, s)
     else (case scan_page (opt_disasm_early_term (asic_options (fst s))) (dwords_of_bytes bytes) y lastendpgm cnt of
             Inl n \<Rightarrow> Some (n, s)
           | Inr (y, lastendpgm, cnt) \<Rightarrow> shader_scan E part vmid (addr + 256) y lastendpgm cnt s) }"

definition umr_compute_shader_size :: "'w vm_env \<Rightarrow> int \<Rightarrow> u32 \<Rightarrow> u64 \<Rightarrow> ('w, u32) dev_op" where
  "umr_compute_shader_size E part vmid addr = shader_scan E part vmid addr 0 0 0"

subsection \<open>Shader programs in register writes\<close>

abbreviation (input) UMR_SHADER_PIXEL :: nat where "UMR_SHADER_PIXEL \<equiv> 0"
abbreviation (input) UMR_SHADER_VERTEX :: nat where "UMR_SHADER_VERTEX \<equiv> 1"
abbreviation (input) UMR_SHADER_COMPUTE :: nat where "UMR_SHADER_COMPUTE \<equiv> 2"
abbreviation (input) UMR_SHADER_HS :: nat where "UMR_SHADER_HS \<equiv> 3"
abbreviation (input) UMR_SHADER_GS :: nat where "UMR_SHADER_GS \<equiv> 4"
abbreviation (input) UMR_SHADER_ES :: nat where "UMR_SHADER_ES \<equiv> 5"
abbreviation (input) UMR_SHADER_LS :: nat where "UMR_SHADER_LS \<equiv> 6"
abbreviation (input) UMR_SHADER_OPAQUE :: nat where "UMR_SHADER_OPAQUE \<equiv> 7"

definition shader_type :: "umr_asic \<Rightarrow> string \<Rightarrow> nat" where
  "shader_type asic name =
     (let en = opt_shader_enable (asic_options asic); old = asic_family asic \<le> FAMILY_VI in
      if strstr name ''LO_PS'' then (if enable_ps_shader en then UMR_SHADER_PIXEL else UMR_SHADER_OPAQUE)
      else if strstr name ''LO_VS'' then (if enable_vs_shader en then UMR_SHADER_VERTEX else UMR_SHADER_OPAQUE)
      else if strstr name ''LO_HS'' then (if old \<or> enable_hs_shader en then UMR_SHADER_HS else UMR_SHADER_OPAQUE)
      else if strstr name ''LO_GS'' then (if old \<or> enable_gs_shader en then UMR_SHADER_GS else UMR_SHADER_OPAQUE)
      else if strstr name ''LO_LS'' then
        (if enable_ls_shader en then (if \<not> old \<and> enable_es_ls_swap en then UMR_SHADER_HS else UMR_SHADER_LS)
         else UMR_SHADER_OPAQUE)
      else if strstr name ''LO_ES'' then
        (if enable_es_shader en then (if \<not> old \<and> enable_es_ls_swap en then UMR_SHADER_GS else UMR_SHADER_ES)
         else UMR_SHADER_OPAQUE)
      else (if enable_comp_shader en then UMR_SHADER_COMPUTE else UMR_SHADER_OPAQUE))"

text \<open>What a run of register writes has shown so far: bit 0 of \<open>rs_na\<close> for the low, bit 1 for the high address.\<close>

record sh_regs =
  rs_na :: u32
  rs_addr :: u64
  rs_type :: nat
  rs_rsrc1 :: u32
  rs_rsrc2 :: u32

definition sh_reg_write :: "umr_asic \<Rightarrow> string \<Rightarrow> u32 \<Rightarrow> sh_regs \<Rightarrow> sh_regs" where
  "sh_reg_write asic name w r =
     (if strstr name ''SPI_SHADER_PGM_LO_'' \<or> strstr name ''COMPUTE_PGM_LO'' then
        (let t = shader_type asic name in
         r\<lparr>rs_type := t,
           rs_addr := (rs_addr r AND NOT 0xFFFFFFFFFF) OR push_bit 8 (ucast w),
           rs_na := (if t \<noteq> UMR_SHADER_OPAQUE then rs_na r OR 1 else rs_na r)\<rparr>)
      else if strstr name ''SPI_SHADER_PGM_HI_'' \<or> strstr name ''COMPUTE_PGM_HI'' then
        r\<lparr>rs_addr := (rs_addr r AND 0xFFFFFFFFFF) OR push_bit 40 (ucast w), rs_na := rs_na r OR 2\<rparr>
      else if strstr name ''SPI_SHADER_PGM_RSRC1'' \<or> strstr name ''COMPUTE_PGM_RSRC1'' then r\<lparr>rs_rsrc1 := w\<rparr>
      else if strstr name ''SPI_SHADER_PGM_RSRC2'' \<or> strstr name ''COMPUTE_PGM_RSRC2'' then r\<lparr>rs_rsrc2 := w\<rparr>
      else r)"

text \<open>The words after the first go to consecutive registers.\<close>

fun sh_reg_writes :: "'w pkt_env \<Rightarrow> umr_asic \<Rightarrow> u32 \<Rightarrow> u32 list \<Rightarrow> sh_regs \<Rightarrow> sh_regs" where
  "sh_reg_writes E asic reg [] r = r"
| "sh_reg_writes E asic reg (w # ws) r =
     sh_reg_writes E asic (reg + 1) ws (sh_reg_write asic (reg_name E asic (ucast reg)) w r)"

definition set_sh_reg :: "'w pkt_env \<Rightarrow> int \<Rightarrow> u32 \<Rightarrow> pm4_fields \<Rightarrow> ('w, pm4_fields) dev_op" where
  "set_sh_reg E part vmid p s = do {
     (w, p) \<leftarrow> fetch_word p 0;
     let r = sh_reg_writes E (fst s) (w + 0x2C00) (tl (pf_words p))
               \<lparr>rs_na = 0, rs_addr = 0, rs_type = 0, rs_rsrc1 = 0, rs_rsrc2 = 0\<rparr>;
     if rs_na r = 3 then do {
       (n, s) \<leftarrow> (if opt_no_follow_shader (asic_options (fst s)) then Some (1, s)
                 else umr_compute_shader_size (pe_vm E) part vmid (rs_addr r) s);
       Some (p\<lparr>pf_shader := Some \<lparr>sh_vmid = vmid, sh_size = n, sh_rsrc1 = rs_rsrc1 r, sh_rsrc2 = rs_rsrc2 r,
                sh_type = rs_type r, sh_addr = rs_addr r\<rparr>\<rparr>, s) }
     else Some (p, s) }"

subsection \<open>Indirect buffers\<close>

text \<open>
  Following an indirect buffer with the decoder \<open>dec\<close>, which gets the VMID, the words and their
  number.  A buffer that cannot be read leaves the packet as it is.
\<close>

type_synonym 'w pm4_decoder = "u32 \<Rightarrow> u32 list \<Rightarrow> u32 \<Rightarrow> ('w, umr_pm4_stream list) dev_op"

definition follow_ib ::
    "'w pm4_decoder \<Rightarrow> 'w vm_env \<Rightarrow> int \<Rightarrow> u32 \<Rightarrow> u64 \<Rightarrow> u32 \<Rightarrow> pm4_fields \<Rightarrow> ('w, pm4_fields \<times> umr_pm4_stream list) dev_op" where
  "follow_ib dec E part vmid addr len p s = do {
     ((r, bytes), s) \<leftarrow> umr_read_vram E part vmid addr len s;
     if r < 0 then Some ((p, []), s)
     else do {
       (ib, s) \<leftarrow> dec vmid (dwords_of_bytes bytes) (len div 4) s;
       Some ((p\<lparr>pf_ib_source := (addr, vmid)\<rparr>, ib), s) } }"

definition ib_size :: "u32 \<Rightarrow> u32" where
  "ib_size w = (w AND 0xFFFFF) * 4"

definition parse_pm4 ::
    "'w pm4_decoder \<Rightarrow> 'w pkt_env \<Rightarrow> int \<Rightarrow> u32 \<Rightarrow> pm4_fields \<Rightarrow> ('w, pm4_fields \<times> umr_pm4_stream list) dev_op" where
  "parse_pm4 dec E part vmid p s =
     (if pf_opcode p = 0x76 then do { (p, s) \<leftarrow> set_sh_reg E part vmid p s; Some ((p, []), s) }
      else if pf_opcode p = 0x3f \<or> pf_opcode p = 0x33 then
        (if opt_no_follow_ib (asic_options (fst s)) then Some ((p, []), s)
         else do {
           (w0, p) \<leftarrow> fetch_word p 0;
           (w1, p) \<leftarrow> fetch_word p 1;
           (w2, p) \<leftarrow> fetch_word p 2;
           let addr = (ucast w0 AND NOT 3) OR push_bit 32 (ucast (w1 AND 0xFFFF));
           let len = ib_size w2;
           if len > 1024 * 1024 * 8 then Some ((p, []), s)
           else do {
             let tvmid = drop_bit 24 w2 AND 0xF;
             follow_ib dec (pe_vm E) part (if tvmid = 0 then vmid else tvmid) addr len p s } })
      else Some ((p, []), s))"

text \<open>A UVD indirect buffer is announced by writes to three or four registers; bits in \<open>uvd_n\<close> record them.\<close>

record uvd_ib =
  uvd_n :: u32
  uvd_size :: u32
  uvd_vmid :: u32
  uvd_addr :: u64

definition zero_uvd :: uvd_ib where
  "zero_uvd = \<lparr>uvd_n = 0, uvd_size = 0, uvd_vmid = 0, uvd_addr = 0\<rparr>"

definition uvd_write :: "chipfamily \<Rightarrow> string \<Rightarrow> u32 \<Rightarrow> uvd_ib \<Rightarrow> uvd_ib" where
  "uvd_write family name w u =
     (if strstr name ''mmUVD_LMI_RBC_IB_VMID'' then
        u\<lparr>uvd_vmid := w OR (if family \<le> FAMILY_VI then 0 else UMR_MM_HUB), uvd_n := uvd_n u OR 1\<rparr>
      else if strstr name ''mmUVD_LMI_RBC_IB_64BIT_BAR_LOW'' then
        u\<lparr>uvd_addr := uvd_addr u OR ucast w, uvd_n := uvd_n u OR 2\<rparr>
      else if strstr name ''mmUVD_LMI_RBC_IB_64BIT_BAR_HIGH'' then
        u\<lparr>uvd_addr := uvd_addr u OR push_bit 32 (ucast w), uvd_n := uvd_n u OR 4\<rparr>
      else if strstr name ''mmUVD_RBC_IB_SIZE'' then u\<lparr>uvd_size := w * 4, uvd_n := uvd_n u OR 8\<rparr>
      else u)"

definition uvd_regs :: "string list" where
  "uvd_regs = [''mmUVD_LMI_RBC_IB_VMID'', ''mmUVD_LMI_RBC_IB_64BIT_BAR_LOW'', ''mmUVD_LMI_RBC_IB_64BIT_BAR_HIGH'',
     ''mmUVD_RBC_IB_SIZE'']"

text \<open>Everything but the VMID is taken for VMID 0.\<close>

definition uvd_assume_vmid :: "uvd_ib \<Rightarrow> uvd_ib" where
  "uvd_assume_vmid u = (if uvd_n u = 2 OR 4 OR 8 then u\<lparr>uvd_vmid := 0, uvd_n := 15\<rparr> else u)"

definition parse_pkt0 ::
    "'w pm4_decoder \<Rightarrow> 'w pkt_env \<Rightarrow> int \<Rightarrow> uvd_ib \<Rightarrow> pm4_fields \<Rightarrow> ('w, uvd_ib \<times> pm4_fields \<times> umr_pm4_stream list) dev_op" where
  "parse_pkt0 dec E part u p s = do {
     let name = reg_name E (fst s) (ucast (pf_pkt0off p));
     (u, p) \<leftarrow> (if \<exists>r\<in>set uvd_regs. strstr name r
              then do { (w, p) \<leftarrow> fetch_word p 0; Some (uvd_write (asic_family (fst s)) name w u, p) }
              else Some (u, p));
     let u = uvd_assume_vmid u;
     if \<not> opt_no_follow_ib (asic_options (fst s)) \<and> uvd_n u = 15 then do {
       ((p, ib), s) \<leftarrow> follow_ib dec (pe_vm E) part (uvd_vmid u) (uvd_addr u) (uvd_size u) p s;
       Some ((zero_uvd, p, ib), s) }
     else Some ((u, p, []), s) }"

subsection \<open>The decoders\<close>

definition pm4_header :: "u32 \<Rightarrow> pm4_fields" where
  "pm4_header w =
     (let t = drop_bit 30 w in
      zero_pm4\<lparr>pf_header := w, pf_pkttype := t, pf_n_words := (drop_bit 16 w + 1) AND 0x3FFF,
        pf_pkt0off := (if t = 0 then w AND 0xFFFF else 0),
        pf_opcode := (if t = 3 then drop_bit 8 w AND 0xFF else 0)\<rparr>)"

definition pm4_body ::
    "'w pm4_decoder \<Rightarrow> 'w pkt_env \<Rightarrow> int \<Rightarrow> u32 \<Rightarrow> uvd_ib \<Rightarrow> u32 list \<Rightarrow> u32 \<Rightarrow> ('w, uvd_ib \<times> umr_pm4_stream frame) dev_op" where
  "pm4_body dec E part vmid u stream nwords s = do {
     w \<leftarrow> word_at stream 0;
     let p = pm4_header w;
     let n = pf_n_words p;
     if nwords < 1 + n then Some ((u, Cut_off), s)
     else do {
       ws \<leftarrow> take_words n (tl stream);
       let p = p\<lparr>pf_words := ws\<rparr>;
       if pf_pkttype p = 3 then do {
         ((p, ib), s) \<leftarrow> parse_pm4 dec E part vmid p s;
         Some ((u, Frame (Pm4 p ib) (1 + n)), s) }
       else if pf_pkttype p = 0 then do {
         ((u, p, ib), s) \<leftarrow> parse_pkt0 dec E part u p s;
         Some ((u, Frame (Pm4 p ib) (1 + n)), s) }
       else Some ((u, Frame (Pm4 p []) (1 + n)), s) } }"

primrec umr_pm4_decode_stream :: "nat \<Rightarrow> 'w pkt_env \<Rightarrow> int \<Rightarrow> 'w pm4_decoder" where
  "umr_pm4_decode_stream 0 E part vmid stream nwords s = None"
| "umr_pm4_decode_stream (Suc d) E part vmid stream nwords s = do {
     ((ps, u), s) \<leftarrow> decode_loop (pm4_body (umr_pm4_decode_stream d E part) E part vmid) zero_uvd stream nwords s;
     Some (stream_of (Pm4 zero_pm4 []) nwords ps, s) }"

definition pm4_lite_header :: "u32 \<Rightarrow> pm4_fields" where
  "pm4_lite_header w =
     (let t = drop_bit 30 w in
      zero_pm4\<lparr>pf_header := w, pf_pkttype := t, pf_n_words := (drop_bit 16 w + 1) AND 0x3FFF,
        pf_pkt0off := (if t = 0 then w AND 0xFFFF else 0),
        pf_opcode := (if t = 0 then 0 else drop_bit 8 w AND 0xFF)\<rparr>)"

definition pm4_lite_body :: "unit \<Rightarrow> u32 list \<Rightarrow> u32 \<Rightarrow> ('w, unit \<times> umr_pm4_stream frame) dev_op" where
  "pm4_lite_body c stream nwords s = do {
     w \<leftarrow> word_at stream 0;
     let p = pm4_lite_header w;
     let n = pf_n_words p;
     if nwords < 1 + n then Some ((c, Cut_off), s)
     else do {
       ws \<leftarrow> take_words n (tl stream);
       Some ((c, Frame (Pm4 (p\<lparr>pf_words := ws\<rparr>) []) (1 + n)), s) } }"

definition umr_pm4_lite_decode_stream :: "u32 list \<Rightarrow> u32 \<Rightarrow> ('w, umr_pm4_stream list) dev_op" where
  "umr_pm4_lite_decode_stream stream nwords s = do {
     ((ps, c), s) \<leftarrow> decode_loop pm4_lite_body () stream nwords s;
     Some (stream_of (Pm4 zero_pm4 []) nwords ps, s) }"

subsection \<open>Looking for a shader\<close>

text \<open>The first shader that covers an address, in the order of the packets, inner buffers included.\<close>

definition shader_covers :: "u32 \<Rightarrow> u64 \<Rightarrow> umr_shaders_pgm \<Rightarrow> bool" where
  "shader_covers vmid addr sh \<longleftrightarrow> sh_vmid sh = vmid \<and> sh_addr sh \<le> addr \<and> addr < sh_addr sh + ucast (sh_size sh)"

fun umr_find_shader_in_stream :: "umr_pm4_stream list \<Rightarrow> u32 \<Rightarrow> u64 \<Rightarrow> umr_shaders_pgm option" where
  "umr_find_shader_in_stream [] vmid addr = None"
| "umr_find_shader_in_stream (Pm4 p ib # rest) vmid addr =
     (case pf_shader p of
        Some sh \<Rightarrow>
          if shader_covers vmid addr sh then Some sh
          else (case umr_find_shader_in_stream ib vmid addr of
                  Some sh \<Rightarrow> Some sh | None \<Rightarrow> umr_find_shader_in_stream rest vmid addr)
      | None \<Rightarrow>
          (case umr_find_shader_in_stream ib vmid addr of
             Some sh \<Rightarrow> Some sh | None \<Rightarrow> umr_find_shader_in_stream rest vmid addr))"

subsection \<open>Both decoders cut the buffer the same way\<close>

definition pm4_wire :: "umr_pm4_stream \<Rightarrow> u32 list" where
  "pm4_wire q = pf_header (pm4_fields q) # pf_words (pm4_fields q)"

text \<open>A packet without what was found by following it.\<close>

definition pm4_core :: "pm4_fields \<Rightarrow> pm4_fields" where
  "pm4_core p = p\<lparr>pf_ib_source := (0, 0), pf_shader := None, pf_vcn := [], pf_invalid := False\<rparr>"

lemma pm4_core_simps [simp]:
  "pf_header (pm4_core p) = pf_header p" "pf_words (pm4_core p) = pf_words p" "pf_n_words (pm4_core p) = pf_n_words p"
  by (simp_all add: pm4_core_def)

lemma fetch_word_core: "fetch_word p off = Some (w, p') \<Longrightarrow> pm4_core p' = pm4_core p"
  by (auto simp: fetch_word_def pm4_core_def split: if_splits)

lemma follow_ib_core: "follow_ib dec E part vmid addr n p s = Some ((p', ib), s') \<Longrightarrow> pm4_core p' = pm4_core p"
  by (auto simp: follow_ib_def pm4_core_def split: bind_splits if_splits)

lemma set_sh_reg_core: "set_sh_reg E part vmid p s = Some (p', s') \<Longrightarrow> pm4_core p' = pm4_core p"
  by (auto simp: set_sh_reg_def Let_def split: bind_splits if_splits dest!: fetch_word_core)
    (simp_all add: pm4_core_def)

lemma parse_pm4_core:
  assumes "parse_pm4 dec E part vmid p s = Some ((p', ib), s')" shows "pm4_core p' = pm4_core p"
  using assms
  by (auto simp: parse_pm4_def Let_def split: bind_splits if_splits dest!: fetch_word_core set_sh_reg_core follow_ib_core)

lemma parse_pkt0_core:
  assumes "parse_pkt0 dec E part u p s = Some ((u', p', ib), s')" shows "pm4_core p' = pm4_core p"
  using assms
  by (auto simp: parse_pkt0_def Let_def split: bind_splits if_splits dest!: fetch_word_core follow_ib_core)

lemma n_words_bound: "unat (1 + ((x + 1) AND 0x3FFF :: u32)) = Suc (unat ((x + 1) AND 0x3FFF))"
  by (rule unat_1_plus, rule order_trans, rule word_and_le1) simp

lemma pm4_header_simps [simp]:
  "pf_header (pm4_header w) = w" "pf_n_words (pm4_header w) = (drop_bit 16 w + 1) AND 0x3FFF"
  "pf_pkttype (pm4_header w) = drop_bit 30 w"
  "pf_header (pm4_lite_header w) = w" "pf_n_words (pm4_lite_header w) = (drop_bit 16 w + 1) AND 0x3FFF"
  "pf_pkttype (pm4_lite_header w) = drop_bit 30 w"
  by (simp_all add: pm4_header_def pm4_lite_header_def Let_def)

lemma core_header [simp]: "pm4_core ((pm4_header w)\<lparr>pf_words := ws\<rparr>) = (pm4_header w)\<lparr>pf_words := ws\<rparr>"
  by (simp add: pm4_core_def pm4_header_def zero_pm4_def Let_def)

text \<open>What a round of the full decoder yields.\<close>

lemma pm4_body_frame:
  assumes "pm4_body dec E part vmid u stream nwords s = Some ((u', f), s')"
  obtains w rest where "stream = w # rest" "nwords < 1 + ((drop_bit 16 w + 1) AND 0x3FFF)" "f = Cut_off"
  | w rest p ib where "stream = w # rest" "1 + ((drop_bit 16 w + 1) AND 0x3FFF) \<le> nwords" "unat ((drop_bit 16 w + 1) AND 0x3FFF) \<le> length rest"
    "f = Frame (Pm4 p ib) (1 + ((drop_bit 16 w + 1) AND 0x3FFF))"
    "pm4_core p = (pm4_header w)\<lparr>pf_words := take (unat ((drop_bit 16 w + 1) AND 0x3FFF)) rest\<rparr>"
proof -
  let ?n = "\<lambda>w :: u32. (drop_bit 16 w + 1) AND 0x3FFF"
  obtain w rest where st: "stream = w # rest"
    using assms by (cases stream) (simp_all add: pm4_body_def)
  show ?thesis
  proof (cases "nwords < 1 + ?n w")
    case True
    then show ?thesis using assms st that(1) by (simp add: pm4_body_def Let_def)
  next
    case False
    let ?p = "(pm4_header w)\<lparr>pf_words := take (unat (?n w)) rest\<rparr>"
    have len: "unat (?n w) \<le> length rest"
      using assms False by (auto simp: pm4_body_def Let_def st take_words_def split: if_splits)
    then have "\<exists>p ib. f = Frame (Pm4 p ib) (1 + ?n w) \<and> pm4_core p = ?p"
      using assms False st
      by (auto simp: pm4_body_def Let_def take_words_def split: if_splits bind_splits
          dest!: parse_pm4_core parse_pkt0_core)
    then show ?thesis using that(2) [OF st _ len] False by auto
  qed
qed

interpretation pm4: packet_body "pm4_body dec E part vmid" pm4_wire for dec :: "'w pm4_decoder" and E part vmid
proof
  fix u stream nwords s u' p n s'
  assume b: "pm4_body dec E part vmid u stream nwords s = Some ((u', Frame p n), s')"
  from b show "n \<noteq> 0 \<and> n \<le> nwords \<and> length (pm4_wire p) = unat n \<and> take (unat n) stream = pm4_wire p"
  proof (cases rule: pm4_body_frame)
    case (2 w rest q ib)
    let ?k = "(drop_bit 16 w + 1) AND 0x3FFF"
    have "n \<noteq> 0" using n_words_bound [of "drop_bit 16 w"] 2 by (metis frame.inject unat_0 nat.distinct(1))
    moreover have "pf_header q = w" "pf_words q = take (unat ?k) rest"
      using arg_cong [OF 2(5), of pf_header] arg_cong [OF 2(5), of pf_words] by simp_all
    ultimately show ?thesis using 2 n_words_bound [of "drop_bit 16 w"] by (auto simp: pm4_wire_def)
  qed simp
qed

definition pm4_lite_ok :: "umr_pm4_stream \<Rightarrow> bool" where
  "pm4_lite_ok q \<longleftrightarrow> (let w = pf_header (pm4_fields q); ws = pf_words (pm4_fields q) in
     q = Pm4 ((pm4_lite_header w)\<lparr>pf_words := ws\<rparr>) [] \<and> length ws = unat ((drop_bit 16 w + 1) AND 0x3FFF))"

interpretation lite: total_body "pm4_lite_body :: unit \<Rightarrow> u32 list \<Rightarrow> u32 \<Rightarrow> ('w, unit \<times> umr_pm4_stream frame) dev_op" pm4_wire
proof
  fix c stream nwords s c' p n s'
  assume "pm4_lite_body c stream nwords s = Some ((c', Frame p n), s')" "nwords \<noteq> 0"
  then show "n \<noteq> 0 \<and> n \<le> nwords \<and> length (pm4_wire p) = unat n \<and> take (unat n) stream = pm4_wire p"
    using n_words_bound [of "drop_bit 16 (hd stream)"]
    by (cases stream) (auto simp: pm4_lite_body_def Let_def pm4_wire_def take_words_def not_less split: if_splits)
next
  fix nwords :: u32 and stream :: "u32 list" and c and s :: "umr_asic \<times> 'w"
  assume "unat nwords \<le> length stream" "nwords \<noteq> 0"
  then show "pm4_lite_body c stream nwords s \<noteq> None"
    using n_words_bound [of "drop_bit 16 (hd stream)"]
    by (cases stream) (auto simp: pm4_lite_body_def Let_def take_words_def not_less word_le_nat_alt unat_eq_zero)
qed

interpretation lite: cut_body "pm4_lite_body :: unit \<Rightarrow> u32 list \<Rightarrow> u32 \<Rightarrow> ('w, unit \<times> umr_pm4_stream frame) dev_op" pm4_wire "\<lambda>_. pm4_lite_ok"
proof
  fix s :: "umr_asic \<times> 'w" and p and nwords :: u32 and rest c
  assume ok: "pm4_lite_ok p" and n: "length (pm4_wire p) \<le> unat nwords"
  let ?w = "pf_header (pm4_fields p)" and ?ws = "pf_words (pm4_fields p)"
  let ?k = "(drop_bit 16 ?w + 1) AND 0x3FFF"
  have l: "length ?ws = unat ?k" and p: "p = Pm4 ((pm4_lite_header ?w)\<lparr>pf_words := ?ws\<rparr>) []"
    using ok by (simp_all add: pm4_lite_ok_def Let_def)
  have k: "of_nat (Suc (unat ?k)) = 1 + ?k" by simp
  have "\<not> nwords < 1 + ?k"
    using n l n_words_bound [of "drop_bit 16 ?w"] by (simp add: not_less word_le_nat_alt pm4_wire_def)
  then show "\<exists>c'. pm4_lite_body c (pm4_wire p @ rest) nwords s = Some ((c', Frame p (of_nat (length (pm4_wire p)))), s)"
    using l k p by (simp add: pm4_lite_body_def pm4_wire_def Let_def take_words_def)
next
  fix s :: "umr_asic \<times> 'w" and p
  assume "pm4_lite_ok p"
  then show "pm4_wire p \<noteq> [] \<and> length (pm4_wire p) < 2 ^ 32"
    using n_words_bound [of "drop_bit 16 (pf_header (pm4_fields p))"]
      unsigned_less [where 'a = nat, of "1 + ((drop_bit 16 (pf_header (pm4_fields p)) + 1) AND 0x3FFF)"]
    by (simp add: pm4_lite_ok_def pm4_wire_def Let_def)
next
  fix s :: "umr_asic \<times> 'w" and p u v c
  assume ok: "pm4_lite_ok p" and w: "pm4_wire p = u @ v" and ne: "u \<noteq> []" "v \<noteq> []"
  let ?w = "pf_header (pm4_fields p)"
  let ?k = "(drop_bit 16 ?w + 1) AND 0x3FFF"
  obtain r where u: "u = ?w # r" using w ne by (cases u) (auto simp: pm4_wire_def)
  have "length (u @ v) = unat (1 + ?k)" unfolding w [symmetric] n_words_bound
    using ok by (simp add: pm4_wire_def pm4_lite_ok_def Let_def)
  then have "length u < unat (1 + ?k)" using ne by (cases v) (simp_all add: n_words_bound)
  moreover have "unat (of_nat (length u) :: u32) = length u"
    using calculation unsigned_less [where 'a = nat, of "1 + ?k"] by (intro unat_of_length) simp
  ultimately have "of_nat (length u) < 1 + ?k" by (simp add: word_less_nat_alt)
  then show "\<exists>c'. pm4_lite_body c u (of_nat (length u)) s = Some ((c', Cut_off), s)"
    by (simp add: pm4_lite_body_def u Let_def)
qed

lemma pm4_lite_pure: "pm4_lite_body c stream nwords s = Some ((c', f), s') \<Longrightarrow> s' = s"
  by (auto simp: pm4_lite_body_def Let_def split: bind_splits if_splits)

lemma lite_loop_pure: "decode_loop pm4_lite_body c stream nwords s = Some ((r, c'), s') \<Longrightarrow> s' = s"
  by (rule decode_loop_pure [OF pm4_lite_pure])

text \<open>C13: The full PM4 decoder splits a buffer exactly as the lite one does: whatever it finds behind the
  packets, it returns packets with the same headers and words in the same order, and for packets of the two
  types in use (0 and 3) the same fields.\<close>

theorem pm4_refines_lite:
  assumes "umr_pm4_decode_stream d E part vmid stream nwords s = Some (ps, s')"
  shows "\<exists>qs. umr_pm4_lite_decode_stream stream nwords t = Some (qs, t) \<and>
    list_all2 (\<lambda>p q. pm4_wire p = pm4_wire q \<and>
      (pf_pkttype (pm4_fields q) \<in> {0, 3} \<longrightarrow> pm4_core (pm4_fields p) = pm4_fields q)) ps qs"
proof -
  let ?R = "\<lambda>p q. pm4_wire p = pm4_wire q \<and> (pf_pkttype (pm4_fields q) \<in> {0, 3} \<longrightarrow> pm4_core (pm4_fields p) = pm4_fields q)"
  obtain d' r c' where d: "d = Suc d'"
    and l: "decode_loop (pm4_body (umr_pm4_decode_stream d' E part) E part vmid) zero_uvd stream nwords s = Some ((r, c'), s')"
    and ps: "ps = stream_of (Pm4 zero_pm4 []) nwords r"
    using assms by (cases d) (auto split: bind_splits)
  have "\<exists>qs c' t'. decode_loop pm4_lite_body () stream nwords t = Some ((qs, c'), t') \<and> rel_option (list_all2 ?R) r qs \<and> True"
  proof (rule decode_loop_sim [OF _ l, where keep = "\<lambda>_. True"])
    fix u c stream nwords s t u' f s'
    assume "pm4_body (umr_pm4_decode_stream d' E part) E part vmid u stream nwords s = Some ((u', f), s')"
    then show "\<exists>c' g t'. pm4_lite_body c stream nwords t = Some ((c', g), t') \<and> rel_frame ?R f g \<and> True"
    proof (cases rule: pm4_body_frame)
      case (2 w rest p ib)
      have "pf_header p = w" "pf_words p = take (unat ((drop_bit 16 w + 1) AND 0x3FFF)) rest"
        using arg_cong [OF 2(5), of pf_header] arg_cong [OF 2(5), of pf_words] by simp_all
      then show ?thesis using 2
        by (auto simp: pm4_lite_body_def Let_def take_words_def not_less pm4_wire_def pm4_header_def pm4_lite_header_def)
    qed (simp add: pm4_lite_body_def Let_def)
  qed simp
  then obtain qs c' t' where l': "decode_loop pm4_lite_body () stream nwords t = Some ((qs, c'), t')"
    and r: "rel_option (list_all2 ?R) r qs" by blast
  moreover have "t' = t" by (rule lite_loop_pure [OF l'])
  ultimately show ?thesis
    by (auto simp: umr_pm4_lite_decode_stream_def ps stream_of_def pm4_core_def zero_pm4_def elim!: option.rel_cases
        split: option.splits)
qed

text \<open>C14: A list of well formed packets survives being written out and decoded, and a buffer that ends
  in the middle of a packet loses only that packet.\<close>

theorem pm4_lite_roundtrip:
  assumes "list_all pm4_lite_ok ps" and "ps \<noteq> []" and "pm4_lite_ok p" and "pm4_wire p = u @ v" and "v \<noteq> []"
    and "length (concat (map pm4_wire ps) @ u) < 2 ^ 32"
  shows "umr_pm4_lite_decode_stream (concat (map pm4_wire ps) @ u) (of_nat (length (concat (map pm4_wire ps) @ u))) s = Some (ps, s)"
proof -
  let ?ws = "concat (map pm4_wire ps) @ u"
  obtain c' where "decode_loop pm4_lite_body () ?ws (of_nat (length ?ws)) s = Some ((Some ps, c'), s)"
    using lite.decode_wire_cut [OF assms(1,3-6), of "()"] by blast
  moreover have "(of_nat (length ?ws) :: u32) \<noteq> 0"
  proof -
    have "unat (of_nat (length ?ws) :: u32) = length ?ws" by (rule unat_of_length [OF assms(6)])
    moreover have "?ws \<noteq> []" using assms(2) by (cases ps) (simp_all add: pm4_wire_def)
    ultimately show ?thesis by (metis length_0_conv unat_0)
  qed
  ultimately show ?thesis by (simp add: umr_pm4_lite_decode_stream_def stream_of_def)
qed

definition demo_nop :: umr_pm4_stream where
  "demo_nop = Pm4 ((pm4_lite_header 0xC0011000)\<lparr>pf_words := [7, 8]\<rparr>) []"

theorem pm4_lite_roundtrip_witness:
  "umr_pm4_lite_decode_stream [0xC0011000, 7, 8, 0xC0011000, 7] 5 (demo_dev, ()) = Some ([demo_nop], (demo_dev, ()))"
proof -
  have w: "pm4_wire demo_nop = [0xC0011000, 7] @ [8]" by (simp add: pm4_wire_def demo_nop_def)
  have "pm4_lite_ok demo_nop" by (simp add: pm4_lite_ok_def demo_nop_def Let_def)
  then show ?thesis
    using pm4_lite_roundtrip [of "[demo_nop]" demo_nop "[0xC0011000, 7]" "[8]" "(demo_dev, ())"] w by simp
qed

definition demo_pkt_env :: "umr_test_harness pkt_env" where
  "demo_pkt_env = \<lparr>pe_vm = demo_env, pe_accel = None, pe_red = '''', pe_rst = '''', pe_unhandled_size = (\<lambda>_ _ _. None)\<rparr>"

theorem pm4_refines_lite_witness:
  "\<exists>p qs. umr_pm4_decode_stream 1 demo_pkt_env 0 0 [0xC0011000, 7, 8] 3 (demo_dev, demo_harness) = Some ([p], (demo_dev, demo_harness)) \<and>
     umr_pm4_lite_decode_stream [0xC0011000, 7, 8] 3 (demo_dev, ()) = Some (qs, (demo_dev, ())) \<and> map pm4_wire qs = [[0xC0011000, 7, 8]]"
proof -
  have "umr_pm4_decode_stream 1 demo_pkt_env 0 0 [0xC0011000, 7, 8] 3 (demo_dev, demo_harness) = Some ([demo_nop], (demo_dev, demo_harness))"
    by (simp add: decode_loop.simps pm4_body_def pm4_header_def pm4_lite_header_def demo_nop_def zero_pm4_def take_words_def
        parse_pm4_def stream_of_def)
  from this and pm4_refines_lite [OF this, of "(demo_dev, ())"] show ?thesis
    by (auto simp: list_all2_Cons1 demo_nop_def pm4_wire_def umr_pm4_lite_decode_stream_def)
qed

definition decoder_le :: "'w pm4_decoder \<Rightarrow> 'w pm4_decoder \<Rightarrow> bool" where
  "decoder_le dec dec' \<longleftrightarrow> (\<forall>v st n s r. dec v st n s = Some r \<longrightarrow> dec' v st n s = Some r)"

lemma follow_ib_mono:
  assumes "decoder_le dec dec'"
  shows "follow_ib dec E part vmid addr n p s = Some r \<Longrightarrow> follow_ib dec' E part vmid addr n p s = Some r"
  using assms by (auto simp: follow_ib_def decoder_le_def split: bind_splits if_splits)

lemma parse_pm4_mono:
  assumes "decoder_le dec dec'"
  shows "parse_pm4 dec E part vmid p s = Some r \<Longrightarrow> parse_pm4 dec' E part vmid p s = Some r"
  by (auto simp: parse_pm4_def Let_def split: bind_splits if_splits dest!: follow_ib_mono [OF assms])

lemma parse_pkt0_mono:
  assumes "decoder_le dec dec'"
  shows "parse_pkt0 dec E part u p s = Some r \<Longrightarrow> parse_pkt0 dec' E part u p s = Some r"
  by (auto simp: parse_pkt0_def Let_def split: bind_splits if_splits dest!: follow_ib_mono [OF assms])

lemma pm4_body_mono:
  assumes "decoder_le dec dec'"
    and b: "pm4_body dec E part vmid u stream nwords s = Some r"
  shows "pm4_body dec' E part vmid u stream nwords s = Some r"
proof -
  obtain w rest where st: "stream = w # rest" using b by (cases stream) (simp_all add: pm4_body_def)
  let ?n = "(drop_bit 16 w + 1) AND 0x3FFF"
  let ?p = "(pm4_header w)\<lparr>pf_words := take (unat ?n) rest\<rparr>"
  show ?thesis
  proof (cases "nwords < 1 + ?n \<or> length rest < unat ?n")
    case True
    then show ?thesis using b st by (auto simp: pm4_body_def Let_def take_words_def split: if_splits)
  next
    case False
    have 3: "parse_pm4 dec' E part vmid ?p s = Some x" if "parse_pm4 dec E part vmid ?p s = Some x" for x
      using parse_pm4_mono [OF assms(1) that] .
    have 0: "parse_pkt0 dec' E part u ?p s = Some x" if "parse_pkt0 dec E part u ?p s = Some x" for x
      using parse_pkt0_mono [OF assms(1) that] .
    show ?thesis using b False st
      by (cases "parse_pm4 dec E part vmid ?p s"; cases "parse_pkt0 dec E part u ?p s")
        (auto simp: pm4_body_def Let_def take_words_def 3 0 split: if_splits)
  qed
qed

text \<open>The bound on the nesting never changes a result.\<close>

lemma pm4_depth_Suc:
  "umr_pm4_decode_stream d E part vmid stream nwords s = Some r \<Longrightarrow>
   umr_pm4_decode_stream (Suc d) E part vmid stream nwords s = Some r"
proof (induction d arbitrary: vmid stream nwords s r)
  case (Suc d)
  then obtain x where x: "decode_loop (pm4_body (umr_pm4_decode_stream d E part) E part vmid) zero_uvd stream nwords s = Some x"
    by (auto split: bind_splits)
  have "decoder_le (umr_pm4_decode_stream d E part) (umr_pm4_decode_stream (Suc d) E part)"
    using Suc.IH unfolding decoder_le_def by blast
  then have "decode_loop (pm4_body (umr_pm4_decode_stream (Suc d) E part) E part vmid) zero_uvd stream nwords s = Some x"
    by (rule decode_loop_mono [OF pm4_body_mono x])
  then show ?case
    using Suc.prems x unfolding umr_pm4_decode_stream.simps(2) [of "Suc d"] umr_pm4_decode_stream.simps(2) [of d] by simp
qed simp

lemma pm4_depth_mono:
  assumes "umr_pm4_decode_stream d E part vmid stream nwords s = Some r" and "d \<le> d'"
  shows "umr_pm4_decode_stream d' E part vmid stream nwords s = Some r"
  using assms(2,1) by (induction rule: dec_induct) (auto intro: pm4_depth_Suc simp del: umr_pm4_decode_stream.simps)

text \<open>Decoding without following anything ends with a result on every buffer, whatever the words are.\<close>

lemma parse_unfollowed:
  assumes "opt_no_follow_ib (asic_options (fst s))" and "opt_no_follow_shader (asic_options (fst s))"
    and "length (pf_words p) = unat (pf_n_words p)"
  shows "\<exists>r. parse_pm4 dec E part vmid p s = Some (r, s)" "\<exists>r. parse_pkt0 dec E part u p s = Some (r, s)"
proof -
  have "\<exists>w q. fetch_word p k = Some (w, q)" for k
    using assms(3) by (auto simp: fetch_word_def word_at_def word_le_nat_alt not_le)
  then obtain w q where f: "fetch_word p 0 = Some (w, q)" by blast
  show "\<exists>r. parse_pm4 dec E part vmid p s = Some (r, s)"
    using assms(1,2) f by (auto simp: parse_pm4_def set_sh_reg_def Let_def simp del: split_paired_Ex)
  show "\<exists>r. parse_pkt0 dec E part u p s = Some (r, s)"
    using assms(1,2) f by (auto simp: parse_pkt0_def Let_def simp del: split_paired_Ex)
qed

lemma pm4_body_unfollowed:
  assumes "opt_no_follow_ib (asic_options (fst s))" and "opt_no_follow_shader (asic_options (fst s))"
    and "\<not> nwords < 1 + ((drop_bit 16 w + 1) AND 0x3FFF)" and "unat ((drop_bit 16 w + 1) AND 0x3FFF) \<le> length rest"
  shows "\<exists>u' p. pm4_body dec E part vmid u (w # rest) nwords s = Some ((u', Frame p (1 + ((drop_bit 16 w + 1) AND 0x3FFF))), s)"
proof -
  let ?n = "(drop_bit 16 w + 1) AND 0x3FFF"
  let ?p = "(pm4_header w)\<lparr>pf_words := take (unat ?n) rest\<rparr>"
  have l: "length (pf_words ?p) = unat (pf_n_words ?p)" using assms(4) by simp
  obtain q ib where 3: "parse_pm4 dec E part vmid ?p s = Some ((q, ib), s)"
    using parse_unfollowed(1) [OF assms(1,2) l, of dec E part vmid] by auto
  obtain u' q' ib' where 0: "parse_pkt0 dec E part u ?p s = Some ((u', q', ib'), s)"
    using parse_unfollowed(2) [OF assms(1,2) l, of dec E part u] by auto
  show ?thesis using assms(3,4) by (simp add: pm4_body_def Let_def take_words_def 3 0)
qed

text \<open>C16: When neither indirect buffers nor shaders are followed, the decoder returns on every buffer, however
  garbled, without changing the device.\<close>

theorem pm4_unfollowed_returns:
  assumes "opt_no_follow_ib (asic_options (fst s))" and "opt_no_follow_shader (asic_options (fst s))"
    and "unat nwords \<le> length stream"
  shows "\<exists>ps. umr_pm4_decode_stream (Suc d) E part vmid stream nwords s = Some (ps, s)"
proof -
  let ?b = "pm4_body (umr_pm4_decode_stream d E part) E part vmid"
  obtain rs c' where l: "decode_loop pm4_lite_body () stream nwords s = Some ((rs, c'), s)"
    using lite.loop_returns [OF assms(3), of "()" s] lite_loop_pure [of "()" stream nwords s] by (metis surj_pair)
  have "\<exists>qs u' t'. decode_loop ?b zero_uvd stream nwords s = Some ((qs, u'), t') \<and> rel_option (list_all2 (\<lambda>_ _. True)) rs qs \<and> t' = s"
  proof (rule decode_loop_sim [OF _ l, where keep = "\<lambda>t. t = s"])
    fix c u stream nwords s' t c' f s''
    assume "pm4_lite_body c stream nwords s' = Some ((c', f), s'')" and t: "t = s"
    then obtain w rest where st: "stream = w # rest"
      and "nwords < 1 + ((drop_bit 16 w + 1) AND 0x3FFF) \<and> f = Cut_off \<or>
        \<not> nwords < 1 + ((drop_bit 16 w + 1) AND 0x3FFF) \<and> unat ((drop_bit 16 w + 1) AND 0x3FFF) \<le> length rest \<and>
        (\<exists>p. f = Frame p (1 + ((drop_bit 16 w + 1) AND 0x3FFF)))"
      by (cases stream) (auto simp: pm4_lite_body_def Let_def take_words_def split: if_splits)
    then show "\<exists>u' g t'. ?b u stream nwords t = Some ((u', g), t') \<and> rel_frame (\<lambda>_ _. True) f g \<and> t' = s"
      unfolding t st using pm4_body_unfollowed [OF assms(1,2), of nwords w rest "umr_pm4_decode_stream d E part" E part vmid u]
      by (auto simp: pm4_body_def [of _ _ _ _ _ "w # rest" nwords] Let_def simp del: split_paired_Ex)
  qed simp
  then show ?thesis by auto
qed

theorem pm4_unfollowed_returns_witness:
  "\<exists>ps. umr_pm4_decode_stream 1 demo_pkt_env 0 0 [0xC0013F00, 0, 7, 0x3FFF0000] 4
     (demo_dev\<lparr>asic_options := zero_options\<lparr>opt_no_follow_ib := True, opt_no_follow_shader := True\<rparr>\<rparr>, demo_harness) =
   Some (ps, (demo_dev\<lparr>asic_options := zero_options\<lparr>opt_no_follow_ib := True, opt_no_follow_shader := True\<rparr>\<rparr>, demo_harness))"
  using pm4_unfollowed_returns [of "(demo_dev\<lparr>asic_options := zero_options\<lparr>opt_no_follow_ib := True, opt_no_follow_shader := True\<rparr>\<rparr>, demo_harness)"
      4 "[0xC0013F00, 0, 7, 0x3FFF0000]" 0 demo_pkt_env 0 0]
  unfolding One_nat_def by simp

subsection \<open>Looking for a shader\<close>

text \<open>The shaders of a stream in the order of the packets, each before those of the buffer behind it.\<close>

fun all_shaders :: "umr_pm4_stream list \<Rightarrow> umr_shaders_pgm list" where
  "all_shaders [] = []"
| "all_shaders (Pm4 p ib # rest) =
     (case pf_shader p of None \<Rightarrow> [] | Some sh \<Rightarrow> [sh]) @ all_shaders ib @ all_shaders rest"

text \<open>The search for a shader returns the first program, at any depth of nesting, that is in the VMID and
  covers the address, and nothing if there is none.\<close>

theorem find_shader_first:
  "umr_find_shader_in_stream ps vmid addr = find (shader_covers vmid addr) (all_shaders ps)"
  by (induction ps rule: all_shaders.induct) (auto simp: find_append split: option.splits)

subsection \<open>The size of a shader\<close>

text \<open>The first place where five of the flags in a row are set.\<close>

definition run5 :: "bool list \<Rightarrow> nat \<Rightarrow> bool" where
  "run5 bs i \<longleftrightarrow> i + 5 \<le> length bs \<and> (\<forall>j<5. bs ! (i + j))"

definition first_run5 :: "bool list \<Rightarrow> nat \<Rightarrow> bool" where
  "first_run5 bs i \<longleftrightarrow> run5 bs i \<and> (\<forall>k<i. \<not> run5 bs k)"

lemma run5_shift: "run5 (xs @ ys) (length xs + i) \<longleftrightarrow> run5 ys i"
  by (auto simp: run5_def nth_append add.assoc)

lemma run5_not_across:
  assumes "run5 (xs @ False # ys) i" "length xs < 5" shows "length xs < i"
proof (rule ccontr)
  assume "\<not> length xs < i"
  then have "length xs - i < 5" and e: "i + (length xs - i) = length xs" using assms(2) by simp_all
  then have "(xs @ False # ys) ! length xs" using assms(1) unfolding run5_def by metis
  then show False by simp
qed

lemma first_run5_after:
  assumes "first_run5 (xs @ False # ys) i" "length xs < 5"
  obtains k where "i = Suc (length xs) + k" "first_run5 ys k"
proof -
  have "length xs < i" using run5_not_across assms by (auto simp: first_run5_def)
  then obtain k where i: "i = length (xs @ [False]) + k" by (metis less_iff_Suc_add length_append_singleton add_Suc)
  have "run5 ys j \<longleftrightarrow> run5 (xs @ False # ys) (length (xs @ [False]) + j)" for j
    using run5_shift [of "xs @ [False]" ys j] by simp
  then have "first_run5 ys k" using assms(1) i unfolding first_run5_def by (metis nat_add_left_cancel_less)
  then show ?thesis using that i by simp
qed

lemma scan_page_run:
  assumes "c < 5" and "first_run5 (replicate c True @ map is_endpgm ws) i"
  shows "scan_page False ws y l c = Inl (y - 4 * of_nat c + 4 * of_nat i + 4)"
  using assms
proof (induction ws arbitrary: c i y l)
  case Nil
  then show ?case by (simp add: first_run5_def run5_def)
next
  case (Cons w ws)
  show ?case
  proof (cases "is_endpgm w")
    case True
    have r: "replicate c True @ map is_endpgm (w # ws) = replicate (Suc c) True @ map is_endpgm ws"
      using True by (simp add: replicate_append_same [symmetric])
    show ?thesis
    proof (cases "c = 4")
      case True
      have "run5 (replicate (Suc c) True @ map is_endpgm ws) 0" using True by (auto simp: run5_def nth_append less_Suc_eq)
      then have "i = 0" using Cons.prems(2) unfolding r first_run5_def by (metis not_gr_zero)
      then show ?thesis using \<open>is_endpgm w\<close> True by (simp add: Let_def)
    next
      case False
      then show ?thesis using Cons.IH [of "Suc c" i "y + 4" y] Cons.prems \<open>is_endpgm w\<close> unfolding r
        by (simp add: Let_def)
    qed
  next
    case False
    then obtain k where "i = Suc c + k" "first_run5 (map is_endpgm ws) k"
      using first_run5_after [of "replicate c True" "map is_endpgm ws" i] Cons.prems by auto
    then show ?thesis using Cons.IH [of 0 k "y + 4" l] False by (simp add: Let_def algebra_simps)
  qed
qed

lemma scan_page_append:
  "scan_page e (us @ vs) y l c = (case scan_page e us y l c of Inl n \<Rightarrow> Inl n | Inr (y, l, c) \<Rightarrow> scan_page e vs y l c)"
  by (induction e us y l c rule: scan_page.induct) (auto simp: Let_def)

text \<open>Memory that holds the pages one after the other.\<close>

fun holds_pages :: "'w vm_env \<Rightarrow> int \<Rightarrow> u32 \<Rightarrow> umr_asic \<times> 'w \<Rightarrow> u64 \<Rightarrow> u32 list list \<Rightarrow> bool" where
  "holds_pages E part vmid s addr [] \<longleftrightarrow> True"
| "holds_pages E part vmid s addr (pg # pgs) \<longleftrightarrow>
     umr_read_vram E part vmid addr 256 s = Some ((0, bytes_of_dwords pg), s) \<and> holds_pages E part vmid s (addr + 256) pgs"

lemma shader_scan_pages:
  assumes "holds_pages E part vmid s addr pgs" and "\<not> opt_disasm_early_term (asic_options (fst s))"
    and "scan_page False (concat pgs) y l c = Inl n"
  shows "shader_scan E part vmid addr y l c s = Some (n, s)"
  using assms
proof (induction pgs arbitrary: addr y l c)
  case (Cons pg pgs)
  then show ?case
    by (subst shader_scan.simps) (auto simp: scan_page_append split: sum.splits)
qed simp

text \<open>C15: Where the pages of a shader are readable up to five end markers in a row, its size is the number
  of bytes up to and including the first marker of the first such run.\<close>

theorem shader_size_correct:
  assumes "holds_pages E part vmid s addr pgs" and "\<not> opt_disasm_early_term (asic_options (fst s))"
    and "first_run5 (map is_endpgm (concat pgs)) i"
  shows "umr_compute_shader_size E part vmid addr s = Some (4 * of_nat (i + 1), s)"
  using shader_scan_pages [OF assms(1,2), of 0 0 0] scan_page_run [of 0 "concat pgs" i 0 0] assms(3)
  by (simp add: umr_compute_shader_size_def)

definition demo_shader_page :: "u32 list" where
  "demo_shader_page = 0x7E000280 # S_ENDPGM # 0x7E000281 # replicate 61 S_ENDINV"

definition demo_shader :: umr_test_harness where
  "demo_shader = fold add_line [Log_vram 0x100 (bytes_of_dwords demo_shader_page)] zero_harness"

theorem shader_size_correct_witness:
  "umr_compute_shader_size demo_env 0 0xFF00 0x100 (demo_dev, demo_shader) = Some (16, (demo_dev, demo_shader))"
proof -
  have h: "on_harness demo_env (demo_dev, demo_shader)" by (simp add: on_harness_def demo_env_def demo_dev_def zero_options_def)
  have m: "blocks_mapped (th_vram demo_shader) 0x100 256"
    by (simp add: demo_shader_def demo_shader_page_def demo_harness_eval blocks_mapped_def block_fits_def ram_covers_def)
  have "blocks_peek (th_vram demo_shader) 0x100 256 = bytes_of_dwords demo_shader_page"
    by code_simp
  then have p: "holds_pages demo_env 0 0xFF00 (demo_dev, demo_shader) 0x100 [demo_shader_page]"
    using read_vram_linear [OF h, of "0x100" 256 "0xFF00" 0] m by simp
  have r: "first_run5 (map is_endpgm (concat [demo_shader_page])) 3"
    by code_simp
  show ?thesis using shader_size_correct [OF p _ r] by (simp add: demo_dev_def zero_options_def)
qed

subsection \<open>Indirect buffers that point to themselves\<close>

text \<open>C40: Nothing stops a chain of indirect buffers: a buffer that starts with an INDIRECT_BUFFER packet
  for itself exhausts any stack.\<close>

theorem ib_cycle_exhausts_stack:
  assumes "\<not> opt_no_follow_ib (asic_options (fst s))"
    and "stream = [0xC0023F00, lo, hi, 4]"
    and "umr_read_vram (pe_vm E) part vmid ((ucast lo AND NOT 3) OR push_bit 32 (ucast (hi AND 0xFFFF))) 16 s =
      Some ((0, bytes_of_dwords stream), s)"
  shows "umr_pm4_decode_stream d E part vmid stream 4 s = None"
proof (induction d)
  case (Suc d)
  have lt: "\<not> (3 :: u32) \<le> 1" "\<not> (3 :: u32) \<le> 2" by (simp_all add: word_le_nat_alt)
  have "parse_pm4 (umr_pm4_decode_stream d E part) E part vmid ((pm4_header 0xC0023F00)\<lparr>pf_words := [lo, hi, 4]\<rparr>) s = None"
    using Suc assms
    by (simp add: parse_pm4_def pm4_header_def zero_pm4_def fetch_word_def follow_ib_def ib_size_def word_at_def lt Let_def)
  then show ?case unfolding assms(2)
    by (simp add: decode_loop.simps pm4_body_def take_words_def Let_def)
qed simp

definition demo_ib_loop :: umr_test_harness where
  "demo_ib_loop = fold add_line [Log_vram 0x40 (bytes_of_dwords [0xC0023F00, 0x40, 0, 4])] zero_harness"

theorem ib_cycle_exhausts_stack_witness:
  "umr_pm4_decode_stream 100 demo_pkt_env 0 0xFF00 [0xC0023F00, 0x40, 0, 4] 4 (demo_dev, demo_ib_loop) = None"
proof -
  have h: "on_harness demo_env (demo_dev, demo_ib_loop)" by (simp add: on_harness_def demo_env_def demo_dev_def zero_options_def)
  have m: "blocks_mapped (th_vram demo_ib_loop) 0x40 16"
    by (simp add: demo_ib_loop_def demo_harness_eval blocks_mapped_def block_fits_def ram_covers_def)
  have "blocks_peek (th_vram demo_ib_loop) 0x40 16 = bytes_of_dwords [0xC0023F00, 0x40, 0, 4]" by code_simp
  then show ?thesis
    using ib_cycle_exhausts_stack [of "(demo_dev, demo_ib_loop)" "[0xC0023F00, 0x40, 0, 4]" "0x40" 0 demo_pkt_env 0 "0xFF00"]
      read_vram_linear [OF h, of "0x40" 16 "0xFF00" 0] m
    by (simp add: demo_pkt_env_def demo_dev_def zero_options_def)
qed

text \<open>The size guard against garbage never triggers: the field that holds the number of words is 20 bits
  wide, so an indirect buffer has less than 4 MiB, half of what the guard allows.\<close>

theorem ib_size_below_guard: "ib_size w \<le> 4 * 1024 * 1024 - 4 \<and> \<not> ib_size w > 1024 * 1024 * 8"
proof -
  have "w AND 0xFFFFF \<le> 0xFFFFF" by (rule word_and_le1)
  then have "unat (w AND 0xFFFFF) \<le> 0xFFFFF" by (simp add: word_le_nat_alt)
  then have "unat ((w AND 0xFFFFF) * 4) \<le> 0xFFFFF * 4" by (simp add: unat_word_ariths)
  then show ?thesis by (simp add: ib_size_def word_le_nat_alt word_less_nat_alt)
qed

end
