(* ===== verification/Vcn_Stream.thy ===== *)
theory Vcn_Stream
  imports Pm4_Stream
begin

unbundle bit_operations_syntax

text \<open>
  The streams of the video engines (\<^verbatim>\<open>src/lib/read_vcn_dec_stream.c\<close>, \<^verbatim>\<open>src/lib/read_vcn_enc_stream.c\<close>).
  A decode stream is made of PM4 packets of type 0 and is found through writes to the registers of
  the engine; an encode or unified stream has packets of its own and points to command messages.
\<close>

subsection \<open>Encode and unified streams\<close>

record umr_vcn_enc_stream =
  ve_opcode :: u32
  ve_nwords :: u32
  ve_words :: "u32 list"
  ve_vcn :: "umr_vcn_cmd_message list"
  ve_invalid :: bool

definition zero_enc :: umr_vcn_enc_stream where
  "zero_enc = \<lparr>ve_opcode = 0, ve_nwords = 0, ve_words = [], ve_vcn = [], ve_invalid = False\<rparr>"

definition enc_fetch_word :: "umr_vcn_enc_stream \<Rightarrow> u32 \<Rightarrow> (u32 \<times> umr_vcn_enc_stream) option" where
  "enc_fetch_word p off =
     (if off > ve_nwords p then Some (0, p\<lparr>ve_invalid := True\<rparr>)
      else map_option (\<lambda>w. (w, p)) (word_at (ve_words p) (unat off)))"

abbreviation (input) VCN_ENC_CMD_NO_OP :: u32 where "VCN_ENC_CMD_NO_OP \<equiv> 0"
abbreviation (input) VCN_ENC_CMD_END :: u32 where "VCN_ENC_CMD_END \<equiv> 1"
abbreviation (input) VCN_ENC_CMD_IB :: u32 where "VCN_ENC_CMD_IB \<equiv> 2"
abbreviation (input) VCN_ENC_CMD_FENCE :: u32 where "VCN_ENC_CMD_FENCE \<equiv> 3"
abbreviation (input) VCN_ENC_CMD_TRAP :: u32 where "VCN_ENC_CMD_TRAP \<equiv> 4"
abbreviation (input) VCN_ENC_CMD_REG_WRITE :: u32 where "VCN_ENC_CMD_REG_WRITE \<equiv> 0xb"
abbreviation (input) VCN_ENC_CMD_REG_WAIT :: u32 where "VCN_ENC_CMD_REG_WAIT \<equiv> 0xc"

definition find_nwords :: "u32 \<Rightarrow> u32" where
  "find_nwords opc =
     (if opc = VCN_ENC_CMD_IB then 4
      else if opc = VCN_ENC_CMD_REG_WAIT then 3
      else if opc = VCN_ENC_CMD_FENCE then 4
      else if opc = VCN_ENC_CMD_REG_WRITE then 2
      else 0)"

text \<open>
  The packages of a command buffer: a size in bytes, a type, and a payload.  The argument is what lies
  between the cursor and the end; a cursor that a size moves past the end stops the loop.
\<close>

function retrieve_engine_info :: "u32 list \<Rightarrow> u32 option" where
  "retrieve_engine_info ws =
     (if ws = [] then Some 0xFFFFFFFF
      else do {
        ib_size \<leftarrow> word_at ws 0;
        ib_type \<leftarrow> word_at ws 1;
        if ib_size = 0 then Some 0xFFFFFFFF
        else if ib_type = 0x30000001 then word_at ws 2
        else retrieve_engine_info (drop (2 + unat (ib_size div 4 - 2)) ws) })"
  by pat_completeness auto
termination
  by (relation "measure length") auto

declare retrieve_engine_info.simps [simp del]

text \<open>The sizes in an array of message indices of four words each; a read past the array is undefined.\<close>

fun index_sizes :: "u32 list \<Rightarrow> nat \<Rightarrow> nat \<Rightarrow> u32 option" where
  "index_sizes ws i 0 = Some 0"
| "index_sizes ws i (Suc k) = do {
     n \<leftarrow> word_at ws (4 * i + 2);
     m \<leftarrow> index_sizes ws (Suc i) k;
     Some (n + m) }"

text \<open>The header of a decode message has 40 bytes: six words and the first index.\<close>

definition message_size :: "'w vm_env \<Rightarrow> u32 \<Rightarrow> u64 \<Rightarrow> ('w, u32 option) dev_op" where
  "message_size E vmid addr s = do {
     let part = opt_vm_partition (asic_options (fst s));
     ((r, bytes), s) \<leftarrow> umr_read_vram E part vmid addr 40 s;
     if r < 0 then Some (None, s)
     else do {
       let mh = dwords_of_bytes bytes;
       header_size \<leftarrow> word_at mh 0;
       num_buffers \<leftarrow> word_at mh 2;
       first \<leftarrow> word_at mh 8;
       let total_size = header_size + first;
       if num_buffers > 1 then do {
         let size_ex = (num_buffers - 1) * 16;
         ((r, bytes), s) \<leftarrow> umr_read_vram E part vmid (addr + ucast header_size) size_ex s;
         if r < 0 then Some (None, s)
         else do {
           n \<leftarrow> index_sizes (dwords_of_bytes bytes) 0 (unat (num_buffers - 1));
           Some (Some (total_size + size_ex + n), s) } }
       else Some (Some total_size, s) } }"

function retrieve_decode_buffer ::
    "'w vm_env \<Rightarrow> umr_vcn_cmd_message \<Rightarrow> u32 \<Rightarrow> u32 list \<Rightarrow> ('w, umr_vcn_cmd_message list) dev_op" where
  "retrieve_decode_buffer E vcn offset ws s =
     (if ws = [] then Some ([], s)
      else do {
        ib_size \<leftarrow> word_at ws 0;
        ib_type \<leftarrow> word_at ws 1;
        if ib_size = 0 then Some ([], s)
        else if ib_type = 1 then do {
          valid_buf_flag \<leftarrow> word_at ws 2;
          if valid_buf_flag AND 1 \<noteq> 0 then do {
            hi \<leftarrow> word_at ws 3;
            lo \<leftarrow> word_at ws 4;
            (r, s) \<leftarrow> message_size E (vcn_vmid vcn) (mk64 lo hi) s;
            case r of
              None \<Rightarrow> Some ([], s)
            | Some n \<Rightarrow> Some ([\<lparr>vcn_vmid = vcn_vmid vcn, vcn_size = n, vcn_type = 0, vcn_addr = mk64 lo hi,
                vcn_from = vcn_addr vcn + ucast offset + 12, vcn_cmd = 0, vcn_buf = []\<rparr>], s) }
          else Some ([], s) }
        else retrieve_decode_buffer E vcn (offset + ib_size) (drop (2 + unat (ib_size div 4 - 2)) ws) s })"
  by pat_completeness auto
termination
  by (relation "measure (\<lambda>(_, _, _, ws, _). length ws)") auto

declare retrieve_decode_buffer.simps [simp del]

definition umr_vcn_get_ip_ver :: "umr_ip_block list \<Rightarrow> umr_ip_block option" where
  "umr_vcn_get_ip_ver blocks =
     (case umr_find_ip_block blocks ''vcn'' 0 of Some ip \<Rightarrow> Some ip | None \<Rightarrow> umr_find_ip_block blocks ''vcn'' (- 1))"

definition vcn_ip_version :: "umr_discoverable \<Rightarrow> u32" where
  "vcn_ip_version d = push_bit 16 (disc_maj d) OR push_bit 8 (disc_min d) OR disc_rev d"

definition find_next_vcn_ib :: "'w vm_env \<Rightarrow> umr_vcn_cmd_message \<Rightarrow> ('w, umr_vcn_cmd_message list) dev_op" where
  "find_next_vcn_ib E vcn s =
     (case umr_vcn_get_ip_ver (asic_blocks (fst s)) of
        None \<Rightarrow> Some ([], s)
      | Some ip \<Rightarrow>
          if vcn_ip_version (ip_discoverable ip) \<ge> 0x40000 then do {
            engine_type \<leftarrow> retrieve_engine_info (vcn_buf vcn);
            if engine_type = 3 then retrieve_decode_buffer E vcn 0 (vcn_buf vcn) s
            else Some ([], s) }
          else Some ([], s))"

definition enc_ib :: "'w vm_env \<Rightarrow> u64 \<Rightarrow> umr_vcn_enc_stream \<Rightarrow> ('w, umr_vcn_enc_stream) dev_op" where
  "enc_ib E k p s = do {
     (w0, p) \<leftarrow> enc_fetch_word p 0;
     (w1, p) \<leftarrow> enc_fetch_word p 1;
     (w2, p) \<leftarrow> enc_fetch_word p 2;
     (w3, p) \<leftarrow> enc_fetch_word p 3;
     let vmid = w0 OR (if asic_family (fst s) \<le> FAMILY_VI then 0 else UMR_MM_HUB);
     if opt_no_follow_ib (asic_options (fst s)) then Some (p, s)
     else do {
       ((r, bytes), s) \<leftarrow> umr_read_vram E (opt_vm_partition (asic_options (fst s))) vmid (mk64 w1 w2) (w3 * 4) s;
       if r < 0 then Some (p, s)
       else do {
         let vcn = \<lparr>vcn_vmid = vmid, vcn_size = w3 * 4, vcn_type = 1, vcn_addr = mk64 w1 w2, vcn_from = (k + 3) * 4,
                    vcn_cmd = ve_opcode p, vcn_buf = dwords_of_bytes bytes\<rparr>;
         (nx, s) \<leftarrow> find_next_vcn_ib E vcn s;
         Some (p\<lparr>ve_vcn := vcn # nx\<rparr>, s) } } }"

definition enc_body :: "'w vm_env \<Rightarrow> u64 \<Rightarrow> u32 list \<Rightarrow> u32 \<Rightarrow> ('w, u64 \<times> umr_vcn_enc_stream frame) dev_op" where
  "enc_body E k stream nwords s = do {
     w \<leftarrow> word_at stream 0;
     let n = find_nwords w;
     if nwords < 1 + n then Some ((k, Cut_off), s)
     else do {
       ws \<leftarrow> take_words n (tl stream);
       let p = zero_enc\<lparr>ve_opcode := w, ve_nwords := n, ve_words := ws\<rparr>;
       (p, s) \<leftarrow> (if w = VCN_ENC_CMD_IB then enc_ib E k p s else Some (p, s));
       Some ((k + 1 + ucast n, Frame p (1 + n)), s) } }"

definition umr_vcn_enc_decode_stream :: "'w vm_env \<Rightarrow> u32 list \<Rightarrow> u32 \<Rightarrow> ('w, umr_vcn_enc_stream list) dev_op" where
  "umr_vcn_enc_decode_stream E stream nwords s = do {
     ((ps, k), s) \<leftarrow> decode_loop (enc_body E) 0 stream nwords s;
     Some (stream_of zero_enc nwords ps, s) }"

subsection \<open>Decode streams\<close>

text \<open>The registers of the engine from version 2 on, by their offset in the packet.\<close>

definition vcn_regs_2 :: "(u32 \<times> string) list" where
  "vcn_regs_2 =
     [(0x503, ''mmUVD_GPCOM_VCPU_CMD''), (0x504, ''mmUVD_GPCOM_VCPU_DATA0''), (0x505, ''mmUVD_GPCOM_VCPU_DATA1''),
      (0x54c, ''mmUVD_GPCOM_VCPU_DATA2''), (0x506, ''mmUVD_ENGINE_CNTL''), (0x1fd, ''mmUVD_CONTEXT_ID''),
      (0x53f, ''mmUVD_NO_OP''), (0x81ff, ''mmUVD_NO_OP''), (0x54a, ''mmUVD_GP_SCRATCH8''), (0xc01d, ''mmUVD_SCRATCH9''),
      (0x1e1, ''mmUVD_LMI_RBC_IB_VMID''), (0x5a7, ''mmUVD_LMI_RBC_IB_64BIT_BAR_LOW''),
      (0x5a6, ''mmUVD_LMI_RBC_IB_64BIT_BAR_HIGH''), (0x1e2, ''mmUVD_RBC_IB_SIZE'')]"

definition vcn_regs_3 :: "(u32 \<times> string) list" where
  "vcn_regs_3 =
     [(0x0f, ''mmUVD_GPCOM_VCPU_CMD''), (0x10, ''mmUVD_GPCOM_VCPU_DATA0''), (0x11, ''mmUVD_GPCOM_VCPU_DATA1''),
      (0x68, ''mmUVD_GPCOM_VCPU_DATA2''), (0x27, ''mmUVD_CONTEXT_ID''),
      (0x29, ''mmUVD_NO_OP''), (0x81ff, ''mmUVD_NO_OP''), (0x66, ''mmUVD_GP_SCRATCH8''), (0xc01d, ''mmUVD_SCRATCH9''),
      (0x431, ''mmUVD_LMI_RBC_IB_VMID''), (0x3b4, ''mmUVD_LMI_RBC_IB_64BIT_BAR_LOW''),
      (0x3b5, ''mmUVD_LMI_RBC_IB_64BIT_BAR_HIGH''), (0x25c, ''mmUVD_RBC_IB_SIZE''), (0x26d, ''mmUVD_ENGINE_CNTL'')]"

definition get_reg_name :: "u32 \<Rightarrow> u32 \<Rightarrow> u32 \<Rightarrow> string" where
  "get_reg_name major minor off =
     (case map_of (if major = 2 \<and> (minor = 0 \<or> minor = 2) then vcn_regs_2 else vcn_regs_3) off of
        Some n \<Rightarrow> n | None \<Rightarrow> ''UNK'')"

text \<open>What a round carries on: the two sets of registers seen so far, the messages found and the words passed.\<close>

record vcn_dec_state =
  vd_uvd :: uvd_ib
  vd_n :: u32
  vd_addr :: u64
  vd_msgs :: "umr_vcn_cmd_message list"
  vd_pos :: u64

definition vcn_message :: "'w vm_env \<Rightarrow> u32 \<Rightarrow> u64 \<Rightarrow> vcn_dec_state \<Rightarrow> ('w, vcn_dec_state) dev_op" where
  "vcn_message E vmid from c s = do {
     ((r, bytes), s) \<leftarrow> umr_read_vram E (opt_vm_partition (asic_options (fst s))) vmid (vd_addr c) 40 s;
     if r < 0 then Some (c, s)
     else do {
       header_size \<leftarrow> word_at (dwords_of_bytes bytes) 0;
       total_size \<leftarrow> word_at (dwords_of_bytes bytes) 1;
       Some (c\<lparr>vd_msgs := vd_msgs c @ [\<lparr>vcn_vmid = vmid,
               vcn_size = (if total_size < header_size then header_size else total_size),
               vcn_type = 0, vcn_addr = vd_addr c, vcn_from = from, vcn_cmd = 0, vcn_buf = []\<rparr>]\<rparr>, s) } }"

definition vcn_command :: "'w vm_env \<Rightarrow> u32 \<Rightarrow> string \<Rightarrow> u32 \<Rightarrow> vcn_dec_state \<Rightarrow> ('w, vcn_dec_state) dev_op" where
  "vcn_command E vmid name w c s =
     (if opt_no_follow_ib (asic_options (fst s)) \<or> vmid AND NOT UMR_MM_HUB = 0 then Some (c, s)
      else if strstr name ''mmUVD_GPCOM_VCPU_DATA0'' then Some (c\<lparr>vd_addr := vd_addr c OR ucast w, vd_n := vd_n c OR 1\<rparr>, s)
      else if strstr name ''mmUVD_GPCOM_VCPU_DATA1'' then
        Some (c\<lparr>vd_addr := vd_addr c OR push_bit 32 (ucast w), vd_n := vd_n c OR 2\<rparr>, s)
      else if strstr name ''mmUVD_GPCOM_VCPU_CMD'' then do {
        (c, s) \<leftarrow> (if vd_n c = 3 \<and> drop_bit 1 w = 0 then vcn_message E vmid ((vd_pos c - 1) * 4) c s else Some (c, s));
        Some (c\<lparr>vd_addr := 0, vd_n := 0\<rparr>, s) }
      else Some (c, s))"

definition vcn_header :: "u32 \<Rightarrow> u32 \<Rightarrow> u32 \<Rightarrow> pm4_fields" where
  "vcn_header major minor w =
     (let off = w AND 0xFFFF; bad = (major \<noteq> 1 \<and> get_reg_name major minor off = ''UNK'') in
      zero_pm4\<lparr>pf_header := w, pf_pkttype := drop_bit 30 w, pf_opcode := off,
        pf_n_words := (if bad then 0 else (drop_bit 16 w + 1) AND 0x3FFF),
        pf_pkt0off := (if bad then 0 else off)\<rparr>)"

definition vcn_writes ::
    "'w pm4_decoder \<Rightarrow> 'w pkt_env \<Rightarrow> umr_discoverable \<Rightarrow> u32 \<Rightarrow> vcn_dec_state \<Rightarrow> pm4_fields \<Rightarrow>
     ('w, vcn_dec_state \<times> pm4_fields \<times> umr_pm4_stream list) dev_op" where
  "vcn_writes dec E ip vmid c p s = do {
     let name = (if disc_maj ip = 1 then reg_name E (fst s) (ucast (pf_pkt0off p))
                 else get_reg_name (disc_maj ip) (disc_min ip) (pf_pkt0off p));
     (w, p) \<leftarrow> fetch_word p 0;
     let c = c\<lparr>vd_uvd := uvd_write (asic_family (fst s)) name w (vd_uvd c)\<rparr>;
     (c, s) \<leftarrow> vcn_command (pe_vm E) vmid name w c s;
     let u = uvd_assume_vmid (vd_uvd c);
     if \<not> opt_no_follow_ib (asic_options (fst s)) \<and> uvd_n u = 15 then do {
       ((p, ib), s) \<leftarrow> follow_ib dec (pe_vm E) (opt_vm_partition (asic_options (fst s))) (uvd_vmid u) (uvd_addr u) (uvd_size u) p s;
       Some ((c\<lparr>vd_uvd := zero_uvd\<rparr>, p, ib), s) }
     else Some ((c\<lparr>vd_uvd := u\<rparr>, p, []), s) }"

definition vcn_dec_body ::
    "'w pm4_decoder \<Rightarrow> 'w pkt_env \<Rightarrow> umr_discoverable \<Rightarrow> u32 \<Rightarrow> vcn_dec_state \<Rightarrow> u32 list \<Rightarrow> u32 \<Rightarrow>
     ('w, vcn_dec_state \<times> umr_pm4_stream frame) dev_op" where
  "vcn_dec_body dec E ip vmid c stream nwords s = do {
     w \<leftarrow> word_at stream 0;
     let p = vcn_header (disc_maj ip) (disc_min ip) w;
     let n = pf_n_words p;
     if nwords < 1 + n then Some ((c, Cut_off), s)
     else do {
       ws \<leftarrow> take_words n (tl stream);
       let p = p\<lparr>pf_words := ws\<rparr>;
       ((c, p, ib), s) \<leftarrow> (if n \<noteq> 0 then vcn_writes dec E ip vmid c p s else Some ((c, p, []), s));
       Some ((c\<lparr>vd_pos := vd_pos c + 1 + ucast n\<rparr>, Frame (Pm4 p ib) (1 + n)), s) } }"

text \<open>The messages hang on the first packet.\<close>

definition attach_msgs :: "umr_vcn_cmd_message list \<Rightarrow> umr_pm4_stream list \<Rightarrow> umr_pm4_stream list" where
  "attach_msgs ms ps = (case ps of [] \<Rightarrow> [] | Pm4 p ib # rest \<Rightarrow> Pm4 (p\<lparr>pf_vcn := ms\<rparr>) ib # rest)"

primrec umr_vcn_dec_decode_stream :: "nat \<Rightarrow> 'w pkt_env \<Rightarrow> 'w pm4_decoder" where
  "umr_vcn_dec_decode_stream 0 E vmid stream nwords s = None"
| "umr_vcn_dec_decode_stream (Suc d) E vmid stream nwords s =
     (case umr_vcn_get_ip_ver (asic_blocks (fst s)) of
        None \<Rightarrow> Some ([], s)
      | Some ip \<Rightarrow>
          if ip_maj ip > 3 then Some ([], s)
          else do {
            ((ps, c), s) \<leftarrow> decode_loop (vcn_dec_body (umr_vcn_dec_decode_stream d E) E (ip_discoverable ip) vmid)
              \<lparr>vd_uvd = zero_uvd, vd_n = 0, vd_addr = 0, vd_msgs = [], vd_pos = 0\<rparr> stream nwords s;
            Some (attach_msgs (vd_msgs c) (stream_of (Pm4 zero_pm4 []) nwords ps), s) })"

subsection \<open>Both decoders partition the buffer\<close>

definition enc_wire :: "umr_vcn_enc_stream \<Rightarrow> u32 list" where
  "enc_wire p = ve_opcode p # ve_words p"

lemma enc_fetch_frame: "enc_fetch_word p off = Some (w, q) \<Longrightarrow> ve_opcode q = ve_opcode p \<and> ve_words q = ve_words p"
  by (auto simp: enc_fetch_word_def split: if_splits)

lemma enc_ib_frame: "enc_ib E k p s = Some (q, s') \<Longrightarrow> ve_opcode q = ve_opcode p \<and> ve_words q = ve_words p"
  by (auto simp: enc_ib_def Let_def split: bind_splits if_splits dest!: enc_fetch_frame)

lemma find_nwords_le: "find_nwords w \<le> 4"
  by (simp add: find_nwords_def)

interpretation enc: packet_body "enc_body E" enc_wire for E :: "'w vm_env"
proof
  fix k stream nwords s k' p n s'
  assume b: "enc_body E k stream nwords s = Some ((k', Frame p n), s')"
  obtain w rest where st: "stream = w # rest" using b by (cases stream) (simp_all add: enc_body_def)
  let ?n = "find_nwords w"
  have u: "unat (1 + ?n) = Suc (unat ?n)"
    by (rule unat_1_plus, rule order_trans, rule find_nwords_le) simp
  have "1 + ?n \<le> nwords \<and> n = 1 + ?n \<and> unat ?n \<le> length rest \<and> ve_opcode p = w \<and> ve_words p = take (unat ?n) rest"
    using b by (auto simp: enc_body_def st Let_def take_words_def not_less split: bind_splits if_splits dest!: enc_ib_frame)
  then show "n \<noteq> 0 \<and> n \<le> nwords \<and> length (enc_wire p) = unat n \<and> take (unat n) stream = enc_wire p"
    using u by (auto simp: enc_wire_def st)
qed

lemma vcn_writes_core:
  "vcn_writes dec E ip vmid c p s = Some ((c', q, ib), s') \<Longrightarrow> pm4_core q = pm4_core p"
  by (auto simp: vcn_writes_def Let_def split: bind_splits if_splits dest!: fetch_word_core follow_ib_core)

interpretation vcn_dec: packet_body "vcn_dec_body dec E ip vmid" pm4_wire for dec :: "'w pm4_decoder" and E ip vmid
proof
  fix c stream nwords s c' p n s'
  assume b: "vcn_dec_body dec E ip vmid c stream nwords s = Some ((c', Frame p n), s')"
  obtain w rest where st: "stream = w # rest" using b by (cases stream) (simp_all add: vcn_dec_body_def)
  let ?h = "vcn_header (disc_maj ip) (disc_min ip) w"
  let ?n = "pf_n_words ?h"
  have "?n \<le> 0xFFFFFF"
    by (auto simp: vcn_header_def Let_def intro: order_trans [OF word_and_le1])
  then have u: "unat (1 + ?n) = Suc (unat ?n)" by (rule unat_1_plus)
  have h: "pf_header ?h = w" by (simp add: vcn_header_def Let_def)
  have "1 + ?n \<le> nwords \<and> n = 1 + ?n \<and> unat ?n \<le> length rest \<and> pm4_core (pm4_fields p) = pm4_core (?h\<lparr>pf_words := take (unat ?n) rest\<rparr>)"
    using b by (auto simp: vcn_dec_body_def st Let_def take_words_def not_less split: bind_splits if_splits dest!: vcn_writes_core)
  then have "1 + ?n \<le> nwords" "n = 1 + ?n" "unat ?n \<le> length rest" "pf_header (pm4_fields p) = w" "pf_words (pm4_fields p) = take (unat ?n) rest"
    using h by (auto dest: arg_cong [of _ _ pf_header] arg_cong [of _ _ pf_words] simp: pm4_core_def)
  then show "n \<noteq> 0 \<and> n \<le> nwords \<and> length (pm4_wire p) = unat n \<and> take (unat n) stream = pm4_wire p"
    using u by (auto simp: pm4_wire_def st)
qed

lemma map_wire_attach: "map pm4_wire (attach_msgs ms ps) = map pm4_wire ps"
  by (auto simp: attach_msgs_def pm4_wire_def split: list.split umr_pm4_stream.split)

lemma enc_decode_partitions:
  assumes "nwords \<noteq> 0" and "umr_vcn_enc_decode_stream E stream nwords s = Some (es, s')"
  shows "\<exists>rest. take (unat nwords) stream = concat (map enc_wire es) @ rest"
  using assms enc.loop_partitions [of E 0 stream nwords s]
  by (fastforce simp: umr_vcn_enc_decode_stream_def stream_of_def split: bind_splits option.splits)

lemma vcn_dec_decode_partitions:
  assumes "nwords \<noteq> 0" and a: "umr_vcn_dec_decode_stream d E vmid stream nwords s = Some (ps, s')"
  shows "\<exists>rest. take (unat nwords) stream = concat (map pm4_wire ps) @ rest"
proof (cases "ps = []")
  case False
  obtain d' where d: "d = Suc d'" using a by (cases d) auto
  obtain ip c c' qs where "decode_loop (vcn_dec_body (umr_vcn_dec_decode_stream d' E) E ip vmid) c stream nwords s =
      Some ((Some qs, c'), s')" "ps = attach_msgs (vd_msgs c') qs"
    using a False assms(1) by (auto simp: d stream_of_def attach_msgs_def split: bind_splits option.splits if_splits)
  then show ?thesis using vcn_dec.loop_partitions by (metis map_wire_attach)
qed simp

text \<open>The packets of both video stream decoders are, word for word, the beginning of the buffer, whatever
  messages and buffers were followed on the way.\<close>

theorem vcn_decoders_partition:
  assumes "nwords \<noteq> 0"
  shows "(umr_vcn_enc_decode_stream (pe_vm E) stream nwords s = Some (es, s1) \<longrightarrow>
      (\<exists>rest. take (unat nwords) stream = concat (map enc_wire es) @ rest)) \<and>
    (umr_vcn_dec_decode_stream d E vmid stream nwords s = Some (ps, s2) \<longrightarrow>
      (\<exists>rest. take (unat nwords) stream = concat (map pm4_wire ps) @ rest))"
  using enc_decode_partitions [OF assms] vcn_dec_decode_partitions [OF assms] by blast

subsection \<open>Reading back encode streams\<close>

text \<open>Packets as the decoder makes them; buffers that are to be followed are left out.\<close>

definition enc_ok :: "umr_asic \<times> 'w \<Rightarrow> umr_vcn_enc_stream \<Rightarrow> bool" where
  "enc_ok s p \<longleftrightarrow> p = zero_enc\<lparr>ve_opcode := ve_opcode p, ve_nwords := find_nwords (ve_opcode p), ve_words := ve_words p\<rparr> \<and>
     length (ve_words p) = unat (find_nwords (ve_opcode p)) \<and>
     (ve_opcode p = VCN_ENC_CMD_IB \<longrightarrow> opt_no_follow_ib (asic_options (fst s)))"

lemma unat_enc_size: "unat (1 + find_nwords w) = Suc (unat (find_nwords w))"
  by (rule unat_1_plus, rule order_trans, rule find_nwords_le) simp

lemma enc_unfollowed_ib:
  assumes "opt_no_follow_ib (asic_options (fst s))" and "ve_nwords p = 4" and "length (ve_words p) = 4"
  shows "enc_ib E k p s = Some (p, s)"
  using assms by (simp add: enc_ib_def enc_fetch_word_def word_at_def)

lemma enc_ok_wire:
  assumes "enc_ok s p"
  shows "length (enc_wire p) = unat (1 + find_nwords (ve_opcode p))"
    and "of_nat (length (enc_wire p)) = 1 + find_nwords (ve_opcode p)"
proof -
  show "length (enc_wire p) = unat (1 + find_nwords (ve_opcode p))"
    using assms by (simp add: enc_ok_def enc_wire_def unat_enc_size)
  then show "of_nat (length (enc_wire p)) = 1 + find_nwords (ve_opcode p)" by simp
qed

interpretation enc_io: cut_body "enc_body E" enc_wire enc_ok for E :: "'w vm_env"
proof
  fix s :: "umr_asic \<times> 'w" and p and nwords :: u32 and rest k
  assume ok: "enc_ok s p" and n: "length (enc_wire p) \<le> unat nwords"
  let ?n = "find_nwords (ve_opcode p)"
  have p: "zero_enc\<lparr>ve_opcode := ve_opcode p, ve_nwords := ?n, ve_words := ve_words p\<rparr> = p"
    and l: "length (ve_words p) = unat ?n" using ok unfolding enc_ok_def by metis+
  have w: "enc_wire p = ve_opcode p # ve_words p" by (simp add: enc_wire_def)
  have nw: "\<not> nwords < 1 + ?n" using n enc_ok_wire [OF ok] by (simp add: word_less_nat_alt)
  have ib: "(if ve_opcode p = VCN_ENC_CMD_IB then enc_ib E k p s else Some (p, s)) = Some (p, s)"
  proof (cases "ve_opcode p = VCN_ENC_CMD_IB")
    case True
    then have "ve_nwords p = 4" using p by (metis find_nwords_def umr_vcn_enc_stream.select_convs(2) umr_vcn_enc_stream.surjective umr_vcn_enc_stream.update_convs(2,3))
    moreover have "length (ve_words p) = 4" "opt_no_follow_ib (asic_options (fst s))" using ok True l by (simp_all add: enc_ok_def find_nwords_def)
    ultimately show ?thesis using enc_unfollowed_ib [of s p E k] by simp
  qed simp
  show "\<exists>k'. enc_body E k (enc_wire p @ rest) nwords s = Some ((k', Frame p (of_nat (length (enc_wire p)))), s)"
    unfolding enc_ok_wire(2) [OF ok] using nw l
    by (simp add: enc_body_def w Let_def take_words_def split del: if_split) (simp only: p ib, simp)
next
  fix s :: "umr_asic \<times> 'w" and p
  assume "enc_ok s p"
  then show "enc_wire p \<noteq> [] \<and> length (enc_wire p) < 2 ^ 32"
    using enc_ok_wire(1) [of s p] unsigned_less [where 'a = nat, of "1 + find_nwords (ve_opcode p)"] by (simp add: enc_wire_def)
next
  fix s :: "umr_asic \<times> 'w" and p u v k
  assume ok: "enc_ok s p" and w: "enc_wire p = u @ v" and ne: "u \<noteq> []" "v \<noteq> []"
  let ?n = "1 + find_nwords (ve_opcode p)"
  obtain r where u: "u = ve_opcode p # r" using w ne by (cases u) (auto simp: enc_wire_def)
  have "length (u @ v) = unat ?n" unfolding w [symmetric] by (rule enc_ok_wire(1) [OF ok])
  then have lt: "length u < unat ?n" using ne by (cases v) simp_all
  then have "unat (of_nat (length u) :: u32) = length u"
    using unsigned_less [where 'a = nat, of ?n] by (intro unat_of_length) simp
  then have "of_nat (length u) < ?n" using lt by (simp add: word_less_nat_alt)
  then show "\<exists>k'. enc_body E k u (of_nat (length u)) s = Some ((k', Cut_off), s)"
    by (simp add: enc_body_def u Let_def)
qed

text \<open>Encode packets written out decode to themselves, and a buffer that ends in the middle of a packet loses
  only that packet.\<close>

theorem vcn_enc_roundtrip:
  assumes "list_all (enc_ok s) ps" and "ps \<noteq> []" and "enc_ok s p" and "enc_wire p = u @ v" and "v \<noteq> []"
    and "length (concat (map enc_wire ps) @ u) < 2 ^ 32"
  shows "umr_vcn_enc_decode_stream E (concat (map enc_wire ps) @ u) (of_nat (length (concat (map enc_wire ps) @ u))) s = Some (ps, s)"
proof -
  let ?ws = "concat (map enc_wire ps) @ u"
  obtain k where "decode_loop (enc_body E) 0 ?ws (of_nat (length ?ws)) s = Some ((Some ps, k), s)"
    using enc_io.decode_wire_cut [OF assms(1,3-6), of E 0] by blast
  moreover have "?ws \<noteq> []" using assms(2) by (cases ps) (simp_all add: enc_wire_def)
  then have "(of_nat (length ?ws) :: u32) \<noteq> 0" using unat_of_length [OF assms(6)] by (metis length_0_conv unat_0)
  ultimately show ?thesis by (simp add: umr_vcn_enc_decode_stream_def stream_of_def)
qed

subsection \<open>The packages of a command buffer\<close>

definition package_wire :: "u32 \<times> u32 list \<Rightarrow> u32 list" where
  "package_wire p = of_nat (4 * (2 + length (snd p))) # fst p # snd p"

definition package_ok :: "u32 \<times> u32 list \<Rightarrow> bool" where
  "package_ok p \<longleftrightarrow> 4 * (2 + length (snd p)) < 2 ^ 32 \<and> snd p \<noteq> []"

lemma unat_package_skip:
  assumes "4 * (2 + n) < 2 ^ 32"
  shows "2 + unat ((of_nat (4 * (2 + n)) :: u32) div 4 - 2) = 2 + n" and "(of_nat (4 * (2 + n)) :: u32) \<noteq> 0"
proof -
  let ?w = "of_nat (4 * (2 + n)) :: u32"
  have u: "unat ?w = 4 * (2 + n)" by (rule unat_of_length [OF assms])
  then show "?w \<noteq> 0" by (metis unat_0 mult_eq_0_iff add_is_0 zero_neq_numeral)
  have d: "unat (?w div 4) = 2 + n" by (subst unat_div, subst u) simp
  then have "unat (?w div 4 - 2) = n" by (subst unat_sub) (simp_all add: word_le_nat_alt del: of_nat_mult of_nat_add)
  then show "2 + unat (?w div 4 - 2) = 2 + n" by simp
qed

text \<open>In a command buffer of whole packages the engine is the one that the first engine package names, and
  without such a package the engine is unknown.\<close>

theorem engine_info_first:
  assumes "list_all package_ok ps"
  shows "retrieve_engine_info (concat (map package_wire ps)) =
    Some (case find (\<lambda>p. fst p = 0x30000001) ps of None \<Rightarrow> 0xFFFFFFFF | Some p \<Rightarrow> hd (snd p))"
  using assms
proof (induction ps)
  case (Cons p ps)
  obtain t w pl where p: "p = (t, w # pl)" using Cons.prems by (cases p; cases "snd p") (auto simp: package_ok_def)
  have ok: "4 * (2 + length (w # pl)) < 2 ^ 32" using Cons.prems by (simp add: p package_ok_def)
  note k = unat_package_skip [OF ok]
  have "drop (2 + length (w # pl)) (concat (map package_wire (p # ps))) = concat (map package_wire ps)"
    by (simp add: p package_wire_def)
  moreover have "concat (map package_wire (p # ps)) = of_nat (4 * (2 + length (w # pl))) # t # w # pl @ concat (map package_wire ps)"
    by (simp add: p package_wire_def)
  ultimately show ?case using Cons k
    by (cases "t = 0x30000001"; subst retrieve_engine_info.simps) (simp_all add: p numeral_2_eq_2 del: of_nat_mult of_nat_add of_nat_Suc)
qed (simp add: retrieve_engine_info.simps)

definition demo_reg_write :: umr_vcn_enc_stream where
  "demo_reg_write = zero_enc\<lparr>ve_opcode := 0xb, ve_nwords := 2, ve_words := [0x40, 7]\<rparr>"

lemma demo_reg_write_ok: "enc_ok s demo_reg_write" "enc_wire demo_reg_write = [0xb, 0x40, 7]"
  by (simp_all add: enc_ok_def enc_wire_def demo_reg_write_def find_nwords_def zero_enc_def)

theorem vcn_enc_roundtrip_witness:
  "umr_vcn_enc_decode_stream demo_env [0xb, 0x40, 7, 0xb] 4 (demo_dev, demo_harness) = Some ([demo_reg_write], (demo_dev, demo_harness))"
  using vcn_enc_roundtrip [of "(demo_dev, demo_harness)" "[demo_reg_write]" demo_reg_write "[0xb]" "[0x40, 7]" demo_env]
    demo_reg_write_ok(1) [of "(demo_dev, demo_harness)"] demo_reg_write_ok(2) by simp

definition demo_vcn_dev :: umr_asic where
  "demo_vcn_dev = demo_dev\<lparr>asic_blocks := [(demo_block ''vcn30'' [])\<lparr>ip_discoverable := (ip_discoverable (demo_block ''vcn30'' []))\<lparr>disc_maj := 3\<rparr>\<rparr>]\<rparr>"

theorem vcn_decoders_partition_witness:
  "\<exists>es s1 ps s2 r1 r2. umr_vcn_enc_decode_stream (pe_vm demo_pkt_env) [0x0, 0x8000000f, 4] 3 (demo_vcn_dev, demo_harness) = Some (es, s1) \<and>
     umr_vcn_dec_decode_stream 1 demo_pkt_env 0 [0x0, 0x8000000f, 4] 3 (demo_vcn_dev, demo_harness) = Some (ps, s2) \<and>
     length es = 3 \<and> length ps = 2 \<and>
     take 3 [0x0, 0x8000000f, 4] = concat (map enc_wire es) @ r1 \<and> take 3 [0x0, 0x8000000f, 4] = concat (map pm4_wire ps) @ r2"
proof -
  let ?b = "[0x0, 0x8000000f, 4] :: u32 list" and ?s = "(demo_vcn_dev, demo_harness)"
  have "map_option (length \<circ> fst) (umr_vcn_enc_decode_stream (pe_vm demo_pkt_env) ?b 3 ?s) = Some 3" by code_simp
  then obtain es s1 where e: "umr_vcn_enc_decode_stream (pe_vm demo_pkt_env) ?b 3 ?s = Some (es, s1)" "length es = 3" by auto
  have "map_option (length \<circ> fst) (umr_vcn_dec_decode_stream 1 demo_pkt_env 0 ?b 3 ?s) = Some 2" by code_simp
  then obtain ps s2 where p: "umr_vcn_dec_decode_stream 1 demo_pkt_env 0 ?b 3 ?s = Some (ps, s2)" "length ps = 2" by auto
  have "unat (3 :: u32) = 3" "(3 :: u32) \<noteq> 0" by simp_all
  then show ?thesis using e p vcn_decoders_partition [of 3 demo_pkt_env ?b ?s es s1 1 0 ps s2] by metis
qed

theorem engine_info_first_witness: "retrieve_engine_info [12, 5, 9, 16, 0x30000001, 3, 0] = Some 3"
  using engine_info_first [of "[(5, [9]), (0x30000001, [3, 0])]"] by (simp add: package_ok_def package_wire_def)

end
