(* ===== verification/Ring_Control.thy ===== *)
theory Ring_Control
  imports Packet_Frame
begin

unbundle bit_operations_syntax

text \<open>
  Halting the waves behind a ring (\<^verbatim>\<open>src/lib/ring_is_halted.c\<close>, \<^verbatim>\<open>src/lib/sq_cmd_halt_waves.c\<close>).
  The contents of a ring come from a callback: the words of the ring file, which start with the read
  and write pointers and a third word, and the size of the ring proper in bytes.
\<close>

type_synonym 'w ring_reader = "string \<Rightarrow> ('w, (u32 list \<times> u32) option) dev_op"

subsection \<open>Is a ring halted?\<close>

text \<open>The two pointers modulo the size of the ring in words; an empty ring divides by zero.\<close>

definition ring_pointers :: "u32 list \<Rightarrow> u32 \<Rightarrow> (u32 \<times> u32) option" where
  "ring_pointers ringdata ringsize = do {
     r \<leftarrow> word_at ringdata 0;
     w \<leftarrow> word_at ringdata 1;
     let n = ringsize div 4;
     if n = 0 then None else Some (r mod n, w mod n) }"

primrec halted_loop :: "nat \<Rightarrow> 'w ring_reader \<Rightarrow> string \<Rightarrow> ('w, int) dev_op" where
  "halted_loop 0 rd ringname s = Some (1, s)"
| "halted_loop (Suc k) rd ringname s = do {
     (ring, s) \<leftarrow> rd ringname s;
     case ring of
       None \<Rightarrow> Some (0, s)
     | Some (ringdata, ringsize) \<Rightarrow> do {
         (rptr, wptr) \<leftarrow> ring_pointers ringdata ringsize;
         if rptr = wptr then Some (0, s) else halted_loop k rd ringname s } }"

definition umr_ring_is_halted :: "'w ring_reader \<Rightarrow> string \<Rightarrow> ('w, int) dev_op" where
  "umr_ring_is_halted rd ringname s = (if ringname = ''none'' then Some (1, s) else halted_loop 100 rd ringname s)"

subsection \<open>Halting and resuming\<close>

definition find_sq_cmd :: "umr_asic \<Rightarrow> (umr_reg option \<times> umr_asic) option" where
  "find_sq_cmd asic =
     (if asic_family asic = FAMILY_SI then Some (None, asic)
      else do {
        (r, m, asic') \<leftarrow> umr_find_reg_data_by_ip_by_instance asic (Some ''gfx'') (opt_vm_partition (asic_options asic))
          (if asic_family asic \<ge> FAMILY_GFX11 then ''regSQ_CMD'' else ''mmSQ_CMD'');
        Some (map_option (reg_at (asic_blocks asic')) r, asic') })"

definition set_bank :: "u32 \<Rightarrow> umr_bank_grbm \<Rightarrow> umr_asic \<Rightarrow> umr_asic" where
  "set_bank b g asic = asic\<lparr>asic_options := (asic_options asic)\<lparr>opt_use_bank := b, opt_grbm := g\<rparr>\<rparr>"

definition broadcast_bank :: umr_bank_grbm where
  "broadcast_bank = \<lparr>grbm_se = 0xFFFFFFFF, grbm_sh = 0xFFFFFFFF, grbm_instance = 0xFFFFFFFF\<rparr>"

text \<open>
  The command is sent again while the ring does not look halted and retries are left.  The result,
  which the source does not keep, is how often it was sent.
\<close>

primrec send_cmd :: "nat \<Rightarrow> bool \<Rightarrow> 'w umr_funcs \<Rightarrow> 'w ring_reader \<Rightarrow> u64 \<Rightarrow> u32 \<Rightarrow> regclass \<Rightarrow> ('w, nat) dev_op" where
  "send_cmd 0 halt F rd addr v cls s = do {
     (_, s) \<leftarrow> write_reg F addr v cls s;
     Some (1, s) }"
| "send_cmd (Suc k) halt F rd addr v cls s = do {
     (_, s) \<leftarrow> write_reg F addr v cls s;
     if halt then do {
       (h, s) \<leftarrow> umr_ring_is_halted rd (opt_ring_name (asic_options (fst s))) s;
       if h = 0 then do { (n, s) \<leftarrow> send_cmd k halt F rd addr v cls s; Some (Suc n, s) }
       else Some (1, s) }
     else Some (1, s) }"

definition halt_fields :: "chipfamily \<Rightarrow> bool \<Rightarrow> (string \<times> u64) list" where
  "halt_fields family halt =
     (if family = FAMILY_CIK then [(''CMD'', if halt then 1 else 2)]
      else [(''CMD'', 1), (''DATA'', if halt then 1 else 0)]) @ [(''MODE'', 1)]"

definition umr_sq_cmd_halt_waves :: "'w umr_funcs \<Rightarrow> 'w ring_reader \<Rightarrow> bool \<Rightarrow> nat \<Rightarrow> ('w, int) dev_op" where
  "umr_sq_cmd_halt_waves F rd halt max_retries s = do {
     (r, asic) \<leftarrow> find_sq_cmd (fst s);
     case r of
       None \<Rightarrow> Some (- 1, (asic, snd s))
     | Some reg \<Rightarrow> do {
         v \<leftarrow> compose_all reg (halt_fields (asic_family asic) halt) 0;
         let bank = opt_use_bank (asic_options asic);
         let grbm = opt_grbm (asic_options asic);
         (_, s) \<leftarrow> send_cmd max_retries halt F rd (reg_addr reg * 4) v (reg_type reg) (set_bank 1 broadcast_bank asic, snd s);
         let s = (set_bank bank grbm (fst s), snd s);
         if halt then do {
           (h, s) \<leftarrow> umr_ring_is_halted rd (opt_ring_name (asic_options (fst s))) s;
           Some (if h = 0 then - 1 else 0, s) }
         else Some (0, s) } }"

definition umr_sq_cmd_singlestep :: "'w umr_funcs \<Rightarrow> u32 \<Rightarrow> u32 \<Rightarrow> u32 \<Rightarrow> u32 \<Rightarrow> u32 \<Rightarrow> ('w, int) dev_op" where
  "umr_sq_cmd_singlestep F se sh wgp simd wave s =
     (if asic_family (fst s) < FAMILY_NV then Some (- 1, s)
      else do {
        (r, asic) \<leftarrow> find_sq_cmd (fst s);
        case r of
          None \<Rightarrow> Some (- 1, (asic, snd s))
        | Some reg \<Rightarrow> do {
            v \<leftarrow> compose_all reg [(''CMD'', 8), (''MODE'', 0), (''WAVE_ID'', ucast wave)] 0;
            let bank = opt_use_bank (asic_options asic);
            let grbm = opt_grbm (asic_options asic);
            (_, s) \<leftarrow> write_reg F (reg_addr reg * 4) v (reg_type reg)
              (set_bank 1 \<lparr>grbm_se = se, grbm_sh = sh, grbm_instance = push_bit 2 wgp OR simd\<rparr> asic, snd s);
            Some (0, (set_bank bank grbm (fst s), snd s)) } })"

subsection \<open>The user's bank selection survives\<close>

lemma set_bank_simps [simp]:
  "opt_use_bank (asic_options (set_bank b g asic)) = b" "opt_grbm (asic_options (set_bank b g asic)) = g"
  "asic_blocks (set_bank b g asic) = asic_blocks asic"
  by (simp_all add: set_bank_def)

definition reader_keeps :: "'w ring_reader \<Rightarrow> bool" where
  "reader_keeps rd \<longleftrightarrow> (\<forall>n s r s'. rd n s = Some (r, s') \<longrightarrow> fst s' = fst s)"

lemma halted_keeps: "reader_keeps rd \<Longrightarrow> umr_ring_is_halted rd n s = Some (h, s') \<Longrightarrow> fst s' = fst s"
proof -
  assume rd: "reader_keeps rd"
  have "halted_loop k rd n s = Some (h, s') \<Longrightarrow> fst s' = fst s" for k
  proof (induction k arbitrary: s)
    case (Suc k)
    then obtain ring s1 where r: "rd n s = Some (ring, s1)" by (auto split: bind_splits)
    then have "fst s1 = fst s" using rd unfolding reader_keeps_def by blast
    then show ?case using Suc r by (auto split: option.splits bind_splits if_splits prod.splits)
  qed simp
  then show "umr_ring_is_halted rd n s = Some (h, s') \<Longrightarrow> fst s' = fst s"
    by (auto simp: umr_ring_is_halted_def split: if_splits)
qed

lemma find_sq_cmd_keeps:
  assumes "find_sq_cmd asic = Some (r, asic')"
  shows "opt_use_bank (asic_options asic') = opt_use_bank (asic_options asic) \<and> opt_grbm (asic_options asic') = opt_grbm (asic_options asic)"
  using assms
  by (auto simp: find_sq_cmd_def umr_find_reg_data_by_ip_by_instance_def umr_find_reg_data_by_ip_by_instance_with_ip_def Let_def
      split: if_splits bind_splits option.splits)

lemma send_cmd_count: "send_cmd k halt F rd addr v cls s = Some (n, s') \<Longrightarrow> 1 \<le> n \<and> n \<le> Suc k"
  by (induction k arbitrary: s n) (fastforce split: bind_splits if_splits)+

lemma halt_keeps:
  assumes "reader_keeps rd" and "umr_sq_cmd_halt_waves F rd halt k s = Some (r, s')"
  shows "opt_use_bank (asic_options (fst s')) = opt_use_bank (asic_options (fst s)) \<and>
    opt_grbm (asic_options (fst s')) = opt_grbm (asic_options (fst s))"
proof -
  obtain reg asic where f: "find_sq_cmd (fst s) = Some (reg, asic)"
    using assms(2) by (auto simp: umr_sq_cmd_halt_waves_def split: bind_splits)
  have "opt_use_bank (asic_options (fst s')) = opt_use_bank (asic_options asic) \<and> opt_grbm (asic_options (fst s')) = opt_grbm (asic_options asic)"
  proof (cases reg)
    case None
    then show ?thesis using assms(2) f by (auto simp: umr_sq_cmd_halt_waves_def)
  next
    case (Some rg)
    then show ?thesis using assms(2) f
      by (auto simp: umr_sq_cmd_halt_waves_def Let_def split: bind_splits if_splits dest!: halted_keeps [OF assms(1)])
  qed
  then show ?thesis using find_sq_cmd_keeps [OF f] by auto
qed

lemma singlestep_keeps:
  assumes "umr_sq_cmd_singlestep F se sh wgp simd wave s = Some (r, s')"
  shows "opt_use_bank (asic_options (fst s')) = opt_use_bank (asic_options (fst s)) \<and>
    opt_grbm (asic_options (fst s')) = opt_grbm (asic_options (fst s))"
proof (cases "asic_family (fst s) < FAMILY_NV")
  case False
  then obtain reg asic where f: "find_sq_cmd (fst s) = Some (reg, asic)"
    using assms by (auto simp: umr_sq_cmd_singlestep_def split: bind_splits)
  then have "opt_use_bank (asic_options (fst s')) = opt_use_bank (asic_options asic) \<and> opt_grbm (asic_options (fst s')) = opt_grbm (asic_options asic)"
    using assms False by (cases reg) (auto simp: umr_sq_cmd_singlestep_def Let_def split: bind_splits)
  then show ?thesis using find_sq_cmd_keeps [OF f] by auto
qed (use assms in \<open>simp add: umr_sq_cmd_singlestep_def\<close>)

text \<open>C28: Halting, resuming and single stepping waves leave the bank selection of the user as it was on
  every path, although the command itself is sent under a selection of their own and the callback that
  writes the register may do anything to the device.\<close>

theorem wave_commands_restore_bank:
  assumes "reader_keeps rd"
    and "umr_sq_cmd_halt_waves F rd halt k s = Some (r, s') \<or> umr_sq_cmd_singlestep F se sh wgp simd wave s = Some (r, s')"
  shows "opt_use_bank (asic_options (fst s')) = opt_use_bank (asic_options (fst s)) \<and>
    opt_grbm (asic_options (fst s')) = opt_grbm (asic_options (fst s))"
  using assms(2) halt_keeps [OF assms(1)] singlestep_keeps by blast

text \<open>
  A device with the command register, whose callback notes the bank it finds and leaves another one
  behind, and a ring that is idle: halting sends the command three times in vain.
\<close>

definition demo_sq_cmd :: umr_reg where
  "demo_sq_cmd = (demo_reg ''mmSQ_CMD'' REG_MMIO 0x10)\<lparr>reg_bits :=
     [\<lparr>bf_regname = ''CMD'', bf_start = 0, bf_stop = 2\<rparr>, \<lparr>bf_regname = ''MODE'', bf_start = 4, bf_stop = 6\<rparr>,
      \<lparr>bf_regname = ''DATA'', bf_start = 8, bf_stop = 11\<rparr>]\<rparr>"

definition demo_sq_dev :: umr_asic where
  "demo_sq_dev = demo_dev\<lparr>asic_blocks := [demo_block ''gfx90'' [demo_sq_cmd]], asic_options := zero_options\<lparr>opt_vm_partition := - 1\<rparr>\<rparr>"

definition demo_noisy :: "umr_bank_grbm list umr_funcs" where
  "demo_noisy = \<lparr>read_reg = (\<lambda>a c s. Some (0, s)),
     write_reg = (\<lambda>a v c s. Some (0, (set_bank 2 (opt_grbm zero_options) (fst s), opt_grbm (asic_options (fst s)) # snd s))),
     access_sram = (\<lambda>a bs w s. None), access_linear_vram = (\<lambda>a bs w s. None), gpu_bus_to_cpu_address = (\<lambda>a s. None)\<rparr>"

definition demo_idle_ring :: "umr_bank_grbm list ring_reader" where
  "demo_idle_ring n s = Some (Some ([5, 5, 0] @ replicate 8 0, 32), s)"

theorem wave_commands_restore_bank_witness:
  "\<exists>s'. umr_sq_cmd_halt_waves demo_noisy demo_idle_ring True 2 (set_bank 7 broadcast_bank demo_sq_dev, []) = Some (- 1, s') \<and>
     length (snd s') = 3 \<and> opt_use_bank (asic_options (fst s')) = 7 \<and> opt_grbm (asic_options (fst s')) = broadcast_bank"
proof -
  let ?r = "umr_sq_cmd_halt_waves demo_noisy demo_idle_ring True 2 (set_bank 7 broadcast_bank demo_sq_dev, [])"
  have "map_option (\<lambda>(r, s). (r, length (snd s))) ?r = Some (- 1, 3)" by code_simp
  then obtain s' where r: "?r = Some (- 1, s')" "length (snd s') = 3" by auto
  have "reader_keeps demo_idle_ring" by (auto simp: reader_keeps_def demo_idle_ring_def)
  from wave_commands_restore_bank [OF this disjI1, OF r(1)] r show ?thesis by simp
qed

end
