(* ===== verification/Packet_Ring.thy ===== *)
theory Packet_Ring
  imports Sdma_Stream Sched_Stream Vcn_Stream Ring_Control
begin

unbundle bit_operations_syntax

text \<open>
  The packet interface (\<^verbatim>\<open>src/lib/packet_stream.c\<close>): one entry for every kind of buffer, for the
  rings of the kernel and for buffers in the memory of the GPU.  An \<^verbatim>\<open>int\<close> is a HOL integer, a
  signed overflow is \<open>None\<close>; conversions between the two integer types wrap around.
\<close>

subsection \<open>Streams of any kind\<close>

datatype umr_ring_type =
    UMR_RING_PM4 | UMR_RING_PM4_LITE | UMR_RING_SDMA | UMR_RING_MES | UMR_RING_VPE | UMR_RING_UMSCH
  | UMR_RING_HSA | UMR_RING_VCN_DEC | UMR_RING_VCN_ENC | UMR_RING_GUESS | UMR_RING_UNK

datatype packets =
    Pm4_Packets "umr_pm4_stream list" | Sdma_Packets "dma_stream list" | Mes_Packets "umr_mes_stream list"
  | Vpe_Packets "dma_stream list" | Umsch_Packets "umr_umsch_stream list" | Hsa_Packets "umr_hsa_stream list"
  | Enc_Packets "umr_vcn_enc_stream list"

record umr_packet_stream =
  str_type :: umr_ring_type
  str_stream :: packets

fun null_packets :: "packets \<Rightarrow> bool" where
  "null_packets (Pm4_Packets ps) = (ps = [])"
| "null_packets (Sdma_Packets ps) = (ps = [])"
| "null_packets (Mes_Packets ps) = (ps = [])"
| "null_packets (Vpe_Packets ps) = (ps = [])"
| "null_packets (Umsch_Packets ps) = (ps = [])"
| "null_packets (Hsa_Packets ps) = (ps = [])"
| "null_packets (Enc_Packets ps) = (ps = [])"

text \<open>\<open>d\<close> bounds the nesting of indirect buffers, as in the decoders.\<close>

definition decode_packets ::
    "nat \<Rightarrow> 'w pkt_env \<Rightarrow> u32 \<Rightarrow> u64 \<Rightarrow> u32 list \<Rightarrow> u32 \<Rightarrow> umr_ring_type \<Rightarrow> ('w, packets option) dev_op" where
  "decode_packets d E from_vmid from_addr stream nwords rt s =
     (let part = opt_vm_partition (asic_options (fst s)) in
      case rt of
        UMR_RING_PM4 \<Rightarrow> do { (ps, s) \<leftarrow> umr_pm4_decode_stream d E part from_vmid stream nwords s; Some (Some (Pm4_Packets ps), s) }
      | UMR_RING_PM4_LITE \<Rightarrow> do { (ps, s) \<leftarrow> umr_pm4_lite_decode_stream stream nwords s; Some (Some (Pm4_Packets ps), s) }
      | UMR_RING_SDMA \<Rightarrow> do { (ps, s) \<leftarrow> umr_sdma_decode_stream d E part from_addr from_vmid stream nwords s; Some (Some (Sdma_Packets ps), s) }
      | UMR_RING_MES \<Rightarrow> do { (ps, s) \<leftarrow> umr_mes_decode_stream stream nwords s; Some (Some (Mes_Packets ps), s) }
      | UMR_RING_VPE \<Rightarrow> do { (ps, s) \<leftarrow> umr_vpe_decode_stream d (pe_vm E) part from_addr from_vmid stream nwords s; Some (Some (Vpe_Packets ps), s) }
      | UMR_RING_UMSCH \<Rightarrow> do { ps \<leftarrow> umr_umsch_decode_stream stream nwords; Some (Some (Umsch_Packets ps), s) }
      | UMR_RING_HSA \<Rightarrow> do { (ps, s) \<leftarrow> umr_hsa_decode_stream stream nwords s; Some (Some (Hsa_Packets ps), s) }
      | UMR_RING_VCN_ENC \<Rightarrow> do { (ps, s) \<leftarrow> umr_vcn_enc_decode_stream (pe_vm E) stream nwords s; Some (Some (Enc_Packets ps), s) }
      | UMR_RING_VCN_DEC \<Rightarrow> do { (ps, s) \<leftarrow> umr_vcn_dec_decode_stream d E from_vmid stream nwords s; Some (Some (Pm4_Packets ps), s) }
      | _ \<Rightarrow> Some (None, s))"

definition umr_packet_decode_buffer ::
    "nat \<Rightarrow> 'w pkt_env \<Rightarrow> u32 \<Rightarrow> u64 \<Rightarrow> u32 list \<Rightarrow> u32 \<Rightarrow> umr_ring_type \<Rightarrow> ('w, umr_packet_stream option) dev_op" where
  "umr_packet_decode_buffer d E from_vmid from_addr stream nwords rt s = do {
     (p, s) \<leftarrow> decode_packets d E from_vmid from_addr stream nwords rt s;
     Some (case p of
             None \<Rightarrow> None
           | Some ps \<Rightarrow> if null_packets ps then None else Some \<lparr>str_type = rt, str_stream = ps\<rparr>, s) }"

subsection \<open>Buffers in the memory of the GPU\<close>

text \<open>
  The size in bytes wraps around, and the words it leaves out stay zero.  Any result of the read but
  zero counts as a failure.
\<close>

definition umr_packet_decode_vm_buffer ::
    "nat \<Rightarrow> 'w pkt_env \<Rightarrow> u32 \<Rightarrow> u64 \<Rightarrow> u32 \<Rightarrow> umr_ring_type \<Rightarrow> ('w, umr_packet_stream option) dev_op" where
  "umr_packet_decode_vm_buffer d E vmid addr nwords rt s = do {
     ((r, bytes), s) \<leftarrow> umr_read_vram (pe_vm E) (opt_vm_partition (asic_options (fst s))) vmid addr (nwords * 4) s;
     if r \<noteq> 0 then Some (None, s)
     else do {
       let words = dwords_of_bytes bytes;
       umr_packet_decode_buffer d E vmid addr (words @ replicate (unat nwords - length words) 0) nwords rt s } }"

definition umr_packet_find_shader :: "umr_packet_stream \<Rightarrow> u32 \<Rightarrow> u64 \<Rightarrow> umr_shaders_pgm option" where
  "umr_packet_find_shader str vmid addr =
     (if str_type str = UMR_RING_PM4 \<or> str_type str = UMR_RING_PM4_LITE then
        (case str_stream str of Pm4_Packets ps \<Rightarrow> umr_find_shader_in_stream ps vmid addr | _ \<Rightarrow> None)
      else None)"

subsection \<open>Rings\<close>

text \<open>
  The comparison of the first bytes of a name.  On a shorter name the terminator already differs, so
  the bytes behind it do not matter.
\<close>

definition has_prefix :: "string \<Rightarrow> string \<Rightarrow> bool" where
  "has_prefix name p \<longleftrightarrow> take (length p) name = p"

definition guess_ring_type :: "string \<Rightarrow> umr_ring_type option" where
  "guess_ring_type name =
     (if has_prefix name ''gfx'' \<or> has_prefix name ''uvd'' \<or> has_prefix name ''mes_kiq'' \<or> has_prefix name ''kiq'' \<or>
         has_prefix name ''comp'' then Some UMR_RING_PM4
      else if has_prefix name ''vcn_enc'' \<or> has_prefix name ''vcn_unified_'' then Some UMR_RING_VCN_ENC
      else if has_prefix name ''vcn_dec'' then Some UMR_RING_VCN_DEC
      else if has_prefix name ''sdma'' \<or> has_prefix name ''page'' then Some UMR_RING_SDMA
      else if has_prefix name ''mes'' then Some UMR_RING_MES
      else if has_prefix name ''vpe'' then Some UMR_RING_VPE
      else if has_prefix name ''umsch'' then Some UMR_RING_UMSCH
      else None)"

definition cint :: "int \<Rightarrow> int option" where
  "cint x = (if - (2 ^ 31) \<le> x \<and> x < 2 ^ 31 then Some x else None)"

definition to_int :: "u32 \<Rightarrow> int" where "to_int w = sint w"
definition to_u32 :: "int \<Rightarrow> u32" where "to_u32 x = of_int x"

text \<open>The clamp of the end, against the size in bytes.\<close>

definition clamp_stop :: "u32 \<Rightarrow> int \<Rightarrow> int option" where
  "clamp_stop ringsize stop =
     (if stop = - 1 then Some stop
      else do {
        b \<leftarrow> cint (stop * 4);
        Some (if to_u32 b \<ge> ringsize then to_int (ringsize div 4) else stop) })"

text \<open>
  The window of the ring to read, from the two pointers and the size in words.  The last two branches
  of the source are the same as earlier ones and never taken.
\<close>

definition ring_window :: "u32 \<Rightarrow> u32 \<Rightarrow> u32 \<Rightarrow> int \<Rightarrow> int \<Rightarrow> (int \<times> int) option" where
  "ring_window n rptr wptr start stop = do {
     (start, stop) \<leftarrow>
       (if start = - 1 \<and> stop \<noteq> - 1 then do { e \<leftarrow> cint (to_int rptr + stop); Some (to_int rptr, e) }
        else if start \<noteq> - 1 \<and> stop = - 1 then do { b \<leftarrow> cint (to_int wptr - start); Some (b, to_int wptr) }
        else if start = - 1 \<and> stop = - 1 then Some (to_int rptr, to_int wptr)
        else Some (start, stop));
     let start = (if start < 0 then to_int (n + to_u32 start) else start);
     let stop = (if to_u32 stop > n then to_int (to_u32 stop - n) else stop);
     Some (start, stop) }"

text \<open>The copy out of the ring, of which the first three words are the pointers; \<open>k\<close> is the room left.\<close>

fun linearize :: "u32 list \<Rightarrow> u32 \<Rightarrow> nat \<Rightarrow> int \<Rightarrow> int \<Rightarrow> u32 list option" where
  "linearize ring n 0 start stop = Some []"
| "linearize ring n (Suc k) start stop =
     (if start = stop then Some []
      else do {
        i \<leftarrow> cint (3 + start);
        w \<leftarrow> (if i < 0 then None else word_at ring (nat i));
        ws \<leftarrow> linearize ring n k (to_int (to_u32 (start + 1) mod n)) stop;
        Some (w # ws) })"

text \<open>
  What is returned is the stream and the window.  A ring that cannot be read leaves the window
  unspecified when an end is given, because it is clamped against a size that was never set.
\<close>

definition decode_ring_data ::
    "nat \<Rightarrow> 'w pkt_env \<Rightarrow> (u32 list \<times> u32) option \<Rightarrow> int \<Rightarrow> int \<Rightarrow> umr_ring_type \<Rightarrow>
     ('w, umr_packet_stream option \<times> (int \<times> int) option) dev_op" where
  "decode_ring_data d E ring start stop rt s =
     (case ring of
        None \<Rightarrow> Some ((None, if stop = - 1 then Some (start, stop) else None), s)
      | Some (ringdata, ringsize) \<Rightarrow> do {
          stop \<leftarrow> clamp_stop ringsize stop;
          (rptr, wptr) \<leftarrow> ring_pointers ringdata ringsize;
          let n = ringsize div 4;
          let only_active = (start = - 1 \<and> stop = - 1);
          (start, stop) \<leftarrow> ring_window n rptr wptr start stop;
          if \<not> only_active \<or> start \<noteq> stop then do {
            ws \<leftarrow> linearize ([rptr, wptr] @ drop 2 ringdata) n (unat n) start stop;
            (ps, s) \<leftarrow> umr_packet_decode_buffer d E 0 0 (ws @ replicate (unat n - length ws) 0) (of_nat (length ws)) rt s;
            Some ((ps, Some (start, stop)), s) }
          else Some ((None, Some (start, stop)), s) })"

definition set_ring_name :: "string \<Rightarrow> umr_asic \<Rightarrow> umr_asic option" where
  "set_ring_name name asic =
     (if length name < 32 then Some (asic\<lparr>asic_options := (asic_options asic)\<lparr>opt_ring_name := name\<rparr>\<rparr>) else None)"

definition umr_packet_decode_ring ::
    "nat \<Rightarrow> 'w pkt_env \<Rightarrow> 'w umr_funcs \<Rightarrow> 'w ring_reader \<Rightarrow> string \<Rightarrow> bool \<Rightarrow> int \<Rightarrow> int \<Rightarrow> umr_ring_type \<Rightarrow>
     ('w, umr_packet_stream option \<times> (int \<times> int) option) dev_op" where
  "umr_packet_decode_ring d E F rd ringname halt_waves start stop rt s =
     (case (if rt = UMR_RING_GUESS then guess_ring_type ringname else Some rt) of
        None \<Rightarrow> Some ((None, Some (start, stop)), s)
      | Some rt \<Rightarrow> do {
          s \<leftarrow> (if halt_waves \<and> opt_halt_waves (asic_options (fst s)) then do {
                  asic \<leftarrow> set_ring_name ringname (fst s);
                  (_, s) \<leftarrow> umr_sq_cmd_halt_waves F rd True 100 (asic, snd s);
                  Some s }
                else Some s);
          (ring, s) \<leftarrow> rd ringname s;
          (r, s) \<leftarrow> decode_ring_data d E ring start stop rt s;
          s \<leftarrow> (if halt_waves \<and> opt_halt_waves (asic_options (fst s)) then do {
                  (_, s) \<leftarrow> umr_sq_cmd_halt_waves F rd False 0 s;
                  Some s }
                else Some s);
          Some (r, s) })"

subsection \<open>What is copied out of a ring\<close>

lemma to_int_small: "unat w < 2 ^ 31 \<Longrightarrow> to_int w = int (unat w)"
proof -
  assume "unat w < 2 ^ 31"
  then have "int (unat w) < int (2 ^ 31)" by (simp only: of_nat_less_iff)
  then have "uint w < 2 ^ 31" unfolding uint_nat by simp
  then have "sint w = uint w" unfolding sint_uint by (intro signed_take_bit_int_eq_self) (simp_all add: order_trans [OF _ unsigned_greater_eq])
  then show ?thesis by (simp add: to_int_def)
qed

lemma to_u32_nat: "to_u32 (int k) = of_nat k"
  by (simp add: to_u32_def)

text \<open>\<open>m\<close> words of the ring from position \<open>r\<close> on, around its end.\<close>

definition ring_words :: "u32 list \<Rightarrow> nat \<Rightarrow> nat \<Rightarrow> nat \<Rightarrow> u32 list" where
  "ring_words ring n r m = map (\<lambda>i. ring ! (3 + (r + i) mod n)) [0..<m]"

lemma length_ring_words [simp]: "length (ring_words ring n r m) = m"
  by (simp add: ring_words_def)

lemma ring_words_Suc:
  "ring_words ring n r (Suc m) = ring ! (3 + r mod n) # ring_words ring n (Suc r mod n) m"
proof -
  have "[0..<Suc m] = 0 # map Suc [0..<m]" by (simp add: upt_conv_Cons map_Suc_upt)
  moreover have "(r + Suc i) mod n = (Suc r mod n + i) mod n" for i by (simp add: mod_add_left_eq)
  ultimately show ?thesis by (simp add: ring_words_def del: upt_Suc add_Suc_right)
qed

lemma next_position:
  assumes "r < unat n" and "unat n < 2 ^ 31"
  shows "to_int (to_u32 (int r + 1) mod n) = int (Suc r mod unat n)"
proof -
  have u: "unat (of_nat (Suc r) :: u32) = Suc r" using assms by (intro unat_of_length) simp
  then have "unat (of_nat (Suc r) mod n :: u32) = Suc r mod unat n" by (simp add: unat_mod)
  moreover have "Suc r mod unat n < 2 ^ 31" using assms by (metis bot_nat_0.not_eq_extremum less_nat_zero_code mod_less_divisor order.strict_trans)
  moreover have "int r + 1 = int (Suc r)" by simp
  ultimately show ?thesis by (metis to_int_small to_u32_nat)
qed

lemma linearize_run:
  assumes "unat n < 2 ^ 31 - 3" and "3 + unat n \<le> length ring"
  shows "r < unat n \<Longrightarrow> m \<le> k \<Longrightarrow> \<forall>i<m. int ((r + i) mod unat n) \<noteq> stop \<Longrightarrow> m = k \<or> int ((r + m) mod unat n) = stop \<Longrightarrow>
    linearize ring n k (int r) stop = Some (ring_words ring (unat n) r m)"
proof (induction m arbitrary: r k)
  case 0
  then show ?case by (cases k) (auto simp: ring_words_def)
next
  case (Suc m)
  then obtain k' where k: "k = Suc k'" by (cases k) auto
  have ne: "int r \<noteq> stop" using Suc.prems(1,3) by (metis add_0_right mod_less zero_less_Suc)
  let ?r = "Suc r mod unat n"
  have shift: "(?r + i) mod unat n = (r + Suc i) mod unat n" for i by (simp add: mod_add_left_eq)
  have "linearize ring n k' (int ?r) stop = Some (ring_words ring (unat n) ?r m)"
  proof (rule Suc.IH)
    show "?r < unat n" using Suc.prems(1) by simp
    show "\<forall>i<m. int ((?r + i) mod unat n) \<noteq> stop" unfolding shift using Suc.prems(3) Suc_mono by blast
    show "m = k' \<or> int ((?r + m) mod unat n) = stop" unfolding shift using Suc.prems(4) k by simp
  qed (use Suc.prems k in simp)
  moreover have "to_int (to_u32 (int r + 1) mod n) = int ?r" using next_position [OF Suc.prems(1)] assms(1) by simp
  ultimately show ?case using ne assms Suc.prems(1)
    by (simp add: k ring_words_Suc cint_def word_at_def nat_add_distrib)
qed


subsection \<open>The windows\<close>

text \<open>A ring whose contents are as long as its size says.\<close>

definition ring_intact :: "u32 list \<Rightarrow> u32 \<Rightarrow> bool" where
  "ring_intact ring bytes \<longleftrightarrow> bytes div 4 \<noteq> 0 \<and> 3 + unat (bytes div 4) \<le> length ring"

abbreviation (input) ring_size :: "u32 \<Rightarrow> nat" where "ring_size bytes \<equiv> unat (bytes div 4)"
abbreviation (input) rptr_of :: "u32 list \<Rightarrow> u32 \<Rightarrow> nat" where "rptr_of ring bytes \<equiv> unat (ring ! 0) mod unat (bytes div 4)"
abbreviation (input) wptr_of :: "u32 list \<Rightarrow> u32 \<Rightarrow> nat" where "wptr_of ring bytes \<equiv> unat (ring ! 1) mod unat (bytes div 4)"

lemma ring_size_bound: "unat (bytes div 4) < 2 ^ 30" for bytes :: u32
  using unsigned_less [where 'a = nat, of bytes] by (simp add: unat_div)

lemma intact_pointers:
  assumes "ring_intact ring bytes"
  shows "ring_pointers ring bytes = Some (ring ! 0 mod (bytes div 4), ring ! 1 mod (bytes div 4))"
    and "to_int (ring ! 0 mod (bytes div 4)) = int (rptr_of ring bytes)" and "to_int (ring ! 1 mod (bytes div 4)) = int (wptr_of ring bytes)"
    and "rptr_of ring bytes < ring_size bytes" and "wptr_of ring bytes < ring_size bytes"
proof -
  let ?n = "bytes div 4"
  have n: "0 < unat ?n" using assms by (simp add: ring_intact_def unat_gt_0)
  show "ring_pointers ring bytes = Some (ring ! 0 mod ?n, ring ! 1 mod ?n)"
    using assms by (auto simp: ring_pointers_def ring_intact_def word_at_def Let_def)
  show lt: "rptr_of ring bytes < ring_size bytes" "wptr_of ring bytes < ring_size bytes" using n by simp_all
  have m: "unat (x mod ?n) = unat x mod unat ?n" for x by (rule unat_mod)
  have s: "unat (x mod ?n) < 2 ^ 31" for x unfolding m using n ring_size_bound [of bytes] mod_less_divisor [OF n, of "unat x"] by simp
  show "to_int (ring ! 0 mod ?n) = int (rptr_of ring bytes)" "to_int (ring ! 1 mod ?n) = int (wptr_of ring bytes)"
    by (simp_all only: to_int_small [OF s] m)
qed

text \<open>The words behind the pointers do not depend on how these are reduced.\<close>

lemma ring_words_head:
  assumes "2 \<le> length ring"
  shows "ring_words (a # b # drop 2 ring) n r m = ring_words ring n r m"
proof -
  obtain x y rest where "ring = x # y # rest" using assms by (cases ring; cases "tl ring") auto
  then show ?thesis by (simp add: ring_words_def numeral_3_eq_3)
qed

lemma ring_run:
  assumes "ring_intact ring bytes" and "r < ring_size bytes" and "m \<le> ring_size bytes"
    and "\<forall>i<m. int ((r + i) mod ring_size bytes) \<noteq> stop" and "m = ring_size bytes \<or> int ((r + m) mod ring_size bytes) = stop"
  shows "linearize ([a, b] @ drop 2 ring) (bytes div 4) (ring_size bytes) (int r) stop = Some (ring_words ring (ring_size bytes) r m)"
proof -
  have "unat (bytes div 4) < 2 ^ 31 - 3" using ring_size_bound [of bytes] by simp
  moreover have "3 + unat (bytes div 4) \<le> length ([a, b] @ drop 2 ring)" using assms(1) by (auto simp: ring_intact_def)
  moreover have "2 \<le> length ring" using assms(1) by (simp add: ring_intact_def)
  ultimately show ?thesis using linearize_run [of "bytes div 4" "[a, b] @ drop 2 ring" r m "ring_size bytes" stop] assms(2-5)
    by (simp add: ring_words_head)
qed

lemma cyclic_distinct:
  assumes "r < n" and "m < n" and "i < (m :: nat)"
  shows "(r + i) mod n \<noteq> (r + m) mod n"
proof
  assume "(r + i) mod n = (r + m) mod n"
  then have "n dvd (r + m) - (r + i)" using assms mod_eq_dvd_iff_nat [of "r + i" "r + m" n] by simp
  then show False using assms by (auto dest: dvd_imp_le)
qed

definition decode_run ::
    "nat \<Rightarrow> 'w pkt_env \<Rightarrow> u32 list \<Rightarrow> nat \<Rightarrow> nat \<Rightarrow> nat \<Rightarrow> int \<times> int \<Rightarrow> umr_ring_type \<Rightarrow>
     ('w, umr_packet_stream option \<times> (int \<times> int) option) dev_op" where
  "decode_run d E ring n r m win rt s =
     map_option (\<lambda>(ps, s). ((ps, Some win), s))
       (umr_packet_decode_buffer d E 0 0 (ring_words ring n r m @ replicate (n - m) 0) (of_nat m) rt s)"

lemma decode_ring_run:
  assumes "ring_intact ring bytes" and "clamp_stop bytes stop = Some stop'"
    and "ring_window (bytes div 4) (ring ! 0 mod (bytes div 4)) (ring ! 1 mod (bytes div 4)) start stop' = Some (int r, e)"
    and "\<not> (start = - 1 \<and> stop' = - 1) \<or> int r \<noteq> e"
    and "r < ring_size bytes" and "m \<le> ring_size bytes"
    and "\<forall>i<m. int ((r + i) mod ring_size bytes) \<noteq> e" and "m = ring_size bytes \<or> int ((r + m) mod ring_size bytes) = e"
  shows "decode_ring_data d E (Some (ring, bytes)) start stop rt s = decode_run d E ring (ring_size bytes) r m (int r, e) rt s"
  using assms ring_run [OF assms(1,5-8)] intact_pointers(1) [OF assms(1)]
  by (simp add: decode_ring_data_def decode_run_def Let_def) (cases "umr_packet_decode_buffer d E 0 0
      (ring_words ring (ring_size bytes) r m @ replicate (ring_size bytes - m) 0) (word_of_nat m) rt s"; auto)

lemma decode_ring_unhalted:
  assumes "rt \<noteq> UMR_RING_GUESS" and "rd name s = Some (ring, s1)"
  shows "umr_packet_decode_ring d E F rd name False start stop rt s = decode_ring_data d E ring start stop rt s1"
  using assms by (cases "decode_ring_data d E ring start stop rt s1") (auto simp: umr_packet_decode_ring_def)

text \<open>C9: Without a window the words of the ring from the read to the write pointer are decoded, in order and around the
  end of the ring, and an idle ring gives no stream.\<close>

theorem ring_decodes_active:
  assumes "rd name s = Some (Some (ring, bytes), s1)" and "ring_intact ring bytes" and "rt \<noteq> UMR_RING_GUESS"
    and "n = unat (bytes div 4)" and "r = unat (ring ! 0) mod n" and "w = unat (ring ! 1) mod n"
  shows "umr_packet_decode_ring d E F rd name False (- 1) (- 1) rt s =
    (if r = w then Some ((None, Some (int r, int w)), s1)
     else decode_run d E ring n r ((w + n - r) mod n) (int r, int w) rt s1)"
proof -
  note p = intact_pointers [OF assms(2), folded assms(4), folded assms(5,6)]
  have win: "ring_window (bytes div 4) (ring ! 0 mod (bytes div 4)) (ring ! 1 mod (bytes div 4)) (- 1) (- 1) = Some (int r, int w)"
    using p ring_size_bound [of bytes] unat_of_length [of w]
    by (simp add: ring_window_def to_u32_nat Let_def word_less_nat_alt flip: assms(4))
  have c: "clamp_stop bytes (- 1) = Some (- 1)" by (simp add: clamp_stop_def)
  show ?thesis
  proof (cases "r = w")
    case True
    then show ?thesis unfolding decode_ring_unhalted [where rd = rd, OF assms(3,1)] using win c p(1)
      by (simp add: decode_ring_data_def Let_def)
  next
    case False
    let ?m = "(w + n - r) mod n"
    have m: "(r + ?m) mod n = w" "?m < n" using p(4,5) by (auto simp: mod_add_right_eq)
    have "\<forall>i<?m. int ((r + i) mod n) \<noteq> int w" using cyclic_distinct [OF p(4) m(2)] m(1) by auto
    then show ?thesis unfolding decode_ring_unhalted [where rd = rd, OF assms(3,1)] using False m p(4)
      decode_ring_run [OF assms(2) c win, folded assms(4), of ?m d E rt s1] by simp
  qed
qed

lemma to_int_of_int:
  assumes "- (2 ^ 31) \<le> x" and "x < 2 ^ 31"
  shows "to_int (of_int x) = x"
  unfolding to_int_def using assms by (simp add: sint_sbintrunc' signed_take_bit_int_eq_self)

lemma clamp_count:
  assumes "k < 2 ^ 29" and "bytes div 4 \<noteq> 0"
  shows "clamp_stop bytes (int k) = Some (int (min k (unat (bytes div 4))))"
proof -
  have c: "cint (int k * 4) = Some (int k * 4)" using assms by (simp add: cint_def)
  have "to_u32 (int k * 4) = of_nat (k * 4)" by (simp add: to_u32_def)
  moreover have "unat (of_nat (k * 4) :: u32) = k * 4" using assms(1) by (intro unat_of_length) simp
  ultimately have g: "to_u32 (int k * 4) \<ge> bytes \<longleftrightarrow> unat bytes \<le> k * 4" by (simp only: word_le_nat_alt)
  have "to_int (bytes div 4) = int (unat (bytes div 4))" using ring_size_bound [of bytes] by (intro to_int_small) simp
  moreover have "unat (bytes div 4) = unat bytes div 4" by (simp add: unat_div)
  ultimately show ?thesis using c g by (auto simp: clamp_stop_def min_def)
qed

lemma window_from_rptr:
  assumes "unat n < 2 ^ 30" and "to_int rp = int r" and "r < unat n" and "k \<le> unat n"
  shows "ring_window n rp wp (- 1) (int k) = Some (int r, int (if unat n < r + k then r + k - unat n else r + k))"
proof -
  have c: "cint (int r + int k) = Some (int (r + k))" using assms by (simp add: cint_def)
  have u: "unat (of_nat (r + k) :: u32) = r + k" using assms by (intro unat_of_length) simp
  have g: "to_u32 (int (r + k)) > n \<longleftrightarrow> unat n < r + k" unfolding to_u32_nat word_less_nat_alt u ..
  have "to_int (to_u32 (int (r + k)) - n) = int (r + k - unat n)" if "unat n < r + k"
  proof -
    have "unat (to_u32 (int (r + k)) - n) = r + k - unat n" unfolding to_u32_nat
      using that u by (subst unat_sub) (simp_all add: word_le_nat_alt)
    then show ?thesis using assms by (subst to_int_small) simp_all
  qed
  then show ?thesis using c g assms(2) by (simp add: ring_window_def Let_def)
qed

text \<open>C10: Asking for \<open>k\<close> words from the read pointer on decodes those \<open>k\<close> words, with two exceptions: where they end
  with the last word of the ring, the whole ring is decoded instead, and a request for the whole ring (or more) that
  does not start at its first word decodes nothing at all.\<close>

theorem ring_words_from_rptr:
  assumes "rd name s = Some (Some (ring, bytes), s1)" and "ring_intact ring bytes" and "rt \<noteq> UMR_RING_GUESS" and "k < 2 ^ 29"
    and "n = unat (bytes div 4)" and "r = unat (ring ! 0) mod n" and "c = min k n"
  shows "umr_packet_decode_ring d E F rd name False (- 1) (int k) rt s =
    decode_run d E ring n r (if r + c = n then n else if c = n then 0 else c) (int r, int (if n < r + c then r + c - n else r + c)) rt s1"
proof -
  note p = intact_pointers [OF assms(2), folded assms(5), folded assms(6)]
  let ?m = "if r + c = n then n else if c = n then 0 else c" and ?e = "if n < r + c then r + c - n else r + c"
  have nz: "bytes div 4 \<noteq> 0" using assms(2) by (simp add: ring_intact_def)
  have cl: "clamp_stop bytes (int k) = Some (int c)" using clamp_count [OF assms(4) nz] assms(5,7) by simp
  have le: "c \<le> n" using assms(7) by simp
  have win: "ring_window (bytes div 4) (ring ! 0 mod (bytes div 4)) (ring ! 1 mod (bytes div 4)) (- 1) (int c) = Some (int r, int ?e)"
    using window_from_rptr [of "bytes div 4" "ring ! 0 mod (bytes div 4)" r c] p ring_size_bound [of bytes] le assms(5) by simp
  have "(r + c) mod n = ?e" if "r + c \<noteq> n" using that p(4) le by (auto simp: mod_if)
  then have m: "\<forall>i<?m. (r + i) mod n \<noteq> ?e" "?m = n \<or> (r + ?m) mod n = ?e" "?m \<le> n"
    using p(4) le cyclic_distinct [OF p(4), of c] mod_less_divisor [of n] by (auto simp: mod_if)
  then show ?thesis unfolding decode_ring_unhalted [where rd = rd, OF assms(3,1)] using p(4)
    decode_ring_run [OF assms(2) cl win, folded assms(5), of ?m d E rt s1] by (auto simp del: of_nat_add)
qed

lemma window_before_wptr:
  assumes "unat n < 2 ^ 30" and "to_int wp = int w" and "w < unat n" and "k < 2 ^ 31"
  shows "ring_window n rp wp (int k) (- 1) = Some (if k \<le> w then int w - int k else int (unat n) + int w - int k, int w)"
proof -
  have c: "cint (int w - int k) = Some (int w - int k)" using assms by (simp add: cint_def)
  have "n + to_u32 (int w - int k) = of_int (int (unat n) + int w - int k)"
    by (simp add: to_u32_def)
  moreover obtain N where N: "N = unat n" by blast
  have "to_int (of_int (int N + int w - int k)) = int N + int w - int k"
    using assms(1,3,4) by (intro to_int_of_int) (simp_all flip: N)
  ultimately have b: "to_int (n + to_u32 (int w - int k)) = int (unat n) + int w - int k"
    unfolding N by (simp only:)
  have "unat (of_nat w :: u32) = w" using assms by (intro unat_of_length) simp
  then have "\<not> to_u32 (int w) > n" using assms(3) by (simp add: to_u32_nat word_less_nat_alt)
  then show ?thesis using b c assms(2) by (auto simp: ring_window_def Let_def)
qed

text \<open>Asking for \<open>k\<close> words before the write pointer decodes the last \<open>k\<close> words written, except that a request
  for exactly the whole ring decodes nothing.\<close>

theorem ring_words_before_wptr:
  assumes "rd name s = Some (Some (ring, bytes), s1)" and "ring_intact ring bytes" and "rt \<noteq> UMR_RING_GUESS"
    and "n = unat (bytes div 4)" and "w = unat (ring ! 1) mod n" and "k \<le> n" and "r = (w + n - k) mod n"
  shows "umr_packet_decode_ring d E F rd name False (int k) (- 1) rt s =
    decode_run d E ring n r (if k = n then 0 else k) (int r, int w) rt s1"
proof -
  note p = intact_pointers [OF assms(2), folded assms(4), folded assms(5)]
  let ?m = "if k = n then 0 else k"
  have r: "int r = (if k \<le> w then int w - int k else int n + int w - int k)" and rn: "r < n"
    using p(5) assms(6) by (auto simp: assms(7) mod_if)
  have win: "ring_window (bytes div 4) (ring ! 0 mod (bytes div 4)) (ring ! 1 mod (bytes div 4)) (int k) (- 1) = Some (int r, int w)"
    using window_before_wptr [of "bytes div 4" "ring ! 1 mod (bytes div 4)" w k] p ring_size_bound [of bytes] assms(4,6) r by simp
  have c: "clamp_stop bytes (- 1) = Some (- 1)" by (simp add: clamp_stop_def)
  have m: "(r + ?m) mod n = w" "?m < n" using p(5) assms(6) by (auto simp: assms(7) mod_add_left_eq mod_if)
  have "\<forall>i<?m. int ((r + i) mod n) \<noteq> int w" using cyclic_distinct [OF rn m(2)] m(1) by auto
  then show ?thesis unfolding decode_ring_unhalted [where rd = rd, OF assms(3,1)] using m rn
    decode_ring_run [OF assms(2) c win, folded assms(4), of ?m d E rt s1] by simp
qed

text \<open>The number of words before the write pointer is not checked: one that is larger than the ring by more than
  the write pointer and the three words of the header reads before the start of the array.\<close>

theorem ring_start_underflow:
  assumes "rd name s = Some (Some (ring, bytes), s1)" and "ring_intact ring bytes" and "rt \<noteq> UMR_RING_GUESS"
    and "n = unat (bytes div 4)" and "w = unat (ring ! 1) mod n" and "n + w + 3 < k" and "k < 2 ^ 31"
  shows "umr_packet_decode_ring d E F rd name False (int k) (- 1) rt s = None"
proof -
  note p = intact_pointers [OF assms(2), folded assms(4), folded assms(5)]
  let ?a = "int n + int w - int k"
  have win: "ring_window (bytes div 4) (ring ! 0 mod (bytes div 4)) (ring ! 1 mod (bytes div 4)) (int k) (- 1) = Some (?a, int w)"
    using window_before_wptr [of "bytes div 4" "ring ! 1 mod (bytes div 4)" w k] p ring_size_bound [of bytes] assms(4,6,7) by simp
  obtain j where n: "unat (bytes div 4) = Suc j" using p(5) assms(4) by (cases "unat (bytes div 4)") auto
  have "linearize ring' (bytes div 4) (unat (bytes div 4)) ?a (int w) = None" for ring'
    using assms(4,6,7) by (simp add: n cint_def)
  then show ?thesis unfolding decode_ring_unhalted [where rd = rd, OF assms(3,1)] using win p(1) assms(6)
    by (simp add: decode_ring_data_def clamp_stop_def Let_def del: append_Cons append_Nil)
qed

subsection \<open>Every kind of stream covers its buffer\<close>

text \<open>The packets of a stream as half words, the unit that all kinds share.\<close>

fun packets_halves :: "packets \<Rightarrow> u16 list" where
  "packets_halves (Pm4_Packets ps) = halves (concat (map pm4_wire ps))"
| "packets_halves (Sdma_Packets ps) = halves (concat (map dma_wire ps))"
| "packets_halves (Mes_Packets ps) = halves (concat (map mes_wire ps))"
| "packets_halves (Vpe_Packets ps) = halves (concat (map dma_wire ps))"
| "packets_halves (Umsch_Packets ps) = halves (concat (map umsch_wire ps))"
| "packets_halves (Hsa_Packets ps) = concat (map hsa_wire ps)"
| "packets_halves (Enc_Packets ps) = halves (concat (map enc_wire ps))"

lemma halves_append [simp]: "halves (xs @ ys) = halves xs @ halves ys"
  by (simp add: halves_def)

lemma pm4_decode_partitions:
  assumes "umr_pm4_decode_stream d E part vmid stream nwords s = Some (ps, s')" and "nwords \<noteq> 0"
  shows "\<exists>rest. take (unat nwords) stream = concat (map pm4_wire ps) @ rest"
proof (cases "ps = []")
  case False
  then obtain d' qs c where "decode_loop (pm4_body (umr_pm4_decode_stream d' E part) E part vmid) zero_uvd stream nwords s =
      Some ((Some qs, c), s')" "ps = qs"
    using assms by (cases d) (auto simp: stream_of_def split: bind_splits option.splits)
  then show ?thesis using pm4.loop_partitions by blast
qed simp

lemma lite_decode_partitions:
  assumes "umr_pm4_lite_decode_stream stream nwords s = Some (ps, s')" and "nwords \<noteq> 0"
  shows "\<exists>rest. take (unat nwords) stream = concat (map pm4_wire ps) @ rest"
proof (cases "ps = []")
  case False
  then obtain qs c where "decode_loop pm4_lite_body () stream nwords s = Some ((Some qs, c), s')" "ps = qs"
    using assms by (auto simp: umr_pm4_lite_decode_stream_def stream_of_def split: bind_splits option.splits)
  then show ?thesis using lite.loop_partitions by blast
qed simp

lemma mes_decode_partitions:
  assumes "umr_mes_decode_stream stream nwords s = Some (ps, s')" and "nwords \<noteq> 0"
  shows "\<exists>rest. take (unat nwords) stream = concat (map mes_wire ps) @ rest"
proof (cases "ps = []")
  case False
  then obtain qs c where "decode_loop mes_body () stream nwords s = Some ((Some qs, c), s')" "ps = qs"
    using assms by (auto simp: umr_mes_decode_stream_def stream_of_def split: bind_splits option.splits if_splits)
  then show ?thesis using mes.loop_partitions by blast
qed simp

lemma hsa_decode_partitions:
  assumes "umr_hsa_decode_stream stream nwords s = Some (ps, s')" and "nwords \<noteq> 0" and "unat nwords < 2 ^ 31"
  shows "\<exists>rest. halves (take (unat nwords) stream) = concat (map hsa_wire ps) @ rest"
proof (cases "ps = []")
  case False
  have n: "unat (nwords * 2) = 2 * unat nwords" using assms(3) by (simp add: unat_word_ariths)
  then have nz: "nwords * 2 \<noteq> 0" using assms(2) by (metis mult_eq_0_iff unat_0 unat_eq_zero zero_neq_numeral)
  obtain qs c where "decode_loop hsa_body () (halves stream) (nwords * 2) s = Some ((Some qs, c), s')" "ps = qs"
    using assms(1) False nz by (auto simp: umr_hsa_decode_stream_def stream_of_def split: bind_splits option.splits)
  then obtain rest where "take (2 * unat nwords) (halves stream) = concat (map hsa_wire ps) @ rest"
    using hsa.loop_partitions n by metis
  moreover have "take (2 * k) (halves ws) = halves (take k ws)" for k ws
    by (induction ws arbitrary: k) (simp_all add: halves_def take_Cons split: nat.split)
  ultimately show ?thesis by metis
qed simp

lemma umsch_decode_partitions:
  assumes "umr_umsch_decode_stream stream nwords = Some ps" and "nwords \<noteq> 0" and "length stream = unat nwords"
  shows "\<exists>rest. take (unat nwords) stream = concat (map umsch_wire ps) @ rest"
  using assms umsch_loop_sound [of stream nwords ps] by (auto simp: umr_umsch_decode_stream_def)


text \<open>C8: Whatever the kind of stream, a buffer that the packet interface decodes begins with the packets of the
  result, one after the other and word for word, and the result has at least one packet and the kind asked for.\<close>

theorem packet_buffer_partition:
  assumes "umr_packet_decode_buffer d E from_vmid from_addr stream nwords rt s = Some (Some str, s')"
    and "length stream = unat nwords" and "0 < unat nwords" and "unat nwords < 2 ^ 31"
  shows "\<exists>rest. halves stream = packets_halves (str_stream str) @ rest \<and> \<not> null_packets (str_stream str) \<and> str_type str = rt"
proof -
  have nz: "nwords \<noteq> 0" and t: "take (unat nwords) stream = stream" using assms(2,3) by auto
  have d: "decode_packets d E from_vmid from_addr stream nwords rt s = Some (Some (str_stream str), s')"
    and n: "\<not> null_packets (str_stream str)" "str_type str = rt"
    using assms(1) by (auto simp: umr_packet_decode_buffer_def split: bind_splits option.splits if_splits)
  obtain ps where ps: "ps = str_stream str" by blast
  have "\<exists>rest. halves stream = packets_halves ps @ rest"
    using d [folded ps] nz assms(2,4)
    by (cases rt) (auto simp: decode_packets_def Let_def t split: bind_splits
        dest!: pm4_decode_partitions lite_decode_partitions sdma_decode_partitions mes_decode_partitions vpe_decode_partitions
          umsch_decode_partitions hsa_decode_partitions enc_decode_partitions [rotated] vcn_dec_decode_partitions [rotated])
  then show ?thesis using n ps by blast
qed

text \<open>A ring of four words with a packet of two words around its end.\<close>

definition demo_ring :: "u32 list" where
  "demo_ring = [3, 5, 0, 7, 0, 0, 0xC0001000]"

definition demo_ring_reader :: "umr_test_harness ring_reader" where
  "demo_ring_reader name s = Some (Some (demo_ring, 16), s)"

lemma demo_ring_intact: "ring_intact demo_ring 16" and demo_ring_read: "demo_ring_reader name s = Some (Some (demo_ring, 16), s)"
  by (simp_all add: ring_intact_def demo_ring_def demo_ring_reader_def)

theorem ring_decodes_active_witness:
  "umr_packet_decode_ring 1 demo_pkt_env harness_funcs demo_ring_reader ''gfx'' False (- 1) (- 1) UMR_RING_PM4_LITE (demo_dev, demo_harness) =
     decode_run 1 demo_pkt_env demo_ring 4 3 2 (3, 1) UMR_RING_PM4_LITE (demo_dev, demo_harness) \<and>
   ring_words demo_ring 4 3 2 = [0xC0001000, 7]"
proof -
  have "ring_words demo_ring 4 3 2 = [0xC0001000, 7]" by code_simp
  then show ?thesis
    using ring_decodes_active [where rd = demo_ring_reader and name = "''gfx''" and s = "(demo_dev, demo_harness)" and rt = UMR_RING_PM4_LITE and n = 4 and d = 1
      and E = demo_pkt_env and F = harness_funcs and r = 3 and w = 1, OF demo_ring_read demo_ring_intact]
    by (simp add: demo_ring_def)
qed

theorem ring_words_from_rptr_witness:
  "umr_packet_decode_ring 1 demo_pkt_env harness_funcs demo_ring_reader ''gfx'' False (- 1) 1 UMR_RING_PM4_LITE (demo_dev, demo_harness) =
     decode_run 1 demo_pkt_env demo_ring 4 3 4 (3, 4) UMR_RING_PM4_LITE (demo_dev, demo_harness)"
  using ring_words_from_rptr [where rd = demo_ring_reader and name = "''gfx''" and s = "(demo_dev, demo_harness)" and rt = UMR_RING_PM4_LITE and n = 4 and d = 1
      and E = demo_pkt_env and F = harness_funcs and r = 3 and c = 1 and k = 1, OF demo_ring_read demo_ring_intact]
  by (simp add: demo_ring_def)

theorem ring_words_before_wptr_witness:
  "umr_packet_decode_ring 1 demo_pkt_env harness_funcs demo_ring_reader ''gfx'' False 2 (- 1) UMR_RING_PM4_LITE (demo_dev, demo_harness) =
     decode_run 1 demo_pkt_env demo_ring 4 3 2 (3, 1) UMR_RING_PM4_LITE (demo_dev, demo_harness)"
  using ring_words_before_wptr [where rd = demo_ring_reader and name = "''gfx''" and s = "(demo_dev, demo_harness)" and rt = UMR_RING_PM4_LITE and n = 4 and d = 1
      and E = demo_pkt_env and F = harness_funcs and r = 3 and w = 1 and k = 2, OF demo_ring_read demo_ring_intact]
  by (simp add: demo_ring_def)

theorem ring_start_underflow_witness:
  "umr_packet_decode_ring 1 demo_pkt_env harness_funcs demo_ring_reader ''gfx'' False 9 (- 1) UMR_RING_PM4 (demo_dev, demo_harness) = None"
  using ring_start_underflow [where rd = demo_ring_reader and name = "''gfx''" and s = "(demo_dev, demo_harness)" and rt = UMR_RING_PM4 and n = 4 and d = 1
      and E = demo_pkt_env and F = harness_funcs and w = 1 and k = 9, OF demo_ring_read demo_ring_intact]
  by (simp add: demo_ring_def)

theorem packet_buffer_partition_witness:
  "\<exists>str rest. umr_packet_decode_buffer 1 demo_pkt_env 0 0 [0xC0001000, 7] 2 UMR_RING_PM4_LITE (demo_dev, demo_harness) =
     Some (Some str, (demo_dev, demo_harness)) \<and> halves [0xC0001000, 7] = packets_halves (str_stream str) @ rest"
proof -
  obtain str where "umr_packet_decode_buffer 1 demo_pkt_env 0 0 [0xC0001000, 7] 2 UMR_RING_PM4_LITE (demo_dev, demo_harness) =
     Some (Some str, (demo_dev, demo_harness))"
    by (simp add: umr_packet_decode_buffer_def decode_packets_def umr_pm4_lite_decode_stream_def decode_loop.simps pm4_lite_body_def
        pm4_lite_header_def take_words_def zero_pm4_def stream_of_def)
  from this and packet_buffer_partition [OF this] show ?thesis by auto
qed

end
