(* ===== verification/Wave_Data.thy ===== *)
theory Wave_Data
  imports Ring_Control
begin

unbundle bit_operations_syntax

text \<open>
  The state of a wave and its accessors (\<^verbatim>\<open>src/lib/scan_waves.c\<close>), and reading both through the
  indirect registers of the SQ.  The two callbacks of \<open>umr_funcs\<close> access registers; the selection of a
  bank goes through the low level write, the parameter \<open>wr\<close>.  A version that the device does not tell
  leaves the variables of the source unset, a null pointer that is followed and a store outside an
  array are undefined; all three are \<open>None\<close>.
\<close>

subsection \<open>The state of a wave\<close>

record umr_wave_status =
  ws_busy :: u32
  ws_wave_level :: u32
  ws_reg_values :: "u32 list"

text \<open>The coordinates are of type \<^verbatim>\<open>int\<close> in the source, but only ever hold unsigned numbers.\<close>

record umr_wave_data =
  wd_vgprs :: "u32 list"
  wd_sgprs :: "u32 list"
  wd_num_threads :: u32
  wd_se :: u32
  wd_sh :: u32
  wd_cu :: u32
  wd_simd :: u32
  wd_wave :: u32
  wd_have_vgprs :: bool
  wd_reg_names :: "string list option"
  wd_ws :: umr_wave_status

definition zero_wave :: "string list option \<Rightarrow> umr_wave_data" where
  "zero_wave names = \<lparr>wd_vgprs = replicate (64 * 256) 0, wd_sgprs = replicate 1024 0, wd_num_threads = 0, wd_se = 0, wd_sh = 0,
     wd_cu = 0, wd_simd = 0, wd_wave = 0, wd_have_vgprs = False, wd_reg_names = names,
     wd_ws = \<lparr>ws_busy = 0, ws_wave_level = 0, ws_reg_values = replicate 64 0\<rparr>\<rparr>"

definition gfx8_regs :: "string list" where
  "gfx8_regs =
     [''ixSQ_WAVE_STATUS'', ''ixSQ_WAVE_PC_LO'', ''ixSQ_WAVE_PC_HI'', ''ixSQ_WAVE_EXEC_LO'', ''ixSQ_WAVE_EXEC_HI'',
      ''ixSQ_WAVE_HW_ID'', ''ixSQ_WAVE_INST_DW0'', ''ixSQ_WAVE_INST_DW1'', ''ixSQ_WAVE_GPR_ALLOC'', ''ixSQ_WAVE_LDS_ALLOC'',
      ''ixSQ_WAVE_TRAPSTS'', ''ixSQ_WAVE_IB_STS'', ''ixSQ_WAVE_TBA_LO'', ''ixSQ_WAVE_TBA_HI'', ''ixSQ_WAVE_TMA_LO'',
      ''ixSQ_WAVE_TMA_HI'', ''ixSQ_WAVE_IB_DBG0'', ''ixSQ_WAVE_M0'', ''ixSQ_WAVE_MODE'']"

definition gfx9_regs :: "string list" where
  "gfx9_regs =
     [''ixSQ_WAVE_STATUS'', ''ixSQ_WAVE_PC_LO'', ''ixSQ_WAVE_PC_HI'', ''ixSQ_WAVE_EXEC_LO'', ''ixSQ_WAVE_EXEC_HI'',
      ''ixSQ_WAVE_HW_ID'', ''ixSQ_WAVE_INST_DW0'', ''ixSQ_WAVE_INST_DW1'', ''ixSQ_WAVE_GPR_ALLOC'', ''ixSQ_WAVE_LDS_ALLOC'',
      ''ixSQ_WAVE_TRAPSTS'', ''ixSQ_WAVE_IB_STS'', ''ixSQ_WAVE_IB_DBG0'', ''ixSQ_WAVE_M0'', ''ixSQ_WAVE_MODE'']"

definition gfx10_regs :: "string list" where
  "gfx10_regs =
     [''ixSQ_WAVE_STATUS'', ''ixSQ_WAVE_PC_LO'', ''ixSQ_WAVE_PC_HI'', ''ixSQ_WAVE_EXEC_LO'', ''ixSQ_WAVE_EXEC_HI'',
      ''ixSQ_WAVE_HW_ID1'', ''ixSQ_WAVE_HW_ID2'', ''ixSQ_WAVE_INST_DW0'', ''ixSQ_WAVE_GPR_ALLOC'', ''ixSQ_WAVE_LDS_ALLOC'',
      ''ixSQ_WAVE_TRAPSTS'', ''ixSQ_WAVE_IB_STS'', ''ixSQ_WAVE_IB_STS2'', ''ixSQ_WAVE_IB_DBG1'', ''ixSQ_WAVE_M0'', ''ixSQ_WAVE_MODE'']"

definition gfx11_regs :: "string list" where
  "gfx11_regs =
     [''ixSQ_WAVE_STATUS'', ''ixSQ_WAVE_PC_LO'', ''ixSQ_WAVE_PC_HI'', ''ixSQ_WAVE_EXEC_LO'', ''ixSQ_WAVE_EXEC_HI'',
      ''ixSQ_WAVE_HW_ID1'', ''ixSQ_WAVE_HW_ID2'', ''ixSQ_WAVE_GPR_ALLOC'', ''ixSQ_WAVE_LDS_ALLOC'',
      ''ixSQ_WAVE_TRAPSTS'', ''ixSQ_WAVE_IB_STS'', ''ixSQ_WAVE_IB_STS2'', ''ixSQ_WAVE_IB_DBG1'', ''ixSQ_WAVE_M0'', ''ixSQ_WAVE_MODE'']"

definition gfx12_regs :: "string list" where
  "gfx12_regs =
     [''ixSQ_WAVE_STATUS'', ''ixSQ_WAVE_PC_LO'', ''ixSQ_WAVE_PC_HI'', ''ixSQ_WAVE_EXEC_LO'', ''ixSQ_WAVE_EXEC_HI'',
      ''ixSQ_WAVE_HW_ID1'', ''ixSQ_WAVE_HW_ID2'', ''ixSQ_WAVE_GPR_ALLOC'', ''ixSQ_WAVE_LDS_ALLOC'', ''ixSQ_WAVE_IB_STS'',
      ''ixSQ_WAVE_IB_STS2'', ''ixSQ_WAVE_IB_DBG1'', ''ixSQ_WAVE_M0'', ''ixSQ_WAVE_MODE'', ''ixSQ_WAVE_STATE_PRIV'',
      ''ixSQ_WAVE_EXCP_FLAG_PRIV'', ''ixSQ_WAVE_EXCP_FLAG_USER'', ''ixSQ_WAVE_TRAP_CTRL'', ''ixSQ_WAVE_ACTIVE'',
      ''ixSQ_WAVE_VALID_AND_IDLE'', ''ixSQ_WAVE_DVGPR_ALLOC_LO'', ''ixSQ_WAVE_DVGPR_ALLOC_HI'', ''ixSQ_WAVE_SCHED_MODE'']"

definition wave_regs :: "int \<Rightarrow> string list option" where
  "wave_regs maj =
     (if maj = 8 then Some gfx8_regs else if maj = 9 then Some gfx9_regs else if maj = 10 then Some gfx10_regs
      else if maj = 11 then Some gfx11_regs else if maj = 12 then Some gfx12_regs else None)"

definition umr_wave_data_init :: "umr_asic \<Rightarrow> (int \<times> umr_wave_data) option" where
  "umr_wave_data_init asic = do {
     (maj, mi) \<leftarrow> umr_gfx_get_ip_ver asic;
     Some (if wave_regs maj = None then - 1 else 0, zero_wave (wave_regs maj)) }"

subsection \<open>Registers and fields of a wave\<close>

fun name_index :: "string list \<Rightarrow> string \<Rightarrow> nat option" where
  "name_index [] n = None"
| "name_index (m # ms) n = (if m = n then Some 0 else map_option Suc (name_index ms n))"

definition umr_wave_data_get_value :: "umr_wave_data \<Rightarrow> string \<Rightarrow> u32 option" where
  "umr_wave_data_get_value wd regname = do {
     names \<leftarrow> wd_reg_names wd;
     case name_index names regname of
       Some x \<Rightarrow> word_at (ws_reg_values (wd_ws wd)) x
     | None \<Rightarrow> Some 0xDEADBEEF }"

definition umr_wave_data_get_bits :: "umr_wave_data \<Rightarrow> string \<Rightarrow> string \<Rightarrow> ('w, u32) dev_op" where
  "umr_wave_data_get_bits wd regname bitname s = do {
     v \<leftarrow> umr_wave_data_get_value wd regname;
     if v = 0xDEADBEEF then Some (0xDEADBEEF, s)
     else do {
       (b, asic) \<leftarrow> umr_bitslice_reg_by_name_by_ip_by_instance (fst s) (Some ''gfx'') (opt_vm_partition (asic_options (fst s)))
         regname bitname (ucast v);
       Some (ucast b, (asic, snd s)) } }"

definition umr_wave_data_get_bit_info :: "umr_wave_data \<Rightarrow> string \<Rightarrow> ('w, int \<times> umr_bitfield list) dev_op" where
  "umr_wave_data_get_bit_info wd regname s = do {
     names \<leftarrow> wd_reg_names wd;
     case name_index names regname of
       None \<Rightarrow> Some ((- 2, []), s)
     | Some x \<Rightarrow> do {
         n \<leftarrow> word_at names x;
         (r, m, asic) \<leftarrow> umr_find_reg_data_by_ip_by_instance (fst s) (Some ''gfx'') (opt_vm_partition (asic_options (fst s))) n;
         Some (case r of
                 Some p \<Rightarrow> (0, reg_bits (reg_at (asic_blocks asic) p))
               | None \<Rightarrow> (- 1, []), (asic, snd s)) } }"

text \<open>A flag is a field that depends on the version; versions without the flag give \<open>- 1\<close>.\<close>

definition wave_flag :: "(int \<Rightarrow> (string \<times> string) option) \<Rightarrow> umr_wave_data \<Rightarrow> ('w, int) dev_op" where
  "wave_flag f wd s = do {
     (maj, mi) \<leftarrow> umr_gfx_get_ip_ver (fst s);
     case f maj of
       None \<Rightarrow> Some (- 1, s)
     | Some (reg, bitname) \<Rightarrow> do {
         (v, s) \<leftarrow> umr_wave_data_get_bits wd reg bitname s;
         Some (sint v, s) } }"

definition known_gfx :: "int \<Rightarrow> bool" where
  "known_gfx maj \<longleftrightarrow> 6 \<le> maj \<and> maj \<le> 12"

definition umr_wave_data_get_flag_valid :: "umr_wave_data \<Rightarrow> ('w, int) dev_op" where
  "umr_wave_data_get_flag_valid = wave_flag (\<lambda>maj. if known_gfx maj then Some (''ixSQ_WAVE_STATUS'', ''VALID'') else None)"

definition umr_wave_data_get_flag_trap_en :: "umr_wave_data \<Rightarrow> ('w, int) dev_op" where
  "umr_wave_data_get_flag_trap_en = wave_flag (\<lambda>maj. if known_gfx maj then Some (''ixSQ_WAVE_STATUS'', ''TRAP_EN'') else None)"

definition umr_wave_data_get_flag_halt :: "umr_wave_data \<Rightarrow> ('w, int) dev_op" where
  "umr_wave_data_get_flag_halt = wave_flag (\<lambda>maj.
     if maj = 12 then Some (''ixSQ_WAVE_STATE_PRIV'', ''HALT'')
     else if known_gfx maj then Some (''ixSQ_WAVE_STATUS'', ''HALT'') else None)"

definition umr_wave_data_get_flag_fatal_halt :: "umr_wave_data \<Rightarrow> ('w, int) dev_op" where
  "umr_wave_data_get_flag_fatal_halt = wave_flag (\<lambda>maj. if known_gfx maj then Some (''ixSQ_WAVE_STATUS'', ''FATAL_HALT'') else None)"

definition umr_wave_data_get_flag_priv :: "umr_wave_data \<Rightarrow> ('w, int) dev_op" where
  "umr_wave_data_get_flag_priv = wave_flag (\<lambda>maj. if known_gfx maj then Some (''ixSQ_WAVE_STATUS'', ''PRIV'') else None)"

definition umr_wave_data_get_flag_wave64 :: "umr_wave_data \<Rightarrow> ('w, int) dev_op" where
  "umr_wave_data_get_flag_wave64 = wave_flag (\<lambda>maj.
     if maj = 12 then Some (''ixSQ_WAVE_STATUS'', ''WAVE64'')
     else if known_gfx maj then Some (''ixSQ_WAVE_IB_STS2'', ''WAVE64'') else None)"

definition hw_id :: "int \<Rightarrow> string" where
  "hw_id maj = (if maj < 10 then ''ixSQ_WAVE_HW_ID'' else ''ixSQ_WAVE_HW_ID1'')"

definition umr_wave_data_get_flag_simd_id :: "umr_wave_data \<Rightarrow> ('w, int) dev_op" where
  "umr_wave_data_get_flag_simd_id = wave_flag (\<lambda>maj. if known_gfx maj then Some (hw_id maj, ''SIMD_ID'') else None)"

definition umr_wave_data_get_flag_wave_id :: "umr_wave_data \<Rightarrow> ('w, int) dev_op" where
  "umr_wave_data_get_flag_wave_id = wave_flag (\<lambda>maj. if known_gfx maj then Some (hw_id maj, ''WAVE_ID'') else None)"

definition umr_wave_data_get_shader_pc_vmid :: "umr_wave_data \<Rightarrow> ('w, (u32 \<times> u64) option) dev_op" where
  "umr_wave_data_get_shader_pc_vmid wd s = do {
     (maj, mi) \<leftarrow> umr_gfx_get_ip_ver (fst s);
     if known_gfx maj then do {
       lo \<leftarrow> umr_wave_data_get_value wd ''ixSQ_WAVE_PC_LO'';
       hi \<leftarrow> umr_wave_data_get_value wd ''ixSQ_WAVE_PC_HI'';
       (vmid, s) \<leftarrow> umr_wave_data_get_bits wd (if maj < 10 then ''ixSQ_WAVE_HW_ID'' else ''ixSQ_WAVE_HW_ID2'') ''VM_ID'' s;
       Some (Some (vmid, mk64 lo hi), s) }
     else Some (None, s) }"

definition umr_wave_data_num_of_sgprs :: "umr_wave_data \<Rightarrow> ('w, u32) dev_op" where
  "umr_wave_data_num_of_sgprs wd s = do {
     (maj, mi) \<leftarrow> umr_gfx_get_ip_ver (fst s);
     if maj = 6 \<or> maj = 7 \<or> maj = 8 \<or> maj = 9 then do {
       (n, s) \<leftarrow> umr_wave_data_get_bits wd ''ixSQ_WAVE_GPR_ALLOC'' ''SGPR_SIZE'' s;
       Some (push_bit (if maj = 6 \<or> maj = 7 then 3 else 4) n, s) }
     else Some (if maj = 10 \<or> maj = 11 \<or> maj = 12 then 124 else 0, s) }"

subsection \<open>The indirect registers\<close>

definition ind_regs :: "umr_asic \<Rightarrow> ((umr_reg \<times> umr_reg) option \<times> umr_asic) option" where
  "ind_regs asic = do {
     let part = opt_vm_partition (asic_options asic);
     (i, m, asic) \<leftarrow> umr_find_reg_data_by_ip_by_instance asic (Some ''gfx'') part ''mmSQ_IND_INDEX'';
     (j, m, asic) \<leftarrow> umr_find_reg_data_by_ip_by_instance asic (Some ''gfx'') part ''mmSQ_IND_DATA'';
     Some (case (i, j) of
             (Some p, Some q) \<Rightarrow> Some (reg_at (asic_blocks asic) p, reg_at (asic_blocks asic) q)
           | _ \<Rightarrow> None, asic) }"

primrec read_words :: "nat \<Rightarrow> 'w umr_funcs \<Rightarrow> u64 \<Rightarrow> ('w, u32 list) dev_op" where
  "read_words 0 F addr s = Some ([], s)"
| "read_words (Suc n) F addr s = do {
     (w, s) \<leftarrow> read_reg F addr REG_MMIO s;
     (ws, s) \<leftarrow> read_words n F addr s;
     Some (w # ws, s) }"

text \<open>The words that are stored; without the registers there are none.\<close>

definition wave_read_regs_via_mmio ::
    "'w umr_funcs \<Rightarrow> u32 \<Rightarrow> u32 \<Rightarrow> u32 \<Rightarrow> u32 \<Rightarrow> u32 \<Rightarrow> ('w, u32 list) dev_op" where
  "wave_read_regs_via_mmio F simd wave thread regno num s = do {
     (rs, asic) \<leftarrow> ind_regs (fst s);
     let s = (asic, snd s);
     case rs of
       None \<Rightarrow> Some ([], s)
     | Some (ind_index, ind_data) \<Rightarrow> do {
         v \<leftarrow> compose_all ind_index
           ([(''WAVE_ID'', ucast wave), (''INDEX'', ucast regno)] @
            (if asic_family asic < FAMILY_NV then [(''THREAD_ID'', ucast thread), (''FORCE_READ'', 1), (''SIMD_ID'', ucast simd)]
             else [(''WORKITEM_ID'', ucast thread)]) @ [(''AUTO_INCR'', 1)]) 0;
         (_, s) \<leftarrow> write_reg F (reg_addr ind_index * 4) v REG_MMIO s;
         read_words (unat num) F (reg_addr ind_data * 4) s } }"

definition wave_read_ind :: "'w umr_funcs \<Rightarrow> (string \<times> u64) list \<Rightarrow> ('w, u32) dev_op" where
  "wave_read_ind F fs s = do {
     (rs, asic) \<leftarrow> ind_regs (fst s);
     let s = (asic, snd s);
     case rs of
       None \<Rightarrow> Some (- 1, s)
     | Some (ind_index, ind_data) \<Rightarrow> do {
         v \<leftarrow> compose_all ind_index fs 0;
         (_, s) \<leftarrow> write_reg F (reg_addr ind_index * 4) v REG_MMIO s;
         read_reg F (reg_addr ind_data * 4) REG_MMIO s } }"

text \<open>The fields for the devices up to GFX9 and from GFX10.\<close>

definition ind_fields_9 :: "u32 \<Rightarrow> u32 \<Rightarrow> u32 \<Rightarrow> (string \<times> u64) list" where
  "ind_fields_9 simd wave address =
     [(''WAVE_ID'', ucast wave), (''SIMD_ID'', ucast simd), (''INDEX'', ucast address), (''FORCE_READ'', 1)]"

definition ind_fields_10 :: "u32 \<Rightarrow> u32 \<Rightarrow> (string \<times> u64) list" where
  "ind_fields_10 wave address = [(''WAVE_ID'', ucast wave), (''INDEX'', ucast address)]"

end
