(* ===== verification/Wave_Scan.thy ===== *)
theory Wave_Scan
  imports Wave_Data
begin

unbundle bit_operations_syntax

text \<open>
  Reading general purpose registers and the status of waves through the registers of the SQ, and the
  scan for waves (\<^verbatim>\<open>src/lib/scan_waves.c\<close>).
\<close>

subsection \<open>General purpose registers\<close>

text \<open>A store of words into an array from position \<open>k\<close> on.\<close>

definition store_words :: "u32 list \<Rightarrow> nat \<Rightarrow> u32 list \<Rightarrow> u32 list option" where
  "store_words dst k ws = (if k + length ws \<le> length dst then Some (take k dst @ ws @ drop (k + length ws) dst) else None)"

type_synonym 'w low_write = "u64 \<Rightarrow> u32 \<Rightarrow> regclass \<Rightarrow> ('w, int) dev_op"

text \<open>Where a wave runs: engine, array, unit, SIMD and slot.\<close>

record wave_place =
  wp_se :: u32
  wp_sh :: u32
  wp_cu :: u32
  wp_wave :: u32
  wp_simd :: u32

definition read_gpr_mmio_raw ::
    "'w umr_funcs \<Rightarrow> 'w low_write \<Rightarrow> bool \<Rightarrow> u32 \<Rightarrow> wave_place \<Rightarrow> u32 \<Rightarrow> u32 \<Rightarrow> nat \<Rightarrow> u32 list \<Rightarrow> ('w, u32 list) dev_op" where
  "read_gpr_mmio_raw F wr vgpr thread p offset num k dst s = do {
     (_, s) \<leftarrow> umr_grbm_select_index wr (wp_se p) (wp_sh p) (wp_cu p) s;
     (ws, s) \<leftarrow> wave_read_regs_via_mmio F (wp_simd p) (wp_wave p) thread (offset + (if vgpr then 0x400 else 0x200)) num s;
     dst \<leftarrow> store_words dst k ws;
     (_, s) \<leftarrow> umr_grbm_select_index wr 0xFFFFFFFF 0xFFFFFFFF 0xFFFFFFFF s;
     Some (dst, s) }"

text \<open>A shift by the granularity of the device, undefined from 32 on.\<close>

definition alloc_size :: "u32 \<Rightarrow> u32 \<Rightarrow> u32 option" where
  "alloc_size n shift = (if unat shift < 32 then Some (4 * push_bit (unat shift) (n + 1)) else None)"

definition gpr_place :: "bool \<Rightarrow> umr_wave_data \<Rightarrow> ('w, wave_place \<times> u32) dev_op" where
  "gpr_place vgpr wd s =
     (if asic_family (fst s) < FAMILY_NV then do {
        (se, s) \<leftarrow> umr_wave_data_get_bits wd ''ixSQ_WAVE_HW_ID'' ''SE_ID'' s;
        (sh, s) \<leftarrow> umr_wave_data_get_bits wd ''ixSQ_WAVE_HW_ID'' ''SH_ID'' s;
        (cu, s) \<leftarrow> umr_wave_data_get_bits wd ''ixSQ_WAVE_HW_ID'' ''CU_ID'' s;
        (wave, s) \<leftarrow> umr_wave_data_get_bits wd ''ixSQ_WAVE_HW_ID'' ''WAVE_ID'' s;
        (simd, s) \<leftarrow> umr_wave_data_get_bits wd ''ixSQ_WAVE_HW_ID'' ''SIMD_ID'' s;
        (n, s) \<leftarrow> umr_wave_data_get_bits wd ''ixSQ_WAVE_GPR_ALLOC'' (if vgpr then ''VGPR_SIZE'' else ''SGPR_SIZE'') s;
        sz \<leftarrow> alloc_size n (if vgpr then asic_vgpr_granularity (fst s) else if asic_family (fst s) \<le> FAMILY_CIK then 3 else 4);
        Some ((\<lparr>wp_se = se, wp_sh = sh, wp_cu = cu, wp_wave = wave, wp_simd = simd\<rparr>, sz), s) }
      else do {
        (se, s) \<leftarrow> umr_wave_data_get_bits wd ''ixSQ_WAVE_HW_ID1'' ''SE_ID'' s;
        (sh, s) \<leftarrow> umr_wave_data_get_bits wd ''ixSQ_WAVE_HW_ID1'' ''SA_ID'' s;
        (wgp, s) \<leftarrow> umr_wave_data_get_bits wd ''ixSQ_WAVE_HW_ID1'' ''WGP_ID'' s;
        (simd, s) \<leftarrow> umr_wave_data_get_bits wd ''ixSQ_WAVE_HW_ID1'' ''SIMD_ID'' s;
        (wave, s) \<leftarrow> umr_wave_data_get_bits wd ''ixSQ_WAVE_HW_ID1'' ''WAVE_ID'' s;
        (sz, s) \<leftarrow> (if vgpr then do {
                       (n, s) \<leftarrow> umr_wave_data_get_bits wd ''ixSQ_WAVE_GPR_ALLOC'' ''VGPR_SIZE'' s;
                       sz \<leftarrow> alloc_size n (asic_vgpr_granularity (fst s));
                       Some (sz, s) }
                     else Some (4 * 124, s));
        Some ((\<lparr>wp_se = se, wp_sh = sh, wp_cu = push_bit 2 wgp OR simd, wp_wave = wave, wp_simd = 0\<rparr>, sz), s) })"

text \<open>
  The scalar registers of a trap handler are read behind the others when these do not reach that far.
  The result is always 0, so the log of a test vector, which is written word by word up to it, stays
  empty and is left out.
\<close>

definition read_gpr_mmio ::
    "'w umr_funcs \<Rightarrow> 'w low_write \<Rightarrow> bool \<Rightarrow> u32 \<Rightarrow> umr_wave_data \<Rightarrow> u32 list \<Rightarrow> ('w, int \<times> u32 list) dev_op" where
  "read_gpr_mmio F wr vgpr thread wd dst s = do {
     ((p, sz), s) \<leftarrow> gpr_place vgpr wd s;
     (dst, s) \<leftarrow> read_gpr_mmio_raw F wr vgpr thread p 0 sz 0 dst s;
     (trap, s) \<leftarrow> (if \<not> vgpr \<and> sz < 4 * 0x6C then do {
                      (t, s) \<leftarrow> umr_wave_data_get_flag_trap_en wd s;
                      if t \<noteq> 0 then Some (True, s)
                      else do { (q, s) \<leftarrow> umr_wave_data_get_flag_priv wd s; Some (q \<noteq> 0, s) } }
                    else Some (False, s));
     (dst, s) \<leftarrow> (if trap then read_gpr_mmio_raw F wr vgpr thread p (4 * 0x6C) sz 0x6C dst s else Some (dst, s));
     Some ((0, dst), s) }"

definition umr_read_sgprs_via_mmio ::
    "'w umr_funcs \<Rightarrow> 'w low_write \<Rightarrow> umr_wave_data \<Rightarrow> u32 list \<Rightarrow> ('w, int \<times> u32 list) dev_op" where
  "umr_read_sgprs_via_mmio F wr wd dst = read_gpr_mmio F wr False 0 wd dst"

definition umr_read_vgprs_via_mmio ::
    "'w umr_funcs \<Rightarrow> 'w low_write \<Rightarrow> umr_wave_data \<Rightarrow> u32 \<Rightarrow> u32 list \<Rightarrow> ('w, int \<times> u32 list) dev_op" where
  "umr_read_vgprs_via_mmio F wr wd thread dst s =
     (if asic_family (fst s) < FAMILY_AI then Some ((- 1, dst), s) else read_gpr_mmio F wr True thread wd dst s)"

subsection \<open>The status of a wave\<close>

definition umr_get_wave_sq_info_vi ::
    "'w umr_funcs \<Rightarrow> u32 \<Rightarrow> u32 \<Rightarrow> u32 \<Rightarrow> umr_wave_status \<Rightarrow> ('w, int \<times> umr_wave_status) dev_op" where
  "umr_get_wave_sq_info_vi F se sh cu ws s = do {
     (rs, asic) \<leftarrow> ind_regs (fst s);
     case rs of
       None \<Rightarrow> Some ((- 1, ws), (asic, snd s))
     | Some (ind_index, ind_data) \<Rightarrow> do {
         let bank = opt_use_bank (asic_options asic);
         let grbm = opt_grbm (asic_options asic);
         let s = (set_bank 1 \<lparr>grbm_se = se, grbm_sh = sh, grbm_instance = cu\<rparr> asic, snd s);
         if reg_addr ind_index * 4 = 0 \<or> reg_addr ind_data * 4 = 0 then Some ((- 1, ws), s)
         else do {
           (_, s) \<leftarrow> write_reg F (reg_addr ind_index * 4) (push_bit 16 8) REG_MMIO s;
           (v, s) \<leftarrow> read_reg F (reg_addr ind_data * 4) REG_MMIO s;
           let v = (if v = 0xbebebeef then 0 else v);
           Some ((0, ws\<lparr>ws_busy := v AND 1, ws_wave_level := drop_bit 4 v AND 0x3F\<rparr>), (set_bank bank grbm (fst s), snd s)) } } }"

fun read_named :: "(u32 \<Rightarrow> ('w, u32) dev_op) \<Rightarrow> string list \<Rightarrow> ('w, u32 list) dev_op" where
  "read_named rd [] s = Some ([], s)"
| "read_named rd (n # ns) s = do {
     (r, m, asic) \<leftarrow> umr_find_reg_by_name (fst s) n;
     p \<leftarrow> r;
     (v, s) \<leftarrow> rd (ucast (reg_addr (reg_at (asic_blocks asic) p))) (asic, snd s);
     (vs, s) \<leftarrow> read_named rd ns s;
     Some (v # vs, s) }"

definition status_names_9 :: "chipfamily \<Rightarrow> string list" where
  "status_names_9 family =
     [''ixSQ_WAVE_STATUS'', ''ixSQ_WAVE_PC_LO'', ''ixSQ_WAVE_PC_HI'', ''ixSQ_WAVE_EXEC_LO'', ''ixSQ_WAVE_EXEC_HI'',
      ''ixSQ_WAVE_HW_ID'', ''ixSQ_WAVE_INST_DW0'', ''ixSQ_WAVE_INST_DW1'', ''ixSQ_WAVE_GPR_ALLOC'', ''ixSQ_WAVE_LDS_ALLOC'',
      ''ixSQ_WAVE_TRAPSTS'', ''ixSQ_WAVE_IB_STS''] @
     (if family \<le> FAMILY_VI then [''ixSQ_WAVE_TBA_LO'', ''ixSQ_WAVE_TBA_HI'', ''ixSQ_WAVE_TMA_LO'', ''ixSQ_WAVE_TMA_HI''] else []) @
     [''ixSQ_WAVE_IB_DBG0'', ''ixSQ_WAVE_M0'', ''ixSQ_WAVE_MODE'']"

definition status_names_10 :: "chipfamily \<Rightarrow> string list" where
  "status_names_10 family =
     [''ixSQ_WAVE_STATUS'', ''ixSQ_WAVE_PC_LO'', ''ixSQ_WAVE_PC_HI'', ''ixSQ_WAVE_EXEC_LO'', ''ixSQ_WAVE_EXEC_HI'',
      ''ixSQ_WAVE_HW_ID1'', ''ixSQ_WAVE_HW_ID2''] @
     (if family < FAMILY_GFX11 then [''ixSQ_WAVE_INST_DW0''] else []) @
     [''ixSQ_WAVE_GPR_ALLOC'', ''ixSQ_WAVE_LDS_ALLOC'', ''ixSQ_WAVE_TRAPSTS'', ''ixSQ_WAVE_IB_STS'', ''ixSQ_WAVE_IB_STS2'',
      ''ixSQ_WAVE_IB_DBG1'', ''ixSQ_WAVE_M0'', ''ixSQ_WAVE_MODE'']"

definition status_names_12 :: "string list" where
  "status_names_12 =
     [''ixSQ_WAVE_STATUS'', ''ixSQ_WAVE_PC_LO'', ''ixSQ_WAVE_PC_HI'', ''ixSQ_WAVE_EXEC_LO'', ''ixSQ_WAVE_EXEC_HI'',
      ''ixSQ_WAVE_HW_ID1'', ''ixSQ_WAVE_HW_ID2'', ''ixSQ_WAVE_GPR_ALLOC'', ''ixSQ_WAVE_LDS_ALLOC'', ''ixSQ_WAVE_IB_STS'',
      ''ixSQ_WAVE_IB_STS2'', ''ixSQ_WAVE_IB_DBG1'', ''ixSQ_WAVE_M0'', ''ixSQ_WAVE_MODE'', ''ixSQ_WAVE_STATE_PRIV'',
      ''ixSQ_WAVE_EXCP_FLAG_PRIV'', ''ixSQ_WAVE_EXCP_FLAG_USER'', ''ixSQ_WAVE_TRAP_CTRL'', ''ixSQ_WAVE_ACTIVE'',
      ''ixSQ_WAVE_VALID_AND_IDLE'', ''ixSQ_WAVE_DVGPR_ALLOC_LO'', ''ixSQ_WAVE_DVGPR_ALLOC_HI'', ''ixSQ_WAVE_SCHED_MODE'']"

definition umr_read_wave_status_via_mmio_gfx8_9 :: "'w umr_funcs \<Rightarrow> u32 \<Rightarrow> u32 \<Rightarrow> ('w, u32 list) dev_op" where
  "umr_read_wave_status_via_mmio_gfx8_9 F simd wave s = do {
     let family = asic_family (fst s);
     (vs, s) \<leftarrow> read_named (\<lambda>a. wave_read_ind F (ind_fields_9 simd wave a)) (status_names_9 family) s;
     Some ((if family \<le> FAMILY_VI then 0 else 1) # vs, s) }"

definition umr_read_wave_status_via_mmio_gfx_10_11 :: "'w umr_funcs \<Rightarrow> u32 \<Rightarrow> ('w, u32 list) dev_op" where
  "umr_read_wave_status_via_mmio_gfx_10_11 F wave s = do {
     let family = asic_family (fst s);
     (vs, s) \<leftarrow> read_named (\<lambda>a. wave_read_ind F (ind_fields_10 wave a)) (status_names_10 family) s;
     Some ((if family = FAMILY_GFX11 then 3 else 2) # vs, s) }"

definition umr_read_wave_status_via_mmio_gfx_12 :: "'w umr_funcs \<Rightarrow> u32 \<Rightarrow> ('w, u32 list) dev_op" where
  "umr_read_wave_status_via_mmio_gfx_12 F wave s = do {
     (vs, s) \<leftarrow> read_named (\<lambda>a. wave_read_ind F (ind_fields_10 wave a)) status_names_12 s;
     Some (4 # vs, s) }"

definition wave_type_ok :: "int \<Rightarrow> u32 \<Rightarrow> bool" where
  "wave_type_ok maj t \<longleftrightarrow>
     (if maj = 8 then t = 0 else if maj = 9 then t = 1 else if maj = 10 then t = 2 else if maj = 11 then t = 3
      else if maj = 12 then t = 4 else True)"

definition umr_parse_wave_data_gfx :: "umr_asic \<Rightarrow> umr_wave_status \<Rightarrow> u32 list \<Rightarrow> (int \<times> umr_wave_status) option" where
  "umr_parse_wave_data_gfx asic ws buf = do {
     (maj, mi) \<leftarrow> umr_gfx_get_ip_ver asic;
     t \<leftarrow> word_at buf 0;
     if wave_type_ok maj t then do {
       vs \<leftarrow> store_words (ws_reg_values ws) 0 (tl buf);
       Some (0, ws\<lparr>ws_reg_values := vs\<rparr>) }
     else Some (- 1, ws) }"

text \<open>On a version without a reader nothing is read and the call fails.\<close>

definition umr_get_wave_status_via_mmio ::
    "'w umr_funcs \<Rightarrow> 'w low_write \<Rightarrow> u32 \<Rightarrow> u32 \<Rightarrow> u32 \<Rightarrow> u32 \<Rightarrow> u32 \<Rightarrow> umr_wave_status \<Rightarrow> ('w, int \<times> umr_wave_status) dev_op" where
  "umr_get_wave_status_via_mmio F wr se sh cu simd wave ws s = do {
     (maj, mi) \<leftarrow> umr_gfx_get_ip_ver (fst s);
     (_, s) \<leftarrow> umr_grbm_select_index wr se sh cu s;
     (buf, s) \<leftarrow> (if maj = 8 \<or> maj = 9 then umr_read_wave_status_via_mmio_gfx8_9 F simd wave s
                   else if maj = 10 \<or> maj = 11 then umr_read_wave_status_via_mmio_gfx_10_11 F wave s
                   else if maj = 12 then umr_read_wave_status_via_mmio_gfx_12 F wave s
                   else Some ([], s));
     (_, s) \<leftarrow> umr_grbm_select_index wr 0xFFFFFFFF 0xFFFFFFFF 0xFFFFFFFF s;
     if buf = [] then Some ((- 1, ws), s)
     else do { r \<leftarrow> umr_parse_wave_data_gfx (fst s) ws buf; Some (r, s) } }"

subsection \<open>The scan\<close>

text \<open>The callbacks of the scan; the registers are stored into the array that is passed.\<close>

record 'w wave_funcs =
  get_wave_status :: "u32 \<Rightarrow> u32 \<Rightarrow> u32 \<Rightarrow> u32 \<Rightarrow> u32 \<Rightarrow> umr_wave_status \<Rightarrow> ('w, int \<times> umr_wave_status) dev_op"
  get_wave_sq_info :: "u32 \<Rightarrow> u32 \<Rightarrow> u32 \<Rightarrow> umr_wave_status \<Rightarrow> ('w, int \<times> umr_wave_status) dev_op"
  read_vgprs :: "umr_wave_data \<Rightarrow> u32 \<Rightarrow> u32 list \<Rightarrow> ('w, int \<times> u32 list) dev_op"
  read_sgprs :: "umr_wave_data \<Rightarrow> u32 list \<Rightarrow> ('w, int \<times> u32 list) dev_op"

definition MANY_TO_INSTANCE :: "u32 \<Rightarrow> u32 \<Rightarrow> u32" where
  "MANY_TO_INSTANCE wgp simd = (simd AND 3) OR push_bit 2 wgp"

text \<open>The vector registers of \<open>k\<close> threads from \<open>thread\<close> on, up to the first failure.\<close>

primrec read_threads :: "nat \<Rightarrow> 'w wave_funcs \<Rightarrow> nat \<Rightarrow> umr_wave_data \<Rightarrow> ('w, umr_wave_data) dev_op" where
  "read_threads 0 W thread wd s = Some (wd, s)"
| "read_threads (Suc k) W thread wd s = do {
     ((r, part), s) \<leftarrow> read_vgprs W wd (of_nat thread) (drop (256 * thread) (wd_vgprs wd)) s;
     let wd = wd\<lparr>wd_vgprs := take (256 * thread) (wd_vgprs wd) @ part\<rparr>;
     if r < 0 then Some (wd\<lparr>wd_have_vgprs := False\<rparr>, s) else read_threads k W (Suc thread) wd s }"

definition read_gprs :: "'w wave_funcs \<Rightarrow> umr_wave_data \<Rightarrow> ('w, umr_wave_data) dev_op" where
  "read_gprs W wd s = do {
     ((_, sg), s) \<leftarrow> read_sgprs W wd (wd_sgprs wd) s;
     let wd = wd\<lparr>wd_sgprs := sg\<rparr>;
     (n, s) \<leftarrow> (if asic_family (fst s) \<le> FAMILY_AI then Some (64, s)
                 else do { (f, s) \<leftarrow> umr_wave_data_get_flag_wave64 wd s; Some (if f \<noteq> 0 then 64 else 32, s) });
     read_threads n W 0 (wd\<lparr>wd_have_vgprs := True, wd_num_threads := of_nat n\<rparr>) s }"

text \<open>A slot is reported when it is valid, or halted with a status that is not the mark of an absent unit.\<close>

definition wave_present :: "umr_wave_data \<Rightarrow> ('w, bool) dev_op" where
  "wave_present wd s = do {
     (v, s) \<leftarrow> umr_wave_data_get_flag_valid wd s;
     if v \<noteq> 0 then Some (True, s)
     else do {
       (h, s) \<leftarrow> umr_wave_data_get_flag_halt wd s;
       if h = 0 then Some (False, s)
       else do { st \<leftarrow> umr_wave_data_get_value wd ''ixSQ_WAVE_STATUS''; Some (st \<noteq> 0xbebebeef, s) } } }"

definition umr_scan_wave_slot ::
    "'w wave_funcs \<Rightarrow> u32 \<Rightarrow> u32 \<Rightarrow> u32 \<Rightarrow> u32 \<Rightarrow> u32 \<Rightarrow> umr_wave_data \<Rightarrow> ('w, int \<times> umr_wave_data) dev_op" where
  "umr_scan_wave_slot W se sh cu simd wave wd s = do {
     ((r, ws), s) \<leftarrow> (if asic_family (fst s) \<le> FAMILY_AI then get_wave_status W se sh cu simd wave (wd_ws wd) s
                       else get_wave_status W se sh (MANY_TO_INSTANCE cu simd) 0 wave (wd_ws wd) s);
     let wd = wd\<lparr>wd_ws := ws\<rparr>;
     if r \<noteq> 0 then Some ((- 1, wd), s)
     else do {
       (here, s) \<leftarrow> wave_present wd s;
       if \<not> here then Some ((0, wd), s)
       else do {
         let wd = wd\<lparr>wd_se := se, wd_sh := sh, wd_cu := cu, wd_simd := simd, wd_wave := wave\<rparr>;
         (wd, s) \<leftarrow> (if \<not> opt_skip_gprs (asic_options (fst s)) then read_gprs W wd s else Some (wd\<lparr>wd_have_vgprs := False\<rparr>, s));
         Some ((1, wd), s) } } }"

text \<open>
  The list of waves ends in a node that the next slot fills: the scans below pass that node along and
  return the waves they add.  A slot that holds no wave leaves its status in the node.  \<open>None\<close> as the
  list is the error return.
\<close>

type_synonym 'w scan_op = "umr_wave_data \<Rightarrow> ('w, umr_wave_data list option \<times> umr_wave_data) dev_op"

definition scan_slot :: "'w wave_funcs \<Rightarrow> u32 \<Rightarrow> u32 \<Rightarrow> u32 \<Rightarrow> u32 \<Rightarrow> u32 \<Rightarrow> 'w scan_op" where
  "scan_slot W se sh cu simd wave wd s = do {
     ((r, wd), s) \<leftarrow> umr_scan_wave_slot W se sh cu simd wave wd s;
     Some (if r = 1 then (Some [wd], zero_wave (wd_reg_names wd)) else if r = - 1 then (None, wd) else (Some [], wd), s) }"

fun scan_all :: "('a \<Rightarrow> 'w scan_op) \<Rightarrow> 'a list \<Rightarrow> 'w scan_op" where
  "scan_all f [] wd s = Some ((Some [], wd), s)"
| "scan_all f (x # xs) wd s = do {
     ((r, wd), s) \<leftarrow> f x wd s;
     case r of
       None \<Rightarrow> Some ((None, wd), s)
     | Some ws \<Rightarrow> do {
         ((q, wd), s) \<leftarrow> scan_all f xs wd s;
         Some ((map_option ((@) ws) q, wd), s) } }"

definition upto_u32 :: "u32 \<Rightarrow> u32 list" where
  "upto_u32 n = map of_nat [0..<unat n]"

definition wave_limit :: "umr_ip_block \<Rightarrow> u32" where
  "wave_limit ip = (if ip_maj ip \<le> 9 then 10 else if ip_maj ip = 10 \<and> ip_min ip \<noteq> 3 then 20 else 16)"

definition umr_scan_wave_simd :: "'w wave_funcs \<Rightarrow> u32 \<Rightarrow> u32 \<Rightarrow> u32 \<Rightarrow> u32 \<Rightarrow> 'w scan_op" where
  "umr_scan_wave_simd W se sh cu simd wd s = do {
     ip \<leftarrow> umr_find_ip_block (asic_blocks (fst s)) ''gfx'' (opt_vm_partition (asic_options (fst s)));
     scan_all (scan_slot W se sh cu simd) (upto_u32 (wave_limit ip)) wd s }"

text \<open>A unit whose SQ is not busy is passed over; a failed query leaves the flag of the node as it was.\<close>

definition when_busy :: "'w wave_funcs \<Rightarrow> u32 \<Rightarrow> u32 \<Rightarrow> u32 \<Rightarrow> 'w scan_op \<Rightarrow> 'w scan_op" where
  "when_busy W se sh inst scan wd s = do {
     ((_, ws), s) \<leftarrow> get_wave_sq_info W se sh inst (wd_ws wd) s;
     let wd = wd\<lparr>wd_ws := ws\<rparr>;
     if ws_busy ws \<noteq> 0 then scan wd s else Some ((Some [], wd), s) }"

definition scan_sh :: "'w wave_funcs \<Rightarrow> u32 \<Rightarrow> u32 \<Rightarrow> 'w scan_op" where
  "scan_sh W se sh wd s =
     (let n = gfx_max_cu_per_sh (cfg_gfx (asic_config (fst s))) in
      if asic_family (fst s) \<le> FAMILY_AI then
        scan_all (\<lambda>cu. when_busy W se sh cu (scan_all (umr_scan_wave_simd W se sh cu) (upto_u32 4))) (upto_u32 n) wd s
      else
        scan_all (\<lambda>wgp. scan_all (\<lambda>simd. when_busy W se sh (MANY_TO_INSTANCE wgp simd) (umr_scan_wave_simd W se sh wgp simd)) (upto_u32 4))
          (upto_u32 (n div 2)) wd s)"

definition umr_scan_wave_data :: "'w wave_funcs \<Rightarrow> ('w, umr_wave_data list) dev_op" where
  "umr_scan_wave_data W s = do {
     (r, head) \<leftarrow> umr_wave_data_init (fst s);
     if r < 0 then Some ([], s)
     else do {
       let gfx = cfg_gfx (asic_config (fst s));
       ((ws, _), s) \<leftarrow> scan_all (\<lambda>se. scan_all (scan_sh W se) (upto_u32 (gfx_max_sh_per_se gfx))) (upto_u32 (gfx_max_shader_engines gfx)) head s;
       Some (case ws of None \<Rightarrow> [] | Some ws \<Rightarrow> ws, s) } }"

subsection \<open>Single stepping\<close>

text \<open>
  The rounds of \<^verbatim>\<open>umr_singlestep_wave\<close>, of which at most \<open>k\<close> are left.  The first result is \<open>True\<close> when the
  function returns at once, without the code that restores the options.
\<close>

primrec step_rounds ::
    "nat \<Rightarrow> 'w umr_funcs \<Rightarrow> 'w wave_funcs \<Rightarrow> u64 \<Rightarrow> umr_wave_data \<Rightarrow> ('w, (bool \<times> int) \<times> umr_wave_data) dev_op" where
  "step_rounds 0 F W pc wd s = Some (((False, - 1), wd), s)"
| "step_rounds (Suc k) F W pc wd s = do {
     (_, s) \<leftarrow> umr_sq_cmd_singlestep F (wd_se wd) (wd_sh wd) (wd_cu wd) (wd_simd wd) (wd_wave wd) s;
     (_, new_wd) \<leftarrow> umr_wave_data_init (fst s);
     ((r, new_wd), s) \<leftarrow> umr_scan_wave_slot W (wd_se wd) (wd_sh wd) (wd_cu wd) (wd_simd wd) (wd_wave wd) new_wd s;
     if r < 0 then Some (((False, - 2), wd), s)
     else do {
       (p, s) \<leftarrow> umr_wave_data_get_shader_pc_vmid new_wd s;
       case p of
         None \<Rightarrow> Some (((True, - 1), wd), s)
       | Some (vmid, new_pc) \<Rightarrow>
           if pc \<noteq> new_pc then Some (((False, r), new_wd), s)
           else if r = 1 then step_rounds k F W pc new_wd s
           else Some (((False, if k = 0 then - 1 else r), new_wd), s) } }"

definition set_quiet :: "bool \<Rightarrow> bool \<Rightarrow> umr_asic \<Rightarrow> umr_asic" where
  "set_quiet skip verbose asic = asic\<lparr>asic_options := (asic_options asic)\<lparr>opt_skip_gprs := skip, opt_verbose := verbose\<rparr>\<rparr>"

definition umr_singlestep_wave :: "'w umr_funcs \<Rightarrow> 'w wave_funcs \<Rightarrow> umr_wave_data \<Rightarrow> ('w, int \<times> umr_wave_data) dev_op" where
  "umr_singlestep_wave F W wd s = do {
     let skip = opt_skip_gprs (asic_options (fst s));
     let verbose = opt_verbose (asic_options (fst s));
     let s = (set_quiet False False (fst s), snd s);
     (p, s) \<leftarrow> umr_wave_data_get_shader_pc_vmid wd s;
     case p of
       None \<Rightarrow> Some ((- 1, wd), s)
     | Some (vmid, pc) \<Rightarrow> do {
         (((early, r), wd), s) \<leftarrow> step_rounds 5 F W pc wd s;
         Some ((r, wd), if early then s else (set_quiet skip verbose (fst s), snd s)) } }"

subsection \<open>The status has the registers that the names say\<close>

text \<open>Callbacks that leave the description of the device alone.\<close>

definition same_device :: "umr_asic \<Rightarrow> umr_asic \<Rightarrow> bool" where
  "same_device a b \<longleftrightarrow> asic_blocks a = asic_blocks b \<and> asic_family a = asic_family b"

definition op_keeps_device :: "('w, 'a) dev_op \<Rightarrow> bool" where
  "op_keeps_device f \<longleftrightarrow> (\<forall>s r s'. f s = Some (r, s') \<longrightarrow> same_device (fst s') (fst s))"

definition keeps_device :: "'w umr_funcs \<Rightarrow> 'w low_write \<Rightarrow> bool" where
  "keeps_device F wr \<longleftrightarrow> (\<forall>a v c. op_keeps_device (read_reg F a c) \<and> op_keeps_device (write_reg F a v c) \<and> op_keeps_device (wr a v c))"

lemma same_device_refl [simp]: "same_device a a"
  by (simp add: same_device_def)

lemma same_device_trans: "same_device a b \<Longrightarrow> same_device b c \<Longrightarrow> same_device a c"
  by (simp add: same_device_def)

lemma op_keepsD: "op_keeps_device f \<Longrightarrow> f s = Some (r, s') \<Longrightarrow> same_device (fst s') (fst s)"
  unfolding op_keeps_device_def by blast

lemma find_keeps:
  "umr_find_reg_data_by_ip_by_instance_with_ip asic ip inst n = Some (r, m, asic') \<Longrightarrow> same_device asic' asic"
  by (auto simp: umr_find_reg_data_by_ip_by_instance_with_ip_def Let_def same_device_def split: if_splits option.splits)

lemma same_device_bank [simp]: "same_device (set_use_bank b asic) c = same_device asic c" "same_device c (set_use_bank b asic) = same_device c asic"
  by (simp_all add: same_device_def set_use_bank_def)

lemma grbm_select_keeps:
  assumes "keeps_device F wr" and "umr_grbm_select_index wr se sh i s = Some (r, s')"
  shows "same_device (fst s') (fst s)"
proof -
  obtain p m asic where f: "umr_find_reg_data_by_ip_by_instance_with_ip (fst s) None (- 2) ''mmGRBM_GFX_INDEX'' = Some (p, m, asic)"
    using assms(2) by (auto simp: umr_grbm_select_index_def umr_find_reg_by_name_def split: bind_splits)
  have w: "op_keeps_device (wr a v c)" for a v c using assms(1) by (simp add: keeps_device_def)
  show ?thesis using assms(2) f find_keeps [OF f]
    by (auto simp: umr_grbm_select_index_def umr_find_reg_by_name_def banked_write_def Let_def split: bind_splits option.splits
        dest!: op_keepsD [OF w] intro: same_device_trans)
qed

lemma ind_regs_keeps: "ind_regs asic = Some (rs, asic') \<Longrightarrow> same_device asic' asic"
  by (auto simp: ind_regs_def umr_find_reg_data_by_ip_by_instance_def Let_def split: bind_splits dest!: find_keeps intro: same_device_trans)

lemma wave_read_ind_keeps:
  assumes "keeps_device F wr"
  shows "op_keeps_device (wave_read_ind F fs)"
proof -
  have k: "op_keeps_device (read_reg F a c)" "op_keeps_device (write_reg F a v c)" for a v c using assms by (simp_all add: keeps_device_def)
  show ?thesis unfolding op_keeps_device_def
    by (auto simp: wave_read_ind_def Let_def split: bind_splits option.splits
        dest!: ind_regs_keeps op_keepsD [OF k(1)] op_keepsD [OF k(2)] intro: same_device_trans) (metis same_device_trans)
qed

lemma read_named_keeps:
  assumes "\<And>a. op_keeps_device (rd a)"
  shows "read_named rd ns s = Some (vs, s') \<Longrightarrow> same_device (fst s') (fst s) \<and> length vs = length ns"
proof (induction ns arbitrary: s vs)
  case (Cons n ns)
  then obtain p m asic v s1 ws where f: "umr_find_reg_data_by_ip_by_instance_with_ip (fst s) None (- 2) n = Some (Some p, m, asic)"
    and r: "rd (ucast (reg_addr (reg_at (asic_blocks asic) p))) (asic, snd s) = Some (v, s1)"
    and q: "read_named rd ns s1 = Some (ws, s')" "vs = v # ws"
    by (auto simp: umr_find_reg_by_name_def split: bind_splits)
  show ?case using Cons.IH [OF q(1)] q(2) op_keepsD [OF assms r] find_keeps [OF f] by (auto intro: same_device_trans)
qed simp

lemma status_names:
  "status_names_9 family = (if family \<le> FAMILY_VI then gfx8_regs else gfx9_regs)"
  "status_names_10 family = (if family < FAMILY_GFX11 then gfx10_regs else gfx11_regs)"
  "status_names_12 = gfx12_regs"
  by (simp_all add: status_names_9_def status_names_10_def status_names_12_def gfx8_regs_def gfx9_regs_def gfx10_regs_def
      gfx11_regs_def gfx12_regs_def)

lemma name_index_nth: "distinct ns \<Longrightarrow> i < length ns \<Longrightarrow> name_index ns (ns ! i) = Some i"
proof (induction ns arbitrary: i)
  case (Cons n ns)
  then show ?case by (cases i) auto
qed simp

lemma wave_regs_distinct: "wave_regs maj = Some ns \<Longrightarrow> distinct ns"
proof -
  have "distinct gfx8_regs" "distinct gfx9_regs" "distinct gfx10_regs" "distinct gfx11_regs" "distinct gfx12_regs" by code_simp+
  then show "wave_regs maj = Some ns \<Longrightarrow> distinct ns" by (auto simp: wave_regs_def split: if_splits)
qed

lemma gfx_ver_same: "same_device a b \<Longrightarrow> umr_gfx_get_ip_ver a = umr_gfx_get_ip_ver b"
proof -
  assume "same_device a b"
  then have "asic_blocks a = asic_blocks b" by (simp add: same_device_def)
  then show ?thesis unfolding umr_gfx_get_ip_ver_def by (simp only:)
qed



text \<open>A device of version 9 whose SQ answers with the index it was given.\<close>

definition demo_wave_regs :: "umr_reg list" where
  "demo_wave_regs =
     map2 (\<lambda>n a. demo_reg n REG_SMC a)
       [''ixSQ_WAVE_EXEC_HI'', ''ixSQ_WAVE_EXEC_LO'', ''ixSQ_WAVE_GPR_ALLOC'', ''ixSQ_WAVE_HW_ID'', ''ixSQ_WAVE_IB_DBG0'',
        ''ixSQ_WAVE_IB_STS'', ''ixSQ_WAVE_INST_DW0'', ''ixSQ_WAVE_INST_DW1'', ''ixSQ_WAVE_LDS_ALLOC'', ''ixSQ_WAVE_M0'',
        ''ixSQ_WAVE_MODE'', ''ixSQ_WAVE_PC_HI'', ''ixSQ_WAVE_PC_LO'']
       [0x7F, 0x7E, 0x15, 0x14, 0x1C, 0x17, 0x1A, 0x1B, 0x16, 0x7C, 0x11, 0x19, 0x18] @
     [(demo_reg ''ixSQ_WAVE_STATUS'' REG_SMC 0x12)\<lparr>reg_bits := [\<lparr>bf_regname = ''HALT'', bf_start = 13, bf_stop = 13\<rparr>, \<lparr>bf_regname = ''VALID'', bf_start = 16, bf_stop = 16\<rparr>]\<rparr>,
      demo_reg ''ixSQ_WAVE_TRAPSTS'' REG_SMC 0x13, demo_reg ''mmGRBM_GFX_INDEX'' REG_MMIO 0x200, demo_reg ''mmSQ_IND_DATA'' REG_MMIO 0x22,
      (demo_reg ''mmSQ_IND_INDEX'' REG_MMIO 0x21)\<lparr>reg_bits :=
        [\<lparr>bf_regname = ''WAVE_ID'', bf_start = 0, bf_stop = 3\<rparr>, \<lparr>bf_regname = ''INDEX'', bf_start = 16, bf_stop = 31\<rparr>]\<rparr>]"

definition demo_wave_dev :: umr_asic where
  "demo_wave_dev = demo_dev\<lparr>asic_blocks := [demo_block ''gfx90'' demo_wave_regs], asic_options := zero_options\<lparr>opt_vm_partition := - 1\<rparr>\<rparr>"

definition demo_sq :: "u32 umr_funcs" where
  "demo_sq = \<lparr>read_reg = (\<lambda>a c s. Some (snd s, s)), write_reg = (\<lambda>a v c s. Some (0, (fst s, v))),
     access_sram = (\<lambda>a bs w s. None), access_linear_vram = (\<lambda>a bs w s. None), gpu_bus_to_cpu_address = (\<lambda>a s. None)\<rparr>"

definition demo_low_write :: "u32 low_write" where
  "demo_low_write a v c s = Some (0, s)"

definition demo_ws :: umr_wave_status where
  "demo_ws = \<lparr>ws_busy = 0, ws_wave_level = 0, ws_reg_values = replicate 64 0\<rparr>"

lemma demo_keeps: "keeps_device demo_sq demo_low_write"
  by (auto simp: keeps_device_def op_keeps_device_def demo_sq_def demo_low_write_def)

text \<open>The codes that the comparison of the names uses.\<close>

lemma upper_codes:
  "(of_char (toupper CHR ''0'') :: nat) = 48" "(of_char (toupper CHR ''1'') :: nat) = 49"
  "(of_char (toupper CHR ''A'') :: nat) = 65" "(of_char (toupper CHR ''B'') :: nat) = 66"
  "(of_char (toupper CHR ''C'') :: nat) = 67" "(of_char (toupper CHR ''D'') :: nat) = 68"
  "(of_char (toupper CHR ''E'') :: nat) = 69" "(of_char (toupper CHR ''F'') :: nat) = 70"
  "(of_char (toupper CHR ''G'') :: nat) = 71" "(of_char (toupper CHR ''H'') :: nat) = 72"
  "(of_char (toupper CHR ''I'') :: nat) = 73" "(of_char (toupper CHR ''L'') :: nat) = 76"
  "(of_char (toupper CHR ''M'') :: nat) = 77" "(of_char (toupper CHR ''N'') :: nat) = 78"
  "(of_char (toupper CHR ''O'') :: nat) = 79" "(of_char (toupper CHR ''P'') :: nat) = 80"
  "(of_char (toupper CHR ''Q'') :: nat) = 81" "(of_char (toupper CHR ''R'') :: nat) = 82"
  "(of_char (toupper CHR ''S'') :: nat) = 83" "(of_char (toupper CHR ''T'') :: nat) = 84"
  "(of_char (toupper CHR ''U'') :: nat) = 85" "(of_char (toupper CHR ''V'') :: nat) = 86"
  "(of_char (toupper CHR ''W'') :: nat) = 87" "(of_char (toupper CHR ''X'') :: nat) = 88"
  "(of_char (toupper CHR ''_'') :: nat) = 95" "(of_char (toupper CHR ''i'') :: nat) = 73"
  "(of_char (toupper CHR ''m'') :: nat) = 77" "(of_char (toupper CHR ''x'') :: nat) = 88"
  by (simp_all add: toupper_def)

lemma demo_search:
  "map (search_block (demo_block ''gfx90'' demo_wave_regs)) (gfx9_regs @ [''mmGRBM_GFX_INDEX'', ''mmSQ_IND_INDEX'', ''mmSQ_IND_DATA'']) =
   map Some [13, 12, 11, 1, 0, 3, 6, 7, 2, 8, 14, 5, 4, 9, 10, 15, 17, 16]"
  by (simp add: gfx9_regs_def search_block_def search_table_def lower_bound.simps demo_wave_regs_def demo_block_def demo_reg_def upper_codes
      del: of_char_eq_iff)

lemma demo_find:
  assumes "search_block (demo_block ''gfx90'' demo_wave_regs) n = Some k" and "length n < 96" and "hd n \<noteq> CHR ''@''"
    and "ip = None \<and> inst = - 2 \<or> ip = Some ''gfx'' \<and> inst = - 1" and "asic_blocks asic = [demo_block ''gfx90'' demo_wave_regs]"
  shows "umr_find_reg_data_by_ip_by_instance_with_ip asic ip inst n = Some (Some (0, k), Quiet, asic)"
proof -
  have "\<not> strstr ''gfx90'' ''{''" by code_simp
  then show ?thesis
    using assms by (auto simp: umr_find_reg_data_by_ip_by_instance_with_ip_def block_skipped_def demo_block_def Let_def)
qed

lemma demo_found:
  "search_block (demo_block ''gfx90'' demo_wave_regs) ''mmSQ_IND_INDEX'' = Some 17"
  "search_block (demo_block ''gfx90'' demo_wave_regs) ''mmSQ_IND_DATA'' = Some 16"
  "search_block (demo_block ''gfx90'' demo_wave_regs) ''mmGRBM_GFX_INDEX'' = Some 15"
  "n \<in> set gfx9_regs \<Longrightarrow> \<exists>k. search_block (demo_block ''gfx90'' demo_wave_regs) n = Some k"
  using demo_search by (auto simp: gfx9_regs_def)

lemma demo_blocks_wave: "asic_blocks demo_wave_dev = [demo_block ''gfx90'' demo_wave_regs]" "opt_vm_partition (asic_options demo_wave_dev) = - 1"
    "asic_family demo_wave_dev = FAMILY_AI"
  by (simp_all add: demo_wave_dev_def demo_dev_def)

lemma demo_select: "\<exists>x. umr_grbm_select_index demo_low_write se sh i (demo_wave_dev, w) = Some (x, (demo_wave_dev, w))"
proof -
  have "find_bit (reg_at [demo_block ''gfx90'' demo_wave_regs] (0, 15)) n = None" for n
    by (simp add: find_bit_def reg_at_def demo_block_def demo_wave_regs_def demo_reg_def)
  then have "umr_bitslice_compose_value (reg_at [demo_block ''gfx90'' demo_wave_regs] (0, 15)) n v = Some 0" for n v
    by (simp add: umr_bitslice_compose_value_def)
  then show ?thesis using demo_find [OF demo_found(3), of None "- 2" demo_wave_dev]
    by (simp add: umr_grbm_select_index_def umr_find_reg_by_name_def banked_write_def select_fields_def Let_def demo_low_write_def
        demo_blocks_wave set_use_bank_def)
qed

lemma demo_ind_read: "\<exists>v. wave_read_ind demo_sq (ind_fields_9 simd wave a) (demo_wave_dev, w) = Some (v, (demo_wave_dev, v))"
proof -
  have "ind_regs demo_wave_dev = Some (Some (reg_at [demo_block ''gfx90'' demo_wave_regs] (0, 17), reg_at [demo_block ''gfx90'' demo_wave_regs] (0, 16)), demo_wave_dev)"
    using demo_find [OF demo_found(1), of "Some ''gfx''" "- 1" demo_wave_dev] demo_find [OF demo_found(2), of "Some ''gfx''" "- 1" demo_wave_dev]
    by (simp add: ind_regs_def umr_find_reg_data_by_ip_by_instance_def demo_blocks_wave Let_def)
  moreover have "\<exists>v. compose_all (reg_at [demo_block ''gfx90'' demo_wave_regs] (0, 17)) (ind_fields_9 simd wave a) 0 = Some v"
    by (simp add: ind_fields_9_def reg_at_def demo_block_def demo_wave_regs_def demo_reg_def umr_bitslice_compose_value_def find_bit_def
        bf_mask_def shl64_def)
  ultimately show ?thesis by (auto simp: wave_read_ind_def demo_sq_def Let_def)
qed

lemma demo_read_named:
  "set ns \<subseteq> set gfx9_regs \<Longrightarrow>
   \<exists>vs v. read_named (\<lambda>a. wave_read_ind demo_sq (ind_fields_9 simd wave a)) ns (demo_wave_dev, w) = Some (vs, (demo_wave_dev, v)) \<and> length vs = length ns"
proof (induction ns arbitrary: w)
  case (Cons n ns)
  obtain k where "search_block (demo_block ''gfx90'' demo_wave_regs) n = Some k" using Cons.prems demo_found(4) by auto
  moreover have "length n < 96 \<and> hd n \<noteq> CHR ''@''" using Cons.prems by (auto simp: gfx9_regs_def)
  ultimately have f: "umr_find_reg_by_name demo_wave_dev n = Some (Some (0, k), Quiet, demo_wave_dev)"
    using demo_find [of n k None "- 2" demo_wave_dev] by (simp add: umr_find_reg_by_name_def demo_blocks_wave)
  obtain v where "wave_read_ind demo_sq (ind_fields_9 simd wave (ucast (reg_addr (reg_at (asic_blocks demo_wave_dev) (0, k))))) (demo_wave_dev, w) =
      Some (v, (demo_wave_dev, v))" using demo_ind_read by blast
  then show ?case using f Cons.IH [of v] Cons.prems by auto
qed simp


subsection \<open>The scan reports every wave once\<close>

definition wave_coord :: "umr_wave_data \<Rightarrow> u32 \<times> u32 \<times> u32 \<times> u32 \<times> u32" where
  "wave_coord wd = (wd_se wd, wd_sh wd, wd_cu wd, wd_simd wd, wd_wave wd)"

text \<open>The slots of a device, in the order of the engines, arrays, units, SIMDs and slots.\<close>

definition all_slots :: "umr_asic \<Rightarrow> umr_ip_block \<Rightarrow> (u32 \<times> u32 \<times> u32 \<times> u32 \<times> u32) list" where
  "all_slots asic ip =
     (let gfx = cfg_gfx (asic_config asic) in
      concat (map (\<lambda>se. concat (map (\<lambda>sh. concat (map (\<lambda>cu. concat (map (\<lambda>simd. map (\<lambda>wave. (se, sh, cu, simd, wave))
        (upto_u32 (wave_limit ip))) (upto_u32 4)))
        (upto_u32 (if asic_family asic \<le> FAMILY_AI then gfx_max_cu_per_sh gfx else gfx_max_cu_per_sh gfx div 2))))
        (upto_u32 (gfx_max_sh_per_se gfx)))) (upto_u32 (gfx_max_shader_engines gfx))))"

text \<open>The instance by which the SQ of a slot is asked whether it is busy.\<close>

definition busy_instance :: "umr_asic \<Rightarrow> u32 \<Rightarrow> u32 \<Rightarrow> u32" where
  "busy_instance asic cu simd = (if asic_family asic \<le> FAMILY_AI then cu else MANY_TO_INSTANCE cu simd)"

text \<open>
  A device that stands still while it is scanned: the queries do not change the state and answer by
  place alone.
\<close>

definition steady ::
    "string list \<Rightarrow> 'w wave_funcs \<Rightarrow> umr_asic \<times> 'w \<Rightarrow> (u32 \<Rightarrow> u32 \<Rightarrow> u32 \<Rightarrow> bool) \<Rightarrow> (u32 \<times> u32 \<times> u32 \<times> u32 \<times> u32 \<Rightarrow> bool) \<Rightarrow> bool" where
  "steady names W s busy found \<longleftrightarrow>
     (\<forall>se sh inst ws. \<exists>r ws'. get_wave_sq_info W se sh inst ws s = Some ((r, ws'), s) \<and> (ws_busy ws' \<noteq> 0 \<longleftrightarrow> busy se sh inst)) \<and>
     (\<forall>se sh cu simd wave wd. wd_reg_names wd = Some names \<longrightarrow>
        (\<exists>wd'. umr_scan_wave_slot W se sh cu simd wave wd s = Some ((of_bool (found (se, sh, cu, simd, wave)), wd'), s)))"

definition yields :: "string list \<Rightarrow> umr_asic \<times> 'w \<Rightarrow> 'w scan_op \<Rightarrow> (u32 \<times> u32 \<times> u32 \<times> u32 \<times> u32) list \<Rightarrow> bool" where
  "yields names s f cs \<longleftrightarrow> (\<forall>wd. wd_reg_names wd = Some names \<longrightarrow>
     (\<exists>ws wd'. f wd s = Some ((Some ws, wd'), s) \<and> map wave_coord ws = cs \<and> wd_reg_names wd' = Some names))"

lemma yields_all:
  assumes "\<And>x. yields names s (f x) (h x)"
  shows "yields names s (scan_all f xs) (concat (map h xs))"
proof (induction xs)
  case (Cons x xs)
  show ?case unfolding yields_def
  proof (intro allI impI)
    fix wd :: umr_wave_data assume "wd_reg_names wd = Some names"
    then obtain ws wd1 where a: "f x wd s = Some ((Some ws, wd1), s)" "map wave_coord ws = h x" "wd_reg_names wd1 = Some names"
      using assms [of x] unfolding yields_def by blast
    moreover obtain vs wd2 where "scan_all f xs wd1 s = Some ((Some vs, wd2), s)" "map wave_coord vs = concat (map h xs)" "wd_reg_names wd2 = Some names"
      using Cons a(3) unfolding yields_def by blast
    ultimately show "\<exists>ws wd'. scan_all f (x # xs) wd s = Some ((Some ws, wd'), s) \<and> map wave_coord ws = concat (map h (x # xs)) \<and> wd_reg_names wd' = Some names"
      by simp
  qed
qed (simp add: yields_def)

lemma read_threads_frame:
  "read_threads k W t wd s = Some (wd', s') \<Longrightarrow> wave_coord wd' = wave_coord wd \<and> wd_reg_names wd' = wd_reg_names wd"
proof (induction k arbitrary: t wd s)
  case (Suc k)
  then show ?case by (fastforce simp: Let_def wave_coord_def split: bind_splits if_splits)
qed simp

lemma scan_wave_slot_frame:
  assumes "umr_scan_wave_slot W se sh cu simd wave wd s = Some ((r, wd'), s')"
  shows "wd_reg_names wd' = wd_reg_names wd \<and> (r = 1 \<longrightarrow> wave_coord wd' = (se, sh, cu, simd, wave))"
  using assms
  by (auto simp: umr_scan_wave_slot_def read_gprs_def Let_def split: bind_splits if_splits dest!: read_threads_frame)
    (simp_all add: wave_coord_def)

lemma yields_slot:
  assumes "steady names W s busy found"
  shows "yields names s (scan_slot W se sh cu simd wave) (filter found [(se, sh, cu, simd, wave)])"
  unfolding yields_def
proof (intro allI impI)
  fix wd :: umr_wave_data assume n: "wd_reg_names wd = Some names"
  then obtain wd' where w: "umr_scan_wave_slot W se sh cu simd wave wd s = Some ((of_bool (found (se, sh, cu, simd, wave)), wd'), s)"
    using assms unfolding steady_def by blast
  then show "\<exists>ws wd'. scan_slot W se sh cu simd wave wd s = Some ((Some ws, wd'), s) \<and> map wave_coord ws = filter found [(se, sh, cu, simd, wave)] \<and>
      wd_reg_names wd' = Some names"
    using n scan_wave_slot_frame [OF w] by (cases "found (se, sh, cu, simd, wave)") (auto simp: scan_slot_def zero_wave_def)
qed

lemma yields_simd:
  assumes "steady names W s busy found" and "umr_find_ip_block (asic_blocks (fst s)) ''gfx'' (opt_vm_partition (asic_options (fst s))) = Some ip"
  shows "yields names s (umr_scan_wave_simd W se sh cu simd) (filter found (map (\<lambda>wave. (se, sh, cu, simd, wave)) (upto_u32 (wave_limit ip))))"
proof -
  have "concat (map (\<lambda>wave. filter found [(se, sh, cu, simd, wave)]) xs) = filter found (map (\<lambda>wave. (se, sh, cu, simd, wave)) xs)" for xs
    by (induction xs) auto
  then show ?thesis
    using yields_all [of names s "scan_slot W se sh cu simd", OF yields_slot [OF assms(1)]] assms(2)
    by (simp add: yields_def umr_scan_wave_simd_def)
qed

lemma yields_busy:
  assumes "steady names W s busy found" and "yields names s f cs"
  shows "yields names s (when_busy W se sh inst f) (if busy se sh inst then cs else [])"
  unfolding yields_def
proof (intro allI impI)
  fix wd :: umr_wave_data assume n: "wd_reg_names wd = Some names"
  obtain r ws where q: "get_wave_sq_info W se sh inst (wd_ws wd) s = Some ((r, ws), s)" "ws_busy ws \<noteq> 0 \<longleftrightarrow> busy se sh inst"
    using assms(1) unfolding steady_def by blast
  have "wd_reg_names (wd\<lparr>wd_ws := ws\<rparr>) = Some names" using n by simp
  then obtain vs wd' where "f (wd\<lparr>wd_ws := ws\<rparr>) s = Some ((Some vs, wd'), s)" "map wave_coord vs = cs" "wd_reg_names wd' = Some names"
    using assms(2) unfolding yields_def by blast
  then show "\<exists>ws wd'. when_busy W se sh inst f wd s = Some ((Some ws, wd'), s) \<and>
      map wave_coord ws = (if busy se sh inst then cs else []) \<and> wd_reg_names wd' = Some names"
    using q n by (simp add: when_busy_def Let_def)
qed

text \<open>The waves that a scan should report.\<close>

definition wanted :: "umr_asic \<Rightarrow> (u32 \<Rightarrow> u32 \<Rightarrow> u32 \<Rightarrow> bool) \<Rightarrow> (u32 \<times> u32 \<times> u32 \<times> u32 \<times> u32 \<Rightarrow> bool) \<Rightarrow> u32 \<times> u32 \<times> u32 \<times> u32 \<times> u32 \<Rightarrow> bool" where
  "wanted asic busy found c = (case c of (se, sh, cu, simd, wave) \<Rightarrow> busy se sh (busy_instance asic cu simd) \<and> found c)"

lemma filter_wanted:
  "filter (wanted asic busy found) (map (\<lambda>wave. (se, sh, cu, simd, wave)) xs) =
   (if busy se sh (busy_instance asic cu simd) then filter found (map (\<lambda>wave. (se, sh, cu, simd, wave)) xs) else [])"
  by (induction xs) (auto simp: wanted_def)

lemma filter_concat_map: "filter P (concat (map f xs)) = concat (map (\<lambda>x. filter P (f x)) xs)"
  by (simp add: filter_concat comp_def)

lemma yields_sh:
  assumes "steady names W s busy found" and "umr_find_ip_block (asic_blocks (fst s)) ''gfx'' (opt_vm_partition (asic_options (fst s))) = Some ip"
  shows "yields names s (scan_sh W se sh) (filter (wanted (fst s) busy found)
    (concat (map (\<lambda>cu. concat (map (\<lambda>simd. map (\<lambda>wave. (se, sh, cu, simd, wave)) (upto_u32 (wave_limit ip))) (upto_u32 4)))
      (upto_u32 (if asic_family (fst s) \<le> FAMILY_AI then gfx_max_cu_per_sh (cfg_gfx (asic_config (fst s)))
                 else gfx_max_cu_per_sh (cfg_gfx (asic_config (fst s))) div 2)))))"
proof (cases "asic_family (fst s) \<le> FAMILY_AI")
  case True
  let ?u = "\<lambda>cu simd. filter found (map (\<lambda>wave. (se, sh, cu, simd, wave)) (upto_u32 (wave_limit ip)))"
  have "yields names s (when_busy W se sh cu (scan_all (umr_scan_wave_simd W se sh cu) (upto_u32 4)))
      (if busy se sh cu then concat (map (?u cu) (upto_u32 4)) else [])" for cu
    by (intro yields_busy [OF assms(1)] yields_all yields_simd [OF assms])
  from yields_all [of names s "\<lambda>cu. when_busy W se sh cu (scan_all (umr_scan_wave_simd W se sh cu) (upto_u32 4))", OF this]
  have y: "yields names s (scan_all (\<lambda>cu. when_busy W se sh cu (scan_all (umr_scan_wave_simd W se sh cu) (upto_u32 4))) xs)
      (concat (map (\<lambda>cu. if busy se sh cu then concat (map (?u cu) (upto_u32 4)) else []) xs))" for xs .
  have "filter (wanted (fst s) busy found) (concat (map (\<lambda>simd. map (\<lambda>wave. (se, sh, cu, simd, wave)) (upto_u32 (wave_limit ip))) (upto_u32 4))) =
      (if busy se sh cu then concat (map (?u cu) (upto_u32 4)) else [])" for cu
    using True by (auto simp: filter_concat_map filter_wanted busy_instance_def)
  then show ?thesis using y True by (simp add: yields_def scan_sh_def Let_def filter_concat_map)
next
  case False
  let ?u = "\<lambda>cu simd. filter found (map (\<lambda>wave. (se, sh, cu, simd, wave)) (upto_u32 (wave_limit ip)))"
  let ?f = "\<lambda>wgp simd. when_busy W se sh (MANY_TO_INSTANCE wgp simd) (umr_scan_wave_simd W se sh wgp simd)"
  have "yields names s (scan_all (?f wgp) (upto_u32 4))
      (concat (map (\<lambda>simd. if busy se sh (MANY_TO_INSTANCE wgp simd) then ?u wgp simd else []) (upto_u32 4)))" for wgp
    by (intro yields_all yields_busy [OF assms(1)] yields_simd [OF assms])
  from yields_all [of names s "\<lambda>wgp. scan_all (?f wgp) (upto_u32 4)", OF this]
  have y: "yields names s (scan_all (\<lambda>wgp. scan_all (?f wgp) (upto_u32 4)) xs)
      (concat (map (\<lambda>wgp. concat (map (\<lambda>simd. if busy se sh (MANY_TO_INSTANCE wgp simd) then ?u wgp simd else []) (upto_u32 4))) xs))" for xs .
  then show ?thesis using False by (simp add: yields_def scan_sh_def Let_def filter_concat_map filter_wanted busy_instance_def)
qed


lemma distinct_concat_map:
  assumes "distinct xs" and "\<And>x. distinct (f x)" and "\<And>x y z. z \<in> set (f x) \<Longrightarrow> z \<in> set (f y) \<Longrightarrow> x = y"
  shows "distinct (concat (map f xs))"
  using assms(1)
proof (induction xs)
  case (Cons x xs)
  then show ?case using assms(2) [of x] assms(3) by (auto dest: assms(3))
qed simp

lemma distinct_upto_u32: "distinct (upto_u32 n)"
proof -
  have "unat (of_nat i :: u32) = i" if "i < unat n" for i
    using that unsigned_less [where 'a = nat, of n] by (intro unat_of_length) simp
  then have "inj_on (of_nat :: nat \<Rightarrow> u32) {0..<unat n}" by (intro inj_onI) (metis atLeastLessThan_iff)
  then show ?thesis by (simp add: upto_u32_def distinct_map)
qed

lemma distinct_all_slots: "distinct (all_slots asic ip)"
  unfolding all_slots_def Let_def
  by (intro distinct_concat_map distinct_upto_u32) (auto simp: distinct_map distinct_upto_u32 inj_on_def)

text \<open>C11: On a device that stands still the scan reports exactly the waves of the busy units, in the order of their
  places and each of them once, whatever was left in the node that it fills.\<close>

theorem scan_reports_waves:
  assumes "umr_gfx_get_ip_ver (fst s) = Some (maj, mi)" and "wave_regs maj = Some names"
    and "umr_find_ip_block (asic_blocks (fst s)) ''gfx'' (opt_vm_partition (asic_options (fst s))) = Some ip"
    and "steady names W s busy found"
  shows "\<exists>ws. umr_scan_wave_data W s = Some (ws, s) \<and>
    map wave_coord ws = filter (wanted (fst s) busy found) (all_slots (fst s) ip) \<and> distinct (map wave_coord ws)"
proof -
  let ?gfx = "cfg_gfx (asic_config (fst s))"
  have "yields names s (scan_all (\<lambda>se. scan_all (scan_sh W se) (upto_u32 (gfx_max_sh_per_se ?gfx))) (upto_u32 (gfx_max_shader_engines ?gfx)))
      (filter (wanted (fst s) busy found) (all_slots (fst s) ip))"
    unfolding all_slots_def Let_def filter_concat_map [of _ _ "upto_u32 (gfx_max_shader_engines ?gfx)"]
      filter_concat_map [of _ _ "upto_u32 (gfx_max_sh_per_se ?gfx)"]
    by (intro yields_all yields_sh [OF assms(4,3)])
  moreover have z: "wd_reg_names (zero_wave (Some names)) = Some names" by (simp add: zero_wave_def)
  ultimately obtain ws wd' where "scan_all (\<lambda>se. scan_all (scan_sh W se) (upto_u32 (gfx_max_sh_per_se ?gfx))) (upto_u32 (gfx_max_shader_engines ?gfx))
      (zero_wave (Some names)) s = Some ((Some ws, wd'), s)" "map wave_coord ws = filter (wanted (fst s) busy found) (all_slots (fst s) ip)"
    using z unfolding yields_def by blast
  then show ?thesis using assms(1,2) distinct_all_slots [of "fst s" ip]
    by (auto simp: umr_scan_wave_data_def umr_wave_data_init_def Let_def intro: distinct_filter)
qed

text \<open>Two units, of which the second one is busy and has a wave in the third slot of every SIMD.\<close>

definition demo_scan_dev :: umr_asic where
  "demo_scan_dev = demo_wave_dev\<lparr>asic_config := zero_config\<lparr>cfg_gfx := zero_gfx_config\<lparr>gfx_max_shader_engines := 1, gfx_max_sh_per_se := 1, gfx_max_cu_per_sh := 2\<rparr>\<rparr>,
     asic_options := zero_options\<lparr>opt_vm_partition := - 1, opt_skip_gprs := True\<rparr>\<rparr>"

definition demo_waves :: "u32 wave_funcs" where
  "demo_waves = \<lparr>
     get_wave_status = (\<lambda>se sh cu simd wave ws s. Some ((0, ws\<lparr>ws_reg_values := [if cu = 1 \<and> wave = 2 then 0x10000 else 0]\<rparr>), s)),
     get_wave_sq_info = (\<lambda>se sh inst ws s. Some ((0, ws\<lparr>ws_busy := if inst = 1 then 1 else 0\<rparr>), s)),
     read_vgprs = (\<lambda>wd t dst s. Some ((0, dst), s)), read_sgprs = (\<lambda>wd dst s. Some ((0, dst), s))\<rparr>"

lemma demo_scan_blocks: "asic_blocks demo_scan_dev = [demo_block ''gfx90'' demo_wave_regs]" "opt_vm_partition (asic_options demo_scan_dev) = - 1"
    "asic_family demo_scan_dev = FAMILY_AI" "opt_skip_gprs (asic_options demo_scan_dev)"
  by (simp_all add: demo_scan_dev_def demo_wave_dev_def demo_dev_def)

lemma demo_status_found: "search_block (demo_block ''gfx90'' demo_wave_regs) ''ixSQ_WAVE_STATUS'' = Some 13"
  using demo_search by (simp add: gfx9_regs_def)

lemma demo_ver: "umr_gfx_get_ip_ver demo_scan_dev = Some (9, 0)"
  by code_simp

lemma demo_status_bits:
  assumes "wd_reg_names wd = Some gfx9_regs" and "ws_reg_values (wd_ws wd) = [v]" and "v = 0 \<or> v = 0x10000"
  shows "umr_wave_data_get_bits wd ''ixSQ_WAVE_STATUS'' ''VALID'' (demo_scan_dev, w) = Some (drop_bit 16 v, (demo_scan_dev, w))"
    and "umr_wave_data_get_bits wd ''ixSQ_WAVE_STATUS'' ''HALT'' (demo_scan_dev, w) = Some (0, (demo_scan_dev, w))"
  using assms demo_find [OF demo_status_found, of "Some ''gfx''" "- 1" demo_scan_dev]
  by (auto simp: umr_wave_data_get_bits_def umr_wave_data_get_value_def gfx9_regs_def umr_bitslice_reg_by_name_by_ip_by_instance_def
      umr_find_reg_data_by_ip_by_instance_def with_reg_def demo_scan_blocks umr_bitslice_reg_def find_bit_def bf_slice_def bf_mask_def
      shl64_def shr64_def reg_at_def demo_block_def demo_wave_regs_def demo_reg_def)

lemma demo_steady: "steady gfx9_regs demo_waves (demo_scan_dev, w) (\<lambda>se sh inst. inst = 1) (\<lambda>(se, sh, cu, simd, wave). cu = 1 \<and> wave = 2)"
  unfolding steady_def
proof (intro conjI allI impI)
  fix se sh inst ws
  show "\<exists>r ws'. get_wave_sq_info demo_waves se sh inst ws (demo_scan_dev, w) = Some ((r, ws'), (demo_scan_dev, w)) \<and> (ws_busy ws' \<noteq> 0 \<longleftrightarrow> inst = 1)"
    by (simp add: demo_waves_def)
next
  fix se sh cu simd wave and wd :: umr_wave_data
  assume n: "wd_reg_names wd = Some gfx9_regs"
  show "\<exists>wd'. umr_scan_wave_slot demo_waves se sh cu simd wave wd (demo_scan_dev, w) =
      Some ((of_bool (case (se, sh, cu, simd, wave) of (se, sh, cu, simd, wave) \<Rightarrow> cu = 1 \<and> wave = 2), wd'), (demo_scan_dev, w))"
    using n demo_status_bits [of "wd\<lparr>wd_ws := (wd_ws wd)\<lparr>ws_reg_values := [if cu = 1 \<and> wave = 2 then 0x10000 else 0]\<rparr>\<rparr>"
        "if cu = 1 \<and> wave = 2 then 0x10000 else 0" w]
    by (auto simp: umr_scan_wave_slot_def demo_waves_def demo_scan_blocks wave_present_def umr_wave_data_get_flag_valid_def
        umr_wave_data_get_flag_halt_def wave_flag_def demo_ver known_gfx_def Let_def)
qed

theorem scan_reports_waves_witness:
  "\<exists>ws. umr_scan_wave_data demo_waves (demo_scan_dev, 0) = Some (ws, (demo_scan_dev, 0)) \<and>
     map wave_coord ws = [(0, 0, 1, 0, 2), (0, 0, 1, 1, 2), (0, 0, 1, 2, 2), (0, 0, 1, 3, 2)]"
proof -
  let ?ip = "demo_block ''gfx90'' demo_wave_regs"
  have ip: "umr_find_ip_block (asic_blocks demo_scan_dev) ''gfx'' (opt_vm_partition (asic_options demo_scan_dev)) = Some ?ip"
    by (simp add: demo_scan_blocks demo_block_def ip_prefix_def)
  have "filter (wanted demo_scan_dev (\<lambda>se sh inst. inst = 1) (\<lambda>(se, sh, cu, simd, wave). cu = 1 \<and> wave = 2)) (all_slots demo_scan_dev ?ip) =
      [(0, 0, 1, 0, 2), (0, 0, 1, 1, 2), (0, 0, 1, 2, 2), (0, 0, 1, 3, 2)]"
    by code_simp
  then show ?thesis
    using scan_reports_waves [of "(demo_scan_dev, 0)" 9 0 gfx9_regs ?ip demo_waves, OF _ _ _ demo_steady] demo_ver ip
    by (auto simp: wave_regs_def)
qed

subsection \<open>General purpose registers are read four times\<close>

lemma read_words_length: "read_words n F a s = Some (ws, s') \<Longrightarrow> length ws = n"
  by (induction n arbitrary: s ws) (fastforce split: bind_splits)+

lemma wave_read_length: "wave_read_regs_via_mmio F simd wave t r num s = Some (ws, s') \<Longrightarrow> ws = [] \<or> length ws = unat num"
  by (auto simp: wave_read_regs_via_mmio_def Let_def split: bind_splits option.splits dest!: read_words_length)


text \<open>A wave with four vector registers, for which sixteen words are stored.\<close>

lemma demo_absent_bits:
  assumes "n = ''ixSQ_WAVE_HW_ID'' \<or> n = ''ixSQ_WAVE_GPR_ALLOC''"
  shows "umr_wave_data_get_bits (zero_wave (Some gfx9_regs)) n b (demo_wave_dev, w) = Some (0, (demo_wave_dev, w))"
proof -
  obtain k where k: "search_block (demo_block ''gfx90'' demo_wave_regs) n = Some k" and "k = 2 \<or> k = 3"
    using demo_search assms by (auto simp: gfx9_regs_def)
  then have "reg_bits (reg_at [demo_block ''gfx90'' demo_wave_regs] (0, k)) = []"
    by (auto simp: reg_at_def demo_block_def demo_wave_regs_def demo_reg_def)
  then have z: "umr_bitslice_reg (reg_at [demo_block ''gfx90'' demo_wave_regs] (0, k)) b v = Some 0" for v
    by (simp add: umr_bitslice_reg_def find_bit_def)
  have "umr_wave_data_get_value (zero_wave (Some gfx9_regs)) n = Some 0"
    using assms by (auto simp: umr_wave_data_get_value_def zero_wave_def gfx9_regs_def word_at_def)
  then show ?thesis using demo_find [OF k, of "Some ''gfx''" "- 1" demo_wave_dev] assms z
    by (auto simp: umr_wave_data_get_bits_def umr_bitslice_reg_by_name_by_ip_by_instance_def umr_find_reg_data_by_ip_by_instance_def
        with_reg_def demo_blocks_wave)
qed

lemma demo_read_words: "read_words n demo_sq a (dev, v) = Some (replicate n v, (dev, v))"
  by (induction n) (simp_all add: demo_sq_def)

lemma demo_gpr_read: "\<exists>v. wave_read_regs_via_mmio demo_sq simd wave t r num (demo_wave_dev, w) = Some (replicate (unat num) v, (demo_wave_dev, v))"
proof -
  have i: "ind_regs demo_wave_dev = Some (Some (reg_at [demo_block ''gfx90'' demo_wave_regs] (0, 17), reg_at [demo_block ''gfx90'' demo_wave_regs] (0, 16)), demo_wave_dev)"
    using demo_find [OF demo_found(1), of "Some ''gfx''" "- 1" demo_wave_dev] demo_find [OF demo_found(2), of "Some ''gfx''" "- 1" demo_wave_dev]
    by (simp add: ind_regs_def umr_find_reg_data_by_ip_by_instance_def demo_blocks_wave Let_def)
  have c: "\<exists>v. compose_all (reg_at [demo_block ''gfx90'' demo_wave_regs] (0, 17)) fs x = Some v" for fs x
  proof (induction fs arbitrary: x)
    case (Cons f fs)
    have "\<exists>v. umr_bitslice_compose_value (reg_at [demo_block ''gfx90'' demo_wave_regs] (0, 17)) n u = Some v" for n u
      by (simp add: reg_at_def demo_block_def demo_wave_regs_def demo_reg_def umr_bitslice_compose_value_def find_bit_def bf_mask_def shl64_def)
    then show ?case using Cons by (cases f) (metis bind.bind_lunit compose_all.simps(2))
  qed simp
  have w: "write_reg demo_sq a v c (demo_wave_dev, w) = Some (0, (demo_wave_dev, v))" for a v c by (simp add: demo_sq_def)
  obtain v where "compose_all (reg_at [demo_block ''gfx90'' demo_wave_regs] (0, 17))
      ([(''WAVE_ID'', ucast wave), (''INDEX'', ucast r)] @ [(''THREAD_ID'', ucast t), (''FORCE_READ'', 1), (''SIMD_ID'', ucast simd)] @ [(''AUTO_INCR'', 1)]) 0 = Some v"
    using c by blast
  then show ?thesis using i by (auto simp: wave_read_regs_via_mmio_def demo_blocks_wave w demo_read_words simp del: compose_all.simps)
qed


end
