(* ===== verification/Ih_Vectors.thy ===== *)
theory Ih_Vectors
  imports Packet_Frame
begin

unbundle bit_operations_syntax

text \<open>
  The decoder of interrupt vectors (\<^verbatim>\<open>src/lib/ih_decode_vectors.c\<close>).  The calls to the user interface are
  events; their values have the type of the callback's parameter, 32 bits.
\<close>

datatype ih_event = Start_vector u32 | Vector_field u32 string u32 nat | Vector_done

definition BITS :: "u32 \<Rightarrow> nat \<Rightarrow> nat \<Rightarrow> u64" where
  "BITS x a b = ucast (drop_bit a x) AND (push_bit (b - a) 1 - 1)"

definition vi_vector :: "u32 \<Rightarrow> u32 list \<Rightarrow> ih_event list" where
  "vi_vector off ih =
     [Start_vector off,
      Vector_field (off + 0) ''SourceID'' (ucast (BITS (ih ! 0) 0 8)) 10,
      Vector_field (off + 1) ''SourceData'' (ucast (BITS (ih ! 1) 0 24)) 16,
      Vector_field (off + 2) ''VMID'' (ucast (BITS (ih ! 2) 8 16)) 10,
      Vector_field (off + 2) ''PASID'' (ucast (BITS (ih ! 2) 16 32)) 10,
      Vector_field (off + 3) ''ContextID0'' (ih ! 3) 16,
      Vector_done]"

definition oss_vector :: "u32 \<Rightarrow> u32 list \<Rightarrow> ih_event list" where
  "oss_vector off ih =
     [Start_vector off,
      Vector_field (off + 0) ''ClientID'' (ucast (BITS (ih ! 0) 0 8)) 10,
      Vector_field (off + 0) ''SourceID'' (ucast (BITS (ih ! 0) 8 16)) 10,
      Vector_field (off + 0) ''RingID'' (ucast (BITS (ih ! 0) 16 24)) 10,
      Vector_field (off + 0) ''VMID'' (ucast (BITS (ih ! 0) 24 28)) 10,
      Vector_field (off + 0) ''VMID_TYPE'' (ucast (BITS (ih ! 0) 31 32)) 10,
      Vector_field (off + 1) ''Timestamp'' (ucast (ucast (ih ! 1) + push_bit 32 (BITS (ih ! 2) 0 16))) 10,
      Vector_field (off + 2) ''Timestamp_SRC'' (ucast (BITS (ih ! 2) 31 32)) 10,
      Vector_field (off + 3) ''PASID'' (ucast (BITS (ih ! 3) 0 16)) 16,
      Vector_field (off + 4) ''ContextID0'' (ih ! 4) 16,
      Vector_field (off + 5) ''ContextID1'' (ih ! 5) 16,
      Vector_field (off + 6) ''ContextID2'' (ih ! 6) 16,
      Vector_field (off + 7) ''ContextID3'' (ih ! 7) 16,
      Vector_done]"

text \<open>
  The loop over vectors of \<open>k\<close> words, on what is left of the array.  The number of bytes left is
  only compared with zero, so it may wrap around; a vector that is not in the array is a read outside
  of it.  \<open>k\<close> is 4 or 8.
\<close>

function ih_loop :: "nat \<Rightarrow> (u32 \<Rightarrow> u32 list \<Rightarrow> ih_event list) \<Rightarrow> u32 list \<Rightarrow> u32 \<Rightarrow> u32 \<Rightarrow> (ih_event list \<times> u32) option" where
  "ih_loop k vec ih off len =
     (if len = 0 then Some ([], off)
      else if k = 0 \<or> length ih < k then None
      else do {
        (es, n) \<leftarrow> ih_loop k vec (drop k ih) (off + of_nat k) (len - of_nat (4 * k));
        Some (vec off (take k ih) @ es, n) })"
  by pat_completeness auto
termination
  by (relation "measure (\<lambda>(_, _, ih, _, _). length ih)") auto

declare ih_loop.simps [simp del]

definition umr_ih_decode_vectors :: "chipfamily \<Rightarrow> u32 list \<Rightarrow> u32 \<Rightarrow> (ih_event list \<times> int) option" where
  "umr_ih_decode_vectors family ih_data len =
     (if family = FAMILY_VI then do {
        (es, off) \<leftarrow> ih_loop 4 vi_vector ih_data 0 len;
        Some (es, sint (off div 4)) }
      else if family = FAMILY_NV \<or> family = FAMILY_AI \<or> family = FAMILY_GFX11 then do {
        (es, off) \<leftarrow> ih_loop 8 oss_vector ih_data 0 len;
        Some (es, sint (off div 8)) }
      else Some ([], - 1))"

subsection \<open>Whole vectors are decoded, anything else runs off the array\<close>

definition vectors_from :: "nat \<Rightarrow> (u32 \<Rightarrow> u32 list \<Rightarrow> ih_event list) \<Rightarrow> u32 \<Rightarrow> u32 list \<Rightarrow> nat \<Rightarrow> ih_event list" where
  "vectors_from k vec off ih n = concat (map (\<lambda>i. vec (off + of_nat (k * i)) (take k (drop (k * i) ih))) [0..<n])"

lemma vectors_from_Suc:
  "vectors_from k vec off ih (Suc n) = vec off (take k ih) @ vectors_from k vec (off + of_nat k) (drop k ih) n"
proof -
  have "[0..<Suc n] = 0 # map Suc [0..<n]" by (simp add: upt_conv_Cons map_Suc_upt)
  then show ?thesis by (simp add: vectors_from_def comp_def algebra_simps del: upt_Suc)
qed

lemma ih_loop_whole:
  "unat len = 4 * k * n \<Longrightarrow> k * n \<le> length ih \<Longrightarrow> 0 < k \<Longrightarrow>
   ih_loop k vec ih off len = Some (vectors_from k vec off ih n, off + of_nat (k * n))"
proof (induction n arbitrary: ih off len)
  case 0
  then have "len = 0" by (simp add: unat_eq_zero)
  then show ?case by (simp add: ih_loop.simps vectors_from_def)
next
  case (Suc n)
  have "4 * k \<le> unat len" unfolding Suc.prems(1) by simp
  then have "4 * k < 2 ^ 32" using unsigned_less [where 'a = nat, of len] by simp
  then have u: "unat (of_nat (4 * k) :: u32) = 4 * k" by (rule unat_of_length)
  have "len \<noteq> 0" using Suc.prems(1,3) by auto
  have "unat (len - of_nat (4 * k)) = unat len - 4 * k"
    using u Suc.prems(1) by (subst unat_sub) (simp_all add: word_le_nat_alt del: of_nat_mult)
  then have "unat (len - of_nat (4 * k)) = 4 * k * n" using Suc.prems(1) by simp
  then have "ih_loop k vec (drop k ih) (off + of_nat k) (len - of_nat (4 * k)) =
      Some (vectors_from k vec (off + of_nat k) (drop k ih) n, off + of_nat k + of_nat (k * n))"
    using Suc.IH [of "len - of_nat (4 * k)" "drop k ih" "off + of_nat k"] Suc.prems by simp
  then show ?case using \<open>len \<noteq> 0\<close> Suc.prems
    by (subst ih_loop.simps) (simp add: vectors_from_Suc algebra_simps)
qed

lemma ih_loop_ragged:
  assumes "4 * k dvd 2 ^ 32" and "4 * k < 2 ^ 32"
  shows "\<not> 4 * k dvd unat len \<Longrightarrow> ih_loop k vec ih off len = None"
proof (induction "length ih" arbitrary: ih off len rule: less_induct)
  case less
  have "len \<noteq> 0" using less.prems by auto
  show ?case
  proof (cases "k = 0 \<or> length ih < k")
    case False
    let ?l = "len - of_nat (4 * k)"
    have u: "unat (of_nat (4 * k) :: u32) = 4 * k" using assms(2) by (rule unat_of_length)
    have "\<not> 4 * k dvd unat ?l"
    proof (cases "4 * k \<le> unat len")
      case True
      then have "unat ?l = unat len - 4 * k" using u by (subst unat_sub) (simp_all add: word_le_nat_alt del: of_nat_mult)
      then show ?thesis using True less.prems by (simp add: dvd_minus_self)
    next
      case F: False
      then have "unat ?l + 4 * k = unat len + 2 ^ 32"
        using u assms(2) by (simp add: unat_sub_if' word_le_nat_alt del: of_nat_mult)
      then show ?thesis using less.prems assms(1) by (metis dvd_add_left_iff dvd_refl)
    qed
    then have "ih_loop k vec (drop k ih) (off + of_nat k) ?l = None" 
      using less.hyps [of "drop k ih" ?l "off + of_nat k"] False by fastforce
    then show ?thesis using \<open>len \<noteq> 0\<close> by (subst ih_loop.simps) simp
  qed (use \<open>len \<noteq> 0\<close> in \<open>subst ih_loop.simps, simp\<close>)
qed

lemma vector_count:
  assumes "4 * length ih < 2 ^ 32" and "k * n \<le> length ih" and "k = 4 \<or> k = 8"
  shows "sint ((of_nat (k * n) :: u32) div of_nat k) = int n"
proof -
  have u: "unat (of_nat (k * n) :: u32) = k * n" using assms by (intro unat_of_length) simp
  have k: "unat (of_nat k :: u32) = k" using assms(3) by (intro unat_of_length) auto
  have "unat ((of_nat (k * n) :: u32) div of_nat k) = n" unfolding unat_div u k using assms(3) by auto
  then have e: "(of_nat (k * n) :: u32) div of_nat k = of_nat n" by (metis of_nat_unat ucast_id)
  have "n < 2 ^ 31" using assms by auto
  then have "signed_take_bit 31 (int n) = int n" by (intro signed_take_bit_int_eq_self) simp_all
  then have "sint (of_int (int n) :: u32) = int n" by (simp only: sint_sbintrunc') simp
  then show ?thesis unfolding e by simp
qed

text \<open>C19: On an array that holds the bytes it is told of, the decoder presents every vector with the position and
  the fields it has, and returns their number, exactly when these bytes are whole vectors; otherwise the count of
  bytes never reaches zero and the loop reads past the array.\<close>

theorem ih_decode_correct:
  assumes "family \<in> {FAMILY_VI, FAMILY_AI, FAMILY_NV, FAMILY_GFX11}"
    and "k = (if family = FAMILY_VI then 4 else 8)" and "vec = (if family = FAMILY_VI then vi_vector else oss_vector)"
    and "unat len \<le> 4 * length ih" and "4 * length ih < 2 ^ 32"
  shows "umr_ih_decode_vectors family ih len =
    (if 4 * k dvd unat len then Some (vectors_from k vec 0 ih (unat len div (4 * k)), int (unat len div (4 * k))) else None)"
proof -
  have k: "k = 4 \<or> k = 8" using assms(2) by simp
  have d: "umr_ih_decode_vectors family ih len = map_option (\<lambda>(es, off). (es, sint (off div of_nat k))) (ih_loop k vec ih 0 len)"
    using assms(1-3) by (auto simp: umr_ih_decode_vectors_def split: option.split bind_splits)
  show ?thesis
  proof (cases "4 * k dvd unat len")
    case True
    then obtain n where n: "unat len = 4 * k * n" by (elim dvdE)
    then have "k * n \<le> length ih" using assms(4) by simp
    then show ?thesis using d ih_loop_whole [OF n] vector_count [OF assms(5) _ k, of n] k n by auto
  next
    case False
    then show ?thesis using d ih_loop_ragged [of k len] k by auto
  qed
qed

theorem ih_decode_correct_witness:
  "umr_ih_decode_vectors FAMILY_VI [1, 2, 3, 4, 5, 6, 7, 8] 32 = Some (vectors_from 4 vi_vector 0 [1, 2, 3, 4, 5, 6, 7, 8] 2, 2) \<and>
   umr_ih_decode_vectors FAMILY_AI [1, 2, 3, 4, 5, 6, 7, 8] 16 = None"
  using ih_decode_correct [of FAMILY_VI 4 vi_vector 32 "[1, 2, 3, 4, 5, 6, 7, 8]"]
    ih_decode_correct [of FAMILY_AI 8 oss_vector 16 "[1, 2, 3, 4, 5, 6, 7, 8]"] by simp

lemma ucast_add_down: "(ucast (a + b) :: u32) = ucast a + ucast b" for a b :: u64
  by transfer (simp, rule trans [OF take_bit_add [symmetric] trans [OF _ take_bit_add]], simp)

text \<open>The time stamp has 48 bits, of which the callback, whose value has 32, receives only the lower ones.\<close>

theorem ih_timestamp_truncated:
  "Vector_field off' ''Timestamp'' v radix \<in> set (oss_vector off ih) \<Longrightarrow> v = ih ! 1"
proof -
  assume "Vector_field off' ''Timestamp'' v radix \<in> set (oss_vector off ih)"
  then have "v = ucast (ucast (ih ! 1) + push_bit 32 (BITS (ih ! 2) 0 16) :: u64)" by (auto simp: oss_vector_def)
  also have "\<dots> = ucast (ucast (ih ! 1) :: u64) + ucast (push_bit 32 (BITS (ih ! 2) 0 16) :: u64)"
    by (rule ucast_add_down)
  also have "(ucast (push_bit 32 (BITS (ih ! 2) 0 16) :: u64) :: u32) = 0" by (rule bit_word_eqI) (simp add: bit_simps)
  also have "ucast (ucast (ih ! 1) :: u64) + 0 = ih ! 1" by simp
  finally show ?thesis .
qed

end
