(* ===== verification/Discovery.thy ===== *)
theory Discovery
  imports Packet_Frame
begin

unbundle bit_operations_syntax

text \<open>
  The IP discovery table in the memory of the GPU (\<^verbatim>\<open>src/lib/discovery_table.c\<close>): finding, reading and
  verifying it.  The size of the memory, which the kernel driver or a register gives, is an argument,
  and so is the access to the memory.  A table is an array of bytes, read at the offsets of the packed
  structures of \<^verbatim>\<open>lib/import/discovery.h\<close>.
\<close>

abbreviation (input) UMR_DISCOVERY_TABLE_SIZE :: u32 where "UMR_DISCOVERY_TABLE_SIZE \<equiv> 0x1000"
abbreviation (input) UMR_DISCOVERY_TABLE_OFFSET :: u64 where "UMR_DISCOVERY_TABLE_OFFSET \<equiv> 0x10000"
abbreviation (input) BINARY_SIGNATURE :: u32 where "BINARY_SIGNATURE \<equiv> 0x28211407"

text \<open>The places of the fields; a structure of the list of tables has eight bytes.\<close>

abbreviation (input) at_signature :: nat where "at_signature \<equiv> 0"
abbreviation (input) at_checksum :: nat where "at_checksum \<equiv> 8"
abbreviation (input) at_size :: nat where "at_size \<equiv> 10"
abbreviation (input) at_table :: "nat \<Rightarrow> nat" where "at_table k \<equiv> 12 + 8 * k"
abbreviation (input) header_bytes :: nat where "header_bytes \<equiv> 60"

definition u16_at :: "u8 list \<Rightarrow> nat \<Rightarrow> u16 option" where
  "u16_at table k = do {
     a \<leftarrow> word_at table k;
     b \<leftarrow> word_at table (k + 1);
     Some (ucast a OR push_bit 8 (ucast b)) }"

definition u32_at :: "u8 list \<Rightarrow> nat \<Rightarrow> u32 option" where
  "u32_at table k = do {
     a \<leftarrow> u16_at table k;
     b \<leftarrow> u16_at table (k + 2);
     Some (ucast a OR push_bit 16 (ucast b)) }"

type_synonym 'w vram_access = "u64 \<Rightarrow> u8 list \<Rightarrow> bool \<Rightarrow> ('w, int \<times> u8 list) dev_op"

definition umr_discovery_table_is_supported :: "('w, u64) dev_op \<Rightarrow> 'w vram_access \<Rightarrow> ('w, bool) dev_op" where
  "umr_discovery_table_is_supported get_full_vram_size access s = do {
     (vram_size, s) \<leftarrow> get_full_vram_size s;
     if vram_size = 0 then Some (False, s)
     else do {
       ((ret, header), s) \<leftarrow> access (vram_size - UMR_DISCOVERY_TABLE_OFFSET) (replicate header_bytes 0) False s;
       if ret \<noteq> 0 then Some (False, s)
       else do {
         w \<leftarrow> u32_at header at_signature;
         Some (w = BINARY_SIGNATURE, s) } } }"

text \<open>
  With no buffer the call only tells the size.  The result is the return value, the buffer afterwards
  and what is stored in the size, if it is asked for and reached.
\<close>

definition umr_discovery_read_table ::
    "('w, u64) dev_op \<Rightarrow> 'w vram_access \<Rightarrow> u8 list option \<Rightarrow> bool \<Rightarrow> ('w, int \<times> u8 list option \<times> u32 option) dev_op" where
  "umr_discovery_read_table get_full_vram_size access table want_size s =
     (let sz = (if want_size then Some UMR_DISCOVERY_TABLE_SIZE else None) in
      if table = None \<and> want_size then Some ((0, table, sz), s)
      else do {
        (vram_size, s) \<leftarrow> get_full_vram_size s;
        if vram_size = 0 then Some ((- 1, table, None), s)
        else case table of
            None \<Rightarrow> Some ((0, None, sz), s)
          | Some bytes \<Rightarrow>
              if length bytes < unat UMR_DISCOVERY_TABLE_SIZE then None
              else do {
                ((ret, new), s) \<leftarrow> access (vram_size - UMR_DISCOVERY_TABLE_OFFSET) (take (unat UMR_DISCOVERY_TABLE_SIZE) bytes) False s;
                let bytes = new @ drop (unat UMR_DISCOVERY_TABLE_SIZE) bytes;
                if ret \<noteq> 0 then Some ((ret, Some bytes, None), s)
                else Some ((0, Some bytes, sz), s) } })"

definition umr_calculate_discovery_checksum :: "u8 list \<Rightarrow> u16 \<Rightarrow> u16 option" where
  "umr_calculate_discovery_checksum bytes n =
     (if unat n \<le> length bytes then Some (sum_list (map ucast (take (unat n) bytes))) else None)"

definition umr_verify_discovery_table_by_id :: "u8 list \<Rightarrow> nat \<Rightarrow> int option" where
  "umr_verify_discovery_table_by_id table table_id = do {
     checksum \<leftarrow> u16_at table (at_table table_id + 2);
     off \<leftarrow> u16_at table (at_table table_id);
     n \<leftarrow> u16_at table (at_table table_id + 4);
     c \<leftarrow> umr_calculate_discovery_checksum (drop (unat off) table) n;
     Some (if c = checksum then 0 else - 1) }"

text \<open>The three tables that are verified come first in the list.\<close>

fun verify_tables :: "u8 list \<Rightarrow> nat list \<Rightarrow> int option" where
  "verify_tables table [] = Some 0"
| "verify_tables table (k # ks) = do {
     r \<leftarrow> umr_verify_discovery_table_by_id table k;
     if r \<noteq> 0 then Some (- 1) else verify_tables table ks }"

definition umr_discovery_verify_table :: "u8 list \<Rightarrow> int option" where
  "umr_discovery_verify_table table = do {
     signature \<leftarrow> u32_at table at_signature;
     if signature \<noteq> BINARY_SIGNATURE then Some (- 1)
     else do {
       n \<leftarrow> u16_at table at_size;
       checksum \<leftarrow> u16_at table at_checksum;
       c \<leftarrow> umr_calculate_discovery_checksum (drop at_size table) (n - of_nat at_size);
       if c \<noteq> checksum then Some (- 1) else verify_tables table [0, 1, 2] } }"

subsection \<open>A changed byte is noticed\<close>

lemma u16_at_update: "k \<noteq> i \<Longrightarrow> k + 1 \<noteq> i \<Longrightarrow> u16_at (table[i := b]) k = u16_at table k"
  by (simp add: u16_at_def word_at_def)

lemma ucast_byte_inject: "(ucast a :: u16) = ucast b \<longleftrightarrow> a = b" for a b :: u8
proof
  assume "(ucast a :: u16) = ucast b"
  then have "unat (ucast a :: u16) = unat (ucast b :: u16)" by simp
  moreover have "unat (ucast x :: u16) = unat x" for x :: u8
    using unsigned_less [where 'a = nat, of x] by (simp add: unsigned_ucast_eq take_bit_nat_eq_self)
  ultimately show "a = b" by (simp only: unsigned_word_eqI)
qed simp

lemma checksum_update:
  fixes bytes :: "u8 list"
  assumes "i < length bytes" and "b \<noteq> bytes ! i"
  shows "sum_list (map ucast (bytes[i := b])) \<noteq> (sum_list (map ucast bytes) :: u16)"
proof -
  have l: "bytes = take i bytes @ [bytes ! i] @ drop (Suc i) bytes" using assms(1) by (simp add: id_take_nth_drop [symmetric])
  have "sum_list (map ucast (bytes[i := b])) = (sum_list (map ucast (take i bytes @ [b] @ drop (Suc i) bytes)) :: u16)"
    using assms(1) by (simp add: upd_conv_take_nth_drop)
  also have "\<dots> \<noteq> sum_list (map ucast (take i bytes @ [bytes ! i] @ drop (Suc i) bytes))"
    using assms(2) by (simp add: ucast_byte_inject)
  finally show ?thesis using l by metis
qed


definition demo_table :: "u8 list" where
  "demo_table = [0x07, 0x14, 0x21, 0x28, 1, 0, 0, 0, 65, 0, 60, 0] @ replicate 47 0 @ [5]"


end
