(* ===== verification/Spec2Isabelle.thy ===== *)
theory Spec2Isabelle
  imports Rumr_Serial Packet_Ring Wave_Scan Ih_Vectors Discovery
begin

text \<open>
  UMR, the user mode register debugger for AMD GPUs.

  \<^bold>\<open>The program.\<close>  UMR describes a GPU by its IP blocks, registers and bit fields, reaches its registers and
  memory through a table of callbacks, and decodes what it finds there.  The library (\<^verbatim>\<open>src/src/lib\<close>) is in
  layers.  A device description (\<^verbatim>\<open>struct umr_asic\<close>) comes from the database, from the kernel's configuration dump
  or from another machine in a byte format.  Registers are looked up in it by name, by wildcard and by
  address.  On the lookup stand the named register accesses and the bank selection; on these the access to
  video memory, which reads the page table registers and walks the page tables; on the memory the decoders of
  packet streams, which follow indirect buffers through it; and on all of them the reader of rings, the scan for
  shader waves, the decoder of interrupt vectors and the reader of the discovery table.  For testing, the
  callbacks can be those of a device that a script describes.  The theories follow these layers.

  \<^bold>\<open>Vocabulary.\<close>
  \<^item> \<open>Umr_Prelude\<close>: C integers as words, strings as character lists, little endian bytes, shift and mask, the
    generic lemmas and the collections that the other theories share.
  \<^item> \<open>Umr_Types\<close> (\<^verbatim>\<open>umr.h\<close>): bit field, register, IP block, configuration, options and device, as records with
    the fields that the modelled code uses.

  \<^bold>\<open>Device descriptions.\<close>
  \<^item> \<open>Rumr_Buffer\<close> (\<^verbatim>\<open>rumr/buffer.c\<close>): the growing byte buffer, with allocation as a parameter that may fail.
    The buffer implements a queue of bytes (locale \<open>byte_queue\<close>, interpreted as \<open>rq\<close>).
  \<^item> \<open>Rumr_Serial\<close> (\<^verbatim>\<open>rumr/rumr_serial_asic.c\<close>): writer and parser of a device.  The writer and the parser of
    each part are inverse to each other, which composes to the round trip of a device, and the parser returns
    on every input.
  \<^item> \<open>Scan_Config\<close> (\<^verbatim>\<open>scan_config.c\<close>): the configuration dump, one definition per revision of the layout.

  \<^bold>\<open>Register lookup and access.\<close>
  \<^item> \<open>Expr_Match\<close>, \<open>Lower_Bound\<close>, \<open>Find_Reg\<close> (\<^verbatim>\<open>find_reg.c\<close>, \<^verbatim>\<open>find_ip.c\<close>, \<^verbatim>\<open>create_mmio_accel.c\<close>): the wildcard
    matcher against its declarative meaning; the binary search, proved once for a weak order (locale
    \<open>weak_order\<close>) and interpreted for names and for addresses; every lookup against a linear scan.
  \<^item> \<open>Mmio\<close> (\<^verbatim>\<open>mmio.c\<close>, \<^verbatim>\<open>apply_bank_address.c\<close>): access by name, slicing and composing fields, bank selection.
    Locale \<open>register_bus\<close> says what callbacks promise when a register keeps what is written to it.

  \<^bold>\<open>The scripted device.\<close>
  \<^item> \<open>Harness_Script\<close> and \<open>Test_Harness\<close> (\<^verbatim>\<open>testing_harness.c\<close>, \<^verbatim>\<open>mem.c\<close>): the script language with the log lines that
    record it, and the callbacks of the device.  It is the model of the callbacks on which the contracts
    \<open>linear_memory\<close> and \<open>register_bus\<close> are discharged, and a concrete device for every theorem below
    that has hypotheses on callbacks.

  \<^bold>\<open>Video memory\<close> (\<^verbatim>\<open>read_vram.c\<close>).
  \<^item> \<open>Vm_Decode\<close>: the entry formats, with the composition that the decoders undo.
  \<^item> \<open>Vm_Access\<close>: the register window, the linear hub and the hive of nodes, the loop over pages and the
    dispatcher \<open>umr_access_vram\<close>.  The loop is proved for any page handler (locales \<open>page_handler\<close> and
    \<open>page_reader\<close>).
  \<^item> \<open>Vm_Vi\<close>, \<open>Vm_Ai\<close>: the walks up to GFX8 and from GFX9 on.  Each has an abstract translation of addresses that
    knows nothing of buffers, chunks or registers, and the access is proved to return the bytes at the
    translated addresses.

  \<^bold>\<open>Packet streams.\<close>
  \<^item> \<open>Packet_Frame\<close>: the loop that all decoders write out.  Locales \<open>packet_body\<close>, \<open>total_body\<close>,
    \<open>wire_body\<close> and \<open>cut_body\<close> say what one round promises; the loop lemmas (packets are the beginning of the
    buffer, the loop returns, packets written out come back, a cut packet alone is lost) are proved there and
    hold of each decoder by interpretation.
  \<^item> \<open>Pm4_Stream\<close> (\<^verbatim>\<open>read_pm4_stream.c\<close>, \<^verbatim>\<open>pm4_lite.c\<close>, and the shader size of \<^verbatim>\<open>shader_disasm.c\<close>), \<open>Sdma_Stream\<close>
    (\<^verbatim>\<open>read_sdma_stream.c\<close>, \<^verbatim>\<open>read_vpe_stream.c\<close>), \<open>Sched_Stream\<close> (\<^verbatim>\<open>read_hsa_stream.c\<close>, \<^verbatim>\<open>read_mes_stream.c\<close>,
    \<^verbatim>\<open>read_umsch_stream.c\<close>), \<open>Vcn_Stream\<close> (\<^verbatim>\<open>read_vcn_enc_stream.c\<close>, \<^verbatim>\<open>read_vcn_dec_stream.c\<close>): the decoders, with the
    indirect buffers, shaders and messages that they look for.
  \<^item> \<open>Ring_Control\<close> (\<^verbatim>\<open>ring_is_halted.c\<close>, \<^verbatim>\<open>sq_cmd_halt_waves.c\<close>) and \<open>Packet_Ring\<close> (\<^verbatim>\<open>packet_stream.c\<close>): halting the waves
    behind a ring, and the interface that decodes rings, buffers and GPU memory of every kind.

  \<^bold>\<open>Waves, interrupts, discovery.\<close>
  \<^item> \<open>Wave_Data\<close>, \<open>Wave_Scan\<close> (\<^verbatim>\<open>scan_waves.c\<close>): the status of a wave with its name tables, reading it and the
    registers through the SQ, the scan over all units, single stepping.  The scan is compared with the list of
    the waves that a device holds.
  \<^item> \<open>Ih_Vectors\<close> (\<^verbatim>\<open>ih_decode_vectors.c\<close>): interrupt vectors, with the calls to the user interface as events.
  \<^item> \<open>Discovery\<close> (\<^verbatim>\<open>discovery_table.c\<close>): finding, reading and verifying the discovery table.

  \<^bold>\<open>Conventions.\<close>  An operation on a device is a function from the description and the state \<open>'w\<close> behind the
  callbacks to a result and a new state.  Its value \<open>None\<close> is an execution with no defined result: a
  dereferenced null pointer, an access outside an array, a shift by at least the width, an unset variable that is
  used, or a loop that never ends.  A theorem that an operation returns says that this does not happen.  Errors that
  the code reports are values: negative integers as in the code, options for null pointers, and constructors
  where one round of a loop has several exits.  Callbacks are parameters (\<open>umr_funcs\<close>, \<open>vm_env\<close>,
  \<open>pkt_env\<close>, \<open>wave_funcs\<close>, \<open>ring_reader\<close>), and so is what the code takes from the operating system.

  \<^bold>\<open>Loops and bounds.\<close>  Loops whose end depends on the data are partial functions with \<open>None\<close> for not returning: the
  script reader, the scalar register reader of the harness, the loop over pages, the further tables of a page walk,
  and the search for the end of a shader.  For each of them it is proved when it returns, and for three of
  them that there are inputs on which it does not.  The other loops are structural or have a measure.  The decoders
  that follow indirect buffers call themselves on what they read; their first argument bounds the nesting as the C
  stack does, and \<open>None\<close> at zero is a stack that is exhausted.  A larger bound never changes a
  result (\<open>pm4_depth_mono\<close>), one level is enough when nothing is followed, and a buffer that points to itself
  exhausts every bound.  A buffer from the heap has the fixed address \<open>heap_buffer\<close>, of which the code only uses
  that it is aligned and not null.

  \<^bold>\<open>Not modelled.\<close>
  \<^item> Text: messages, debug output, the names that the presenters attach to fields
    (\<^verbatim>\<open>pm4_decode_opcodes.c\<close>, \<^verbatim>\<open>sdma_decode_opcodes.c\<close>, \<^verbatim>\<open>vpe_decode_opcodes.c\<close>, the MES, UMSCH and VCN presenters,
    \<^verbatim>\<open>ring_decode.c\<close>, \<^verbatim>\<open>dump_ib.c\<close>), and the tables of \<^verbatim>\<open>mqd_decode.c\<close> and \<^verbatim>\<open>decode_metrics.c\<close>.  They keep no state.
  \<^item> Input and output: debugfs, sysfs, PCI and DRM, which are behind the callbacks; sockets of the remote client
    and server; the files of the database and its choice by device id.
  \<^item> Shader disassembly, which is a library; the command line; the graphical interface with its vendored
    libraries.
  \<^item> Freeing, and failing allocation outside \<open>Rumr_Buffer\<close>; the recording of test vectors while accesses run;
    pauses between retries; \<^verbatim>\<open>umr_apply_callbacks\<close>, which is taken to have installed the callbacks.
\<close>

end
